(* ===== verification/Prelude.thy ===== *)
theory Prelude
  imports Main "HOL-Library.Word" "HOL-Library.Sublist" "HOL-Library.Code_Target_Numeral"
begin

text \<open>
  What every component shares: bytes and byte strings, the 64-bit unsigned arithmetic of the
  target (\<open>u64\<close> and \<open>usize\<close>, both 64 bits wide: wrapping as in a release build, and
  saturating), list lemmas, the lemma collections used for automation, and the two interfaces
  that several components implement: a \<open>machine\<close> whose step keeps an invariant, and a
  \<open>codec\<close> whose decoder inverts its encoder.
\<close>

section \<open>Bytes\<close>

type_synonym byte = "8 word"
type_synonym bytes = "byte list"

text \<open>The bytes of an ASCII string literal of the source.\<close>

definition ascii :: "string \<Rightarrow> bytes" where
  "ascii s = map of_char s"

lemma ascii_Nil [simp]: "ascii [] = []"
  by (simp add: ascii_def)

lemma ascii_Cons [simp]: "ascii (c # s) = of_char c # ascii s"
  by (simp add: ascii_def)

lemma length_ascii [simp]: "length (ascii s) = length s"
  by (simp add: ascii_def)

section \<open>Lemma collections\<close>

text \<open>
  \<open>const_defs\<close>: the numeric constants of the protocol; \<open>rx_defs\<close>: the operations of the
  receiver; \<open>fs_defs\<close>: the file-system calls; \<open>frame\<close>: facts that an operation leaves a
  part of the state alone.
\<close>

named_theorems const_defs
named_theorems rx_defs
named_theorems fs_defs
named_theorems frame

section \<open>Unsigned 64-bit arithmetic\<close>

text \<open>
  \<open>u64\<close> and \<open>usize\<close> values are natural numbers below \<open>2 ^ 64\<close>. \<open>+\<close> and \<open>*\<close> of the
  source are \<open>add64\<close> and \<open>mul64\<close>, which wrap as a release build does;
  \<open>saturating_add\<close> is \<open>sat_add64\<close>.
\<close>

definition u64_max :: nat where
  "u64_max = 2 ^ 64 - 1"

definition add64 :: "nat \<Rightarrow> nat \<Rightarrow> nat" where
  "add64 a b = (a + b) mod 2 ^ 64"

definition mul64 :: "nat \<Rightarrow> nat \<Rightarrow> nat" where
  "mul64 a b = (a * b) mod 2 ^ 64"

definition sat_add64 :: "nat \<Rightarrow> nat \<Rightarrow> nat" where
  "sat_add64 a b = min (a + b) u64_max"

definition div_ceil :: "nat \<Rightarrow> nat \<Rightarrow> nat" where
  "div_ceil a b = (if a mod b = 0 then a div b else a div b + 1)"

lemma add64_exact [simp]: "a + b < 2 ^ 64 \<Longrightarrow> add64 a b = a + b"
  by (simp add: add64_def)

lemma mul64_exact [simp]: "a * b < 2 ^ 64 \<Longrightarrow> mul64 a b = a * b"
  by (simp add: mul64_def)

lemma sat_add64_exact [simp]: "a + b \<le> u64_max \<Longrightarrow> sat_add64 a b = a + b"
  by (simp add: sat_add64_def)

lemma sat_add64_le_max [simp]: "sat_add64 a b \<le> u64_max"
  by (simp add: sat_add64_def)

text \<open>Below a bound under the maximum, a saturating sum is the exact sum.\<close>

lemma sat_add64_leD: "sat_add64 a b \<le> L \<Longrightarrow> L < u64_max \<Longrightarrow> sat_add64 a b = a + b"
  by (auto simp: sat_add64_def min_def split: if_splits)

lemma div_ceil_le_iff: "0 < b \<Longrightarrow> div_ceil a b \<le> n \<longleftrightarrow> a \<le> n * b"
proof -
  assume b: "0 < b"
  have a: "a = b * (a div b) + a mod b" by simp
  show ?thesis
  proof (cases "a mod b = 0")
    case True
    then obtain q where "a = b * q" by auto
    with b show ?thesis by (simp add: div_ceil_def mult.commute)
  next
    case False
    then have "a \<le> n * b \<longleftrightarrow> a < n * b"
      by (metis le_neq_implies_less less_imp_le mod_mult_self2_is_0)
    also have "\<dots> \<longleftrightarrow> a div b < n" using b by (simp add: div_less_iff_less_mult)
    finally show ?thesis using False by (simp add: div_ceil_def Suc_le_eq)
  qed
qed

lemma less_div_ceil_iff: "0 < b \<Longrightarrow> n < div_ceil a b \<longleftrightarrow> n * b < a"
  using div_ceil_le_iff [of b a n] by linarith

lemma div_ceil_0 [simp]: "div_ceil 0 b = 0"
  by (simp add: div_ceil_def)

lemma div_ceil_le [simp]: "0 < b \<Longrightarrow> div_ceil a b \<le> a"
  by (simp add: div_ceil_le_iff)

section \<open>Lists\<close>

lemma take_replicate_append: "n \<le> m \<Longrightarrow> take n (replicate m x @ ys) = replicate n x"
  by simp

lemma sum_list_map_le: "(\<And>x. x \<in> set xs \<Longrightarrow> f x \<le> (k::nat)) \<Longrightarrow> sum_list (map f xs) \<le> k * length xs"
  by (induction xs) (auto simp: add_mono)

section \<open>Interfaces\<close>

text \<open>
  A component that handles one input at a time, with an invariant every step keeps: the
  receiver's packet worker and the datagram forwarder are instances. The client lemmas lift
  a fact about one step to a run over a list of inputs.
\<close>

locale machine =
  fixes step :: "'s \<Rightarrow> 'i \<Rightarrow> 's"
    and inv :: "'s \<Rightarrow> bool"
  assumes step_inv: "inv s \<Longrightarrow> inv (step s i)"
begin

lemma run_inv: "inv s \<Longrightarrow> inv (foldl step s is)"
  by (induction "is" arbitrary: s) (auto intro: step_inv)

text \<open>A quantity no step changes is unchanged by a run.\<close>

lemma run_frame:
  assumes "inv s" and "\<And>s i. inv s \<Longrightarrow> f (step s i) = f s"
  shows "f (foldl step s is) = f s"
  using assms(1) by (induction "is" arbitrary: s) (simp_all add: assms(2) step_inv)

text \<open>A relation between successive states that is reflexive and transitive relates the ends.\<close>

lemma run_rel:
  assumes "inv s" and "\<And>s. R s s" and "\<And>s t u. R s t \<Longrightarrow> R t u \<Longrightarrow> R s u"
    and "\<And>s i. inv s \<Longrightarrow> R s (step s i)"
  shows "R s (foldl step s is)"
  using assms(1)
proof (induction "is" arbitrary: s)
  case (Cons i "is")
  have "R s (step s i)" using Cons.prems by (rule assms(4))
  moreover have "R (step s i) (foldl step (step s i) is)"
    using Cons.IH step_inv [OF Cons.prems] by blast
  ultimately have "R s (foldl step (step s i) is)" by (rule assms(3))
  then show ?case by simp
qed (simp add: assms(2))

end

text \<open>
  A component whose threads interleave: a step relation with an invariant every step keeps, and a
  relation between states that every step from a good state respects.
\<close>

locale transitions =
  fixes step :: "'s \<Rightarrow> 's \<Rightarrow> bool"
    and inv :: "'s \<Rightarrow> bool"
  assumes step_inv: "inv s \<Longrightarrow> step s t \<Longrightarrow> inv t"
begin

lemma reaches_inv: "rtranclp step s t \<Longrightarrow> inv s \<Longrightarrow> inv t"
  by (induction rule: rtranclp_induct) (auto intro: step_inv)

lemma reaches_frame:
  assumes "rtranclp step s t" and "\<And>s t. step s t \<Longrightarrow> f t = f s"
  shows "f t = f s"
  using assms(1) by (induction rule: rtranclp_induct) (simp_all add: assms(2))

end

text \<open>A wire format: on the values it accepts, the decoder inverts the encoder.\<close>

locale codec =
  fixes enc :: "'a \<Rightarrow> 'b" and dec :: "'b \<Rightarrow> 'a option" and ok :: "'a \<Rightarrow> bool"
  assumes dec_enc: "ok x \<Longrightarrow> dec (enc x) = Some x"
begin

lemma enc_inject:
  assumes "ok x" and "ok y" and "enc x = enc y"
  shows "x = y"
proof -
  have "Some x = dec (enc y)" by (simp only: dec_enc [OF assms(1), symmetric] assms(3))
  also have "\<dots> = Some y" using assms(2) by (rule dec_enc)
  finally show ?thesis by simp
qed

lemma dec_all: "list_all ok xs \<Longrightarrow> map dec (map enc xs) = map Some xs"
  by (induction xs) (auto simp: dec_enc)

end

end
