(* ===== verification/Rstr.thy ===== *)
theory Rstr
  imports Prelude
begin

text \<open>
  The parts of Rust's \<open>str\<close>, \<open>String\<close>, number formatting and parsing, and
  \<open>std::path::Path\<close> that the program uses. A \<open>String\<close> is the list of its UTF-8 bytes.
  The functions of this theory model the standard library on a Unix target, so the manifest maps
  none of them to the repository.
\<close>

section \<open>UTF-8\<close>

definition is_cont :: "byte \<Rightarrow> bool" where
  "is_cont b \<longleftrightarrow> 0x80 \<le> b \<and> b \<le> 0xBF"

text \<open>Byte \<open>i\<close> of a string, \<open>0\<close> past its end: how the validator looks ahead.\<close>

definition byte_at :: "bytes \<Rightarrow> nat \<Rightarrow> byte" where
  "byte_at s i = (if i < length s then s ! i else 0)"

text \<open>The second byte a three- or four-byte sequence may have after its first byte.\<close>

definition second_ok :: "byte \<Rightarrow> byte \<Rightarrow> bool" where
  "second_ok b c \<longleftrightarrow>
     (if b = 0xE0 then 0xA0 \<le> c \<and> c \<le> 0xBF
      else if b = 0xED then 0x80 \<le> c \<and> c \<le> 0x9F
      else if b = 0xF0 then 0x90 \<le> c \<and> c \<le> 0xBF
      else if b = 0xF4 then 0x80 \<le> c \<and> c \<le> 0x8F
      else is_cont c)"

text \<open>
  The first character of a string: whether it is a well-formed sequence, and how many bytes the
  sequence, or the maximal ill-formed piece the decoder reports, has.
\<close>

definition utf8_next :: "bytes \<Rightarrow> bool \<times> nat" where
  "utf8_next s =
     (let b = byte_at s 0; c = byte_at s 1; d = byte_at s 2; e = byte_at s 3 in
      if b < 0x80 then (True, 1)
      else if 0xC2 \<le> b \<and> b \<le> 0xDF then (if is_cont c then (True, 2) else (False, 1))
      else if 0xE0 \<le> b \<and> b \<le> 0xEF then
        (if \<not> second_ok b c then (False, 1) else if \<not> is_cont d then (False, 2) else (True, 3))
      else if 0xF0 \<le> b \<and> b \<le> 0xF4 then
        (if \<not> second_ok b c then (False, 1) else if \<not> is_cont d then (False, 2)
         else if \<not> is_cont e then (False, 3) else (True, 4))
      else (False, 1))"

datatype utf8_chunk = Valid bytes | Invalid bytes

lemma utf8_next_pos: "0 < snd (utf8_next s)"
  by (simp add: utf8_next_def Let_def)

function utf8_chunks :: "bytes \<Rightarrow> utf8_chunk list" where
  "utf8_chunks s =
     (if s = [] then []
      else let (ok, n) = utf8_next s
           in (if ok then Valid (take n s) else Invalid (take n s)) # utf8_chunks (drop n s))"
  by pat_completeness auto
termination
proof (relation "measure length", goal_cases)
  case (2 s x ok n)
  with utf8_next_pos [of s] show ?case by (cases "utf8_next s") simp
qed simp

declare utf8_chunks.simps [simp del]

primrec chunk_text :: "utf8_chunk \<Rightarrow> bytes" where
  "chunk_text (Valid s) = s"
| "chunk_text (Invalid s) = [0xEF, 0xBF, 0xBD]"

primrec chunk_valid :: "utf8_chunk \<Rightarrow> bool" where
  "chunk_valid (Valid s) = True"
| "chunk_valid (Invalid s) = False"

definition valid_utf8 :: "bytes \<Rightarrow> bool" where
  "valid_utf8 s \<longleftrightarrow> list_all chunk_valid (utf8_chunks s)"

text \<open>\<open>std::str::from_utf8\<close> and \<open>String::from_utf8_lossy\<close>.\<close>

definition from_utf8 :: "bytes \<Rightarrow> bytes option" where
  "from_utf8 s = (if valid_utf8 s then Some s else None)"

definition from_utf8_lossy :: "bytes \<Rightarrow> bytes" where
  "from_utf8_lossy s = concat (map chunk_text (utf8_chunks s))"

text \<open>\<open>str::chars\<close>: the characters of a string, each as its own UTF-8 bytes.\<close>

definition str_chars :: "bytes \<Rightarrow> bytes list" where
  "str_chars s = map chunk_text (utf8_chunks s)"

lemma utf8_chunks_Nil [simp]: "utf8_chunks [] = []"
  by (simp add: utf8_chunks.simps)

lemma utf8_chunks_ascii: "b < 0x80 \<Longrightarrow> utf8_chunks (b # s) = Valid [b] # utf8_chunks s"
  by (subst utf8_chunks.simps) (simp add: utf8_next_def byte_at_def)

lemma utf8_ascii:
  "list_all (\<lambda>b. b < 0x80) s \<Longrightarrow> utf8_chunks (s @ t) = map (\<lambda>b. Valid [b]) s @ utf8_chunks t"
  by (induction s) (simp_all add: utf8_chunks_ascii)

lemma valid_utf8_ascii: "list_all (\<lambda>b. b < 0x80) s \<Longrightarrow> valid_utf8 s"
  using utf8_ascii [of s "[]"] by (simp add: valid_utf8_def list_all_iff)

lemma chunks_concat_valid: "valid_utf8 s \<Longrightarrow> concat (map chunk_text (utf8_chunks s)) = s"
  unfolding valid_utf8_def
proof (induction s rule: utf8_chunks.induct)
  case (1 s)
  show ?case
  proof (cases "s = []")
    case False
    obtain ok n where n: "utf8_next s = (ok, n)" by force
    with False "1.prems" have ok: "ok" and rest: "list_all chunk_valid (utf8_chunks (drop n s))"
      by (auto simp: utf8_chunks.simps [of s] split: if_splits)
    with "1.IH" [OF False n [symmetric] refl] False n show ?thesis
      by (simp add: utf8_chunks.simps [of s])
  qed simp
qed

lemma from_utf8_lossy_valid [simp]: "valid_utf8 s \<Longrightarrow> from_utf8_lossy s = s"
  by (simp add: from_utf8_lossy_def chunks_concat_valid)

end
