(* ===== verification/Rnum.thy ===== *)
theory Rnum
  imports Rstr
begin

text \<open>
  Formatting and parsing of unsigned decimal numbers as \<open>format!\<close> and \<open>str::parse\<close> do them,
  and lower-case hexadecimal bytes (\<open>{:02x}\<close>). The round trip of the two is the
  interpretation \<open>decimal\<close> of the \<open>codec\<close> interface.
\<close>

section \<open>Decimal digits\<close>

definition digit :: "nat \<Rightarrow> byte" where
  "digit d = word_of_nat (48 + d)"

definition is_digit :: "byte \<Rightarrow> bool" where
  "is_digit b \<longleftrightarrow> 48 \<le> b \<and> b \<le> 57"

definition digit_value :: "byte \<Rightarrow> nat" where
  "digit_value b = unat b - 48"

fun fmt_dec :: "nat \<Rightarrow> bytes" where
  "fmt_dec n = (if n < 10 then [digit n] else fmt_dec (n div 10) @ [digit (n mod 10)])"

declare fmt_dec.simps [simp del]

text \<open>\<open>{:0w}\<close>: padded with zeros on the left to at least \<open>w\<close> characters.\<close>

definition fmt_zero_padded :: "nat \<Rightarrow> nat \<Rightarrow> bytes" where
  "fmt_zero_padded w n = replicate (w - length (fmt_dec n)) (digit 0) @ fmt_dec n"

text \<open>
  \<open>parse::<uN>\<close> for the type with maximum \<open>maxv\<close>: an optional plus sign, then digits only,
  with the overflow check at every digit.
\<close>

fun parse_digits :: "nat \<Rightarrow> nat \<Rightarrow> bytes \<Rightarrow> nat option" where
  "parse_digits maxv acc [] = Some acc"
| "parse_digits maxv acc (b # s) =
     (if \<not> is_digit b then None
      else let v = 10 * acc + digit_value b
           in if v \<le> maxv then parse_digits maxv v s else None)"

definition parse_uint :: "nat \<Rightarrow> bytes \<Rightarrow> nat option" where
  "parse_uint maxv s =
     (case s of [] \<Rightarrow> None
      | b # t \<Rightarrow> if b = 43 then (if t = [] then None else parse_digits maxv 0 t)
                 else parse_digits maxv 0 s)"

definition u8_max :: nat where
  "u8_max = 255"

section \<open>Facts\<close>

lemma unat_digit: "d < 10 \<Longrightarrow> unat (digit d) = 48 + d"
  unfolding digit_def by (subst unat_of_nat) simp

lemma is_digit_digit [simp]: "d < 10 \<Longrightarrow> is_digit (digit d)"
  by (simp add: is_digit_def word_le_nat_alt unat_digit)

lemma digit_value_digit [simp]: "d < 10 \<Longrightarrow> digit_value (digit d) = d"
  by (simp add: digit_value_def unat_digit)

lemma digit_not_plus [simp]: "d < 10 \<Longrightarrow> digit d \<noteq> 43"
  using unat_digit [of d] by (auto dest: arg_cong [of _ _ unat])

lemma fmt_dec_digits: "list_all is_digit (fmt_dec n)"
proof (induction n rule: fmt_dec.induct)
  case (1 n)
  then show ?case by (simp add: fmt_dec.simps [of n])
qed

lemma fmt_dec_not_Nil [simp]: "fmt_dec n \<noteq> []"
  by (subst fmt_dec.simps) simp

lemma length_fmt_dec_le_iff: "0 < k \<Longrightarrow> length (fmt_dec n) \<le> k \<longleftrightarrow> n < 10 ^ k"
proof (induction n arbitrary: k rule: fmt_dec.induct)
  case (1 n)
  obtain j where k: "k = Suc j" using "1.prems" by (cases k) auto
  show ?case
  proof (cases "n < 10")
    case True
    then have "n < 10 ^ k" using "1.prems" k
      by (metis less_le_trans one_le_numeral one_le_power power_Suc mult_le_mono2 mult.right_neutral)
    with True "1.prems" show ?thesis by (simp add: fmt_dec.simps [of n])
  next
    case False
    then have step: "length (fmt_dec n) = Suc (length (fmt_dec (n div 10)))"
      by (simp add: fmt_dec.simps [of n])
    show ?thesis
    proof (cases "j = 0")
      case True
      with False step k show ?thesis by simp
    next
      case j: False
      have "length (fmt_dec (n div 10)) \<le> j \<longleftrightarrow> n div 10 < 10 ^ j"
        using "1.IH" [OF False] j by simp
      also have "\<dots> \<longleftrightarrow> n < 10 ^ k" using k by (simp add: div_less_iff_less_mult mult.commute)
      finally show ?thesis using step k by simp
    qed
  qed
qed

lemma length_fmt_zero_padded: "length (fmt_zero_padded w n) = max w (length (fmt_dec n))"
  by (simp add: fmt_zero_padded_def max_def)

lemma length_fmt_zero_padded_fits: "n < 10 ^ w \<Longrightarrow> 0 < w \<Longrightarrow> length (fmt_zero_padded w n) = w"
  using length_fmt_dec_le_iff [of w n] by (simp add: length_fmt_zero_padded max_def)

lemma fmt_zero_padded_digits: "list_all is_digit (fmt_zero_padded w n)"
  using fmt_dec_digits [of n] by (auto simp: fmt_zero_padded_def list_all_iff)

text \<open>The value a list of digits denotes, and what the parser makes of it.\<close>

definition digits_value :: "nat \<Rightarrow> bytes \<Rightarrow> nat" where
  "digits_value acc s = foldl (\<lambda>a b. 10 * a + digit_value b) acc s"

lemma digits_value_Nil [simp]: "digits_value acc [] = acc"
  and digits_value_Cons [simp]:
    "digits_value acc (b # s) = digits_value (10 * acc + digit_value b) s"
  and digits_value_append [simp]: "digits_value acc (s @ t) = digits_value (digits_value acc s) t"
  by (simp_all add: digits_value_def)

lemma digits_value_ge: "acc \<le> digits_value acc s"
proof (induction s arbitrary: acc)
  case (Cons b s)
  have "acc \<le> 10 * acc + digit_value b" by simp
  also have "\<dots> \<le> digits_value (10 * acc + digit_value b) s" by (rule Cons.IH)
  finally show ?case by simp
qed simp

lemma parse_digits_eq:
  "acc \<le> maxv \<Longrightarrow> parse_digits maxv acc s =
     (if list_all is_digit s \<and> digits_value acc s \<le> maxv then Some (digits_value acc s) else None)"
proof (induction s arbitrary: acc)
  case (Cons b s)
  show ?case
    using Cons.IH [of "10 * acc + digit_value b"] digits_value_ge [of "10 * acc + digit_value b" s]
    by (auto simp: Let_def)
qed simp

lemma digits_value_fmt_dec [simp]: "digits_value 0 (fmt_dec n) = n"
proof (induction n rule: fmt_dec.induct)
  case (1 n)
  then show ?case by (simp add: fmt_dec.simps [of n])
qed

lemma digits_value_zeros [simp]: "digits_value 0 (replicate k (digit 0)) = 0"
  by (induction k) simp_all

lemma digits_value_fmt_zero_padded [simp]: "digits_value 0 (fmt_zero_padded w n) = n"
  by (simp add: fmt_zero_padded_def)

lemma parse_uint_digits:
  assumes "list_all is_digit s" and "s \<noteq> []"
  shows "parse_uint maxv s = (if digits_value 0 s \<le> maxv then Some (digits_value 0 s) else None)"
proof -
  from assms obtain b t where s: "s = b # t" and "is_digit b" by (cases s) auto
  then have "b \<noteq> 43" by (auto simp: is_digit_def)
  with s assms(1) show ?thesis
    using parse_digits_eq [of 0 maxv s] by (simp add: parse_uint_def)
qed

lemma fmt_zero_padded_not_Nil [simp]: "fmt_zero_padded w n \<noteq> []"
  by (simp add: fmt_zero_padded_def)

interpretation decimal: codec "fmt_zero_padded w" "parse_uint maxv" "\<lambda>n. n \<le> maxv" for w maxv
  by unfold_locales (simp add: parse_uint_digits fmt_zero_padded_digits)

text \<open>A number that parses has at most the type's maximum, and fewer digits mean a smaller value.\<close>

lemma parse_digits_le: "parse_digits maxv acc s = Some v \<Longrightarrow> acc \<le> maxv \<Longrightarrow> v \<le> maxv"
  by (simp add: parse_digits_eq split: if_splits)

lemma digits_value_bound:
  "list_all is_digit s \<Longrightarrow> digits_value acc s < (acc + 1) * 10 ^ length s"
proof (induction s arbitrary: acc)
  case (Cons b s)
  have "digit_value b < 10" using Cons.prems by (auto simp: is_digit_def digit_value_def word_le_nat_alt)
  then have step: "10 * acc + digit_value b + 1 \<le> (acc + 1) * 10" by simp
  have "digits_value (10 * acc + digit_value b) s < (10 * acc + digit_value b + 1) * 10 ^ length s"
    using Cons by simp
  also have "\<dots> \<le> (acc + 1) * 10 * 10 ^ length s" using step by (rule mult_le_mono1)
  finally show ?case by (simp add: algebra_simps)
qed simp

lemma parse_uint_bounds:
  assumes "parse_uint maxv s = Some v"
  shows "v \<le> maxv" and "v < 10 ^ length s"
proof -
  obtain t where t: "parse_digits maxv 0 t = Some v" and len: "length t \<le> length s"
    using assms
    by (cases s) (auto simp: parse_uint_def simp del: parse_digits.simps split: if_splits)
  from t show "v \<le> maxv" by (rule parse_digits_le) simp
  have "v < 10 ^ length t"
    using t digits_value_bound [of t 0] by (simp add: parse_digits_eq split: if_splits)
  also have "\<dots> \<le> (10::nat) ^ length s" using len by (simp add: power_increasing)
  finally show "v < 10 ^ length s" .
qed

lemma is_digit_ascii: "is_digit b \<Longrightarrow> b < 0x80"
  by (auto simp: is_digit_def word_le_nat_alt word_less_nat_alt)

lemma valid_utf8_digits [simp]: "list_all is_digit s \<Longrightarrow> valid_utf8 s"
  by (rule valid_utf8_ascii) (auto simp: list_all_iff is_digit_ascii)

section \<open>Hexadecimal bytes\<close>

definition hex_digit :: "nat \<Rightarrow> byte" where
  "hex_digit d = (if d < 10 then digit d else word_of_nat (87 + d))"

text \<open>\<open>{:02x}\<close> of a byte.\<close>

definition fmt_hex2 :: "byte \<Rightarrow> bytes" where
  "fmt_hex2 b = [hex_digit (unat b div 16), hex_digit (unat b mod 16)]"

lemma length_fmt_hex2 [simp]: "length (fmt_hex2 b) = 2"
  by (simp add: fmt_hex2_def)

lemma length_concat_fmt_hex2 [simp]: "length (concat (map fmt_hex2 s)) = 2 * length s"
  by (induction s) simp_all

end
