(* ===== verification/Rpath.thy ===== *)
theory Rpath
  imports Rstr
begin

text \<open>
  \<open>std::path::Path\<close> on Unix: splitting a path into components, joining, and the names the
  operating system walks for a path. The library functions modelled here are used by the path
  check of \<open>diode_common/src/proto.rs\<close> and by every file operation of the receiver.
\<close>

section \<open>Components\<close>

definition slash :: byte where
  "slash = 47"

definition dot :: bytes where
  "dot = ascii ''.''"

definition dotdot :: bytes where
  "dotdot = ascii ''..''"

fun split_slash :: "bytes \<Rightarrow> bytes list" where
  "split_slash [] = [[]]"
| "split_slash (b # s) =
     (if b = slash then [] # split_slash s
      else (b # hd (split_slash s)) # tl (split_slash s))"

text \<open>The cases of \<open>std::path::Component\<close>; a Unix path never has a \<open>Prefix\<close>.\<close>

datatype component = Prefix bytes | RootDir | CurDir | ParentDir | Normal bytes

definition piece_component :: "bytes \<Rightarrow> component list" where
  "piece_component p =
     (if p = [] \<or> p = dot then [] else if p = dotdot then [ParentDir] else [Normal p])"

definition pieces :: "bytes \<Rightarrow> component list" where
  "pieces p = concat (map piece_component (split_slash p))"

definition starts_with :: "byte \<Rightarrow> bytes \<Rightarrow> bool" where
  "starts_with b s \<longleftrightarrow> (case s of [] \<Rightarrow> False | c # _ \<Rightarrow> c = b)"

text \<open>
  \<open>Path::components\<close>: empty pieces and \<open>.\<close> pieces are dropped, except a \<open>.\<close> at the very
  start of a relative path.
\<close>

definition components :: "bytes \<Rightarrow> component list" where
  "components p =
     (if starts_with slash p then RootDir # pieces p
      else (if hd (split_slash p) = dot then [CurDir] else []) @ pieces p)"

text \<open>\<open>Path::join\<close>: an absolute second path replaces the first.\<close>

definition path_join :: "bytes \<Rightarrow> bytes \<Rightarrow> bytes" where
  "path_join base rel =
     (if starts_with slash rel then rel
      else if base = [] \<or> last base = slash then base @ rel
      else base @ [slash] @ rel)"

section \<open>What the operating system resolves\<close>

text \<open>
  The names walked from the root of the modelled tree (the working directory for a relative
  path); there are no symbolic links in the tree, so \<open>..\<close> is the parent.
\<close>

fun walk :: "bytes list \<Rightarrow> component list \<Rightarrow> bytes list" where
  "walk at [] = at"
| "walk at (Prefix _ # cs) = walk at cs"
| "walk at (RootDir # cs) = walk [] cs"
| "walk at (CurDir # cs) = walk at cs"
| "walk at (ParentDir # cs) = walk (butlast at) cs"
| "walk at (Normal n # cs) = walk (at @ [n]) cs"

definition resolve :: "bytes \<Rightarrow> bytes list" where
  "resolve p = walk [] (components p)"

text \<open>\<open>Path::parent\<close>, as the directory it resolves to.\<close>

definition parent_dir :: "bytes \<Rightarrow> bytes list option" where
  "parent_dir p =
     (let cs = components p
      in if cs = [] \<or> last cs = RootDir then None else Some (walk [] (butlast cs)))"

text \<open>A path written with a trailing slash or dot component can only name a directory.\<close>

definition dir_form :: "bytes \<Rightarrow> bool" where
  "dir_form p \<longleftrightarrow> last (split_slash p) \<in> {[], dot, dotdot}"

section \<open>Facts\<close>

lemma split_slash_not_Nil [simp]: "split_slash s \<noteq> []"
  by (cases s) simp_all

lemma split_slash_append_slash:
  "split_slash (s @ slash # t) = split_slash s @ split_slash t"
  by (induction s) simp_all

lemma split_slash_append_word:
  "slash \<notin> set t \<Longrightarrow> split_slash (s @ t) = butlast (split_slash s) @ [last (split_slash s) @ t]"
proof (induction s)
  case Nil
  then show ?case by (induction t) auto
next
  case (Cons b s)
  then show ?case
    by (cases "split_slash s" rule: rev_cases)
      (auto simp: hd_append butlast_append split: list.splits)
qed

lemma starts_with_append: "s \<noteq> [] \<Longrightarrow> starts_with b (s @ t) = starts_with b s"
  by (cases s) (simp_all add: starts_with_def)

lemma hd_split_slash_append [simp]: "hd (split_slash (s @ slash # t)) = hd (split_slash s)"
  by (simp add: split_slash_append_slash)

lemma pieces_append_slash: "pieces (s @ slash # t) = pieces s @ pieces t"
  by (simp add: pieces_def split_slash_append_slash)

lemma pieces_Nil: "pieces [] = []"
  by (simp add: pieces_def piece_component_def)

lemma pieces_slash: "pieces (slash # s) = pieces s"
  using pieces_append_slash [of "[]" s] by (simp add: pieces_Nil)

lemma components_Nil: "components [] = []"
  by (simp add: components_def starts_with_def pieces_Nil dot_def)

lemma components_rooted: "components (slash # s) = RootDir # pieces s"
  by (simp add: components_def starts_with_def pieces_slash)

lemma components_append_slash:
  "s \<noteq> [] \<Longrightarrow> components (s @ slash # t) = components s @ pieces t"
  by (simp add: components_def starts_with_append pieces_append_slash)

lemma walk_append [simp]: "walk at (cs @ ds) = walk (walk at cs) ds"
  by (induction at cs rule: walk.induct) simp_all

lemma walk_normal [simp]: "walk at (map Normal ns) = at @ ns"
  by (induction ns arbitrary: at) simp_all

text \<open>
  A path all of whose components are plain names, and those names. Joined below a directory it
  resolves to exactly these names below that directory.
\<close>

definition plain :: "bytes \<Rightarrow> bool" where
  "plain p \<longleftrightarrow> p \<noteq> [] \<and> list_all (\<lambda>c. case c of Normal _ \<Rightarrow> True | _ \<Rightarrow> False) (components p)"

primrec comp_name :: "component \<Rightarrow> bytes" where
  "comp_name (Prefix n) = n"
| "comp_name RootDir = []"
| "comp_name CurDir = dot"
| "comp_name ParentDir = dotdot"
| "comp_name (Normal n) = n"

definition names :: "bytes \<Rightarrow> bytes list" where
  "names p = map comp_name (components p)"

lemma plain_not_rooted: "plain p \<Longrightarrow> \<not> starts_with slash p"
  by (auto simp: plain_def components_def)

lemma normal_comp_name:
  "(case c of Normal _ \<Rightarrow> True | _ \<Rightarrow> False) \<Longrightarrow> Normal (comp_name c) = c"
  by (cases c) simp_all

lemma plain_components: "plain p \<Longrightarrow> components p = map Normal (names p)"
  unfolding plain_def names_def list_all_iff map_map comp_def
  by (rule map_idI [symmetric]) (blast intro: normal_comp_name)

lemma plain_pieces:
  assumes "plain p"
  shows "pieces p = map Normal (names p)"
    and "hd (split_slash p) \<noteq> dot"
proof -
  have nr: "\<not> starts_with slash p" using assms by (rule plain_not_rooted)
  show hd: "hd (split_slash p) \<noteq> dot"
    using assms nr by (auto simp: plain_def components_def)
  show "pieces p = map Normal (names p)"
    using plain_components [OF assms] nr hd by (simp add: components_def)
qed

lemma components_join:
  assumes "plain rel"
  shows "components (path_join base rel) = components base @ map Normal (names rel)"
proof -
  note pieces = plain_pieces [OF assms] and nr = plain_not_rooted [OF assms]
  consider "base = []" | b where "base = b @ [slash]"
    | "base \<noteq> []" "last base \<noteq> slash"
    by (metis append_butlast_last_id)
  then show ?thesis
  proof cases
    case 1
    with nr show ?thesis
      by (simp add: path_join_def plain_components assms components_Nil)
  next
    case 2
    then have join: "path_join base rel = b @ slash # rel" using nr by (simp add: path_join_def)
    show ?thesis
      unfolding join using components_append_slash [of b rel] components_append_slash [of b "[]"] 2
        pieces(1) by (cases "b = []") (simp_all add: components_rooted pieces_Nil pieces_slash)
  next
    case 3
    then have "path_join base rel = base @ slash # rel" using nr by (simp add: path_join_def)
    with 3 pieces(1) show ?thesis by (simp add: components_append_slash)
  qed
qed

lemma resolve_join: "plain rel \<Longrightarrow> resolve (path_join base rel) = resolve base @ names rel"
  by (simp add: resolve_def components_join)

text \<open>A non-empty unrooted path of plain names has at least one name.\<close>

lemma split_slash_first: "\<not> starts_with slash p \<Longrightarrow> p \<noteq> [] \<Longrightarrow> hd (split_slash p) \<noteq> []"
  by (cases p) (auto simp: starts_with_def)

lemma names_not_Nil [simp]:
  assumes "plain p"
  shows "names p \<noteq> []"
proof -
  have first: "hd (split_slash p) \<noteq> []" "hd (split_slash p) \<noteq> dot"
    using assms plain_pieces(2) [OF assms] plain_not_rooted [OF assms]
    by (auto simp: plain_def split_slash_first)
  then have "piece_component (hd (split_slash p)) \<noteq> []" by (simp add: piece_component_def)
  then have "pieces p \<noteq> []"
    unfolding pieces_def by (cases "split_slash p") (auto simp: neq_Nil_conv)
  with plain_pieces(1) [OF assms] show ?thesis by auto
qed

text \<open>Appending a suffix such as \<open>.partial\<close> to a plain path.\<close>

definition is_suffix :: "bytes \<Rightarrow> bool" where
  "is_suffix t \<longleftrightarrow> slash \<notin> set t \<and> 3 \<le> length t"

lemma piece_component_suffix:
  "is_suffix t \<Longrightarrow> piece_component (p @ t) = [Normal (p @ t)]"
  by (auto simp: piece_component_def is_suffix_def dot_def dotdot_def dest: arg_cong [of _ _ length])

lemma components_suffix:
  assumes "plain p" and "is_suffix t"
  shows "components (p @ t) =
    concat (map piece_component (butlast (split_slash p))) @ [Normal (last (split_slash p) @ t)]"
proof -
  have t: "slash \<notin> set t" "t \<noteq> []" using assms(2) by (auto simp: is_suffix_def)
  have p: "p \<noteq> []" using assms(1) by (simp add: plain_def)
  have sp: "split_slash (p @ t) = butlast (split_slash p) @ [last (split_slash p) @ t]"
    using t(1) by (rule split_slash_append_word)
  have "hd (split_slash (p @ t)) \<noteq> dot"
  proof (cases "butlast (split_slash p)")
    case Nil
    then show ?thesis
      using assms(2) by (auto simp: sp is_suffix_def dot_def dest: arg_cong [of _ _ length])
  next
    case (Cons q qs)
    then have "hd (butlast (split_slash p)) = hd (split_slash p)"
      by (metis append_butlast_last_id hd_append list.distinct(1) split_slash_not_Nil)
    with Cons plain_pieces(2) [OF assms(1)] show ?thesis by (simp add: sp)
  qed
  with p show ?thesis
    using plain_not_rooted [OF assms(1)]
    by (simp add: components_def pieces_def starts_with_append sp piece_component_suffix [OF assms(2)])
qed

lemma concat_butlast_pieces:
  assumes "plain p"
  obtains ns where "concat (map piece_component (butlast (split_slash p))) = map Normal ns"
    and "prefix ns (names p)"
proof -
  let ?c = "\<lambda>ps. concat (map piece_component ps)"
  have "map Normal (names p) = ?c (butlast (split_slash p)) @ piece_component (last (split_slash p))"
    unfolding plain_pieces(1) [OF assms, symmetric] pieces_def
    by (subst append_butlast_last_id [OF split_slash_not_Nil, symmetric]) (simp del: append_butlast_last_id)
  then obtain ns where "?c (butlast (split_slash p)) = map Normal ns" "prefix ns (names p)"
    by (auto simp: append_eq_map_conv map_eq_append_conv prefix_def)
  then show ?thesis by (rule that)
qed

lemma plain_suffix:
  assumes "plain p" and "is_suffix t"
  shows "plain (p @ t)"
proof -
  from assms(1) obtain ns where "concat (map piece_component (butlast (split_slash p))) = map Normal ns"
    by (rule concat_butlast_pieces)
  with assms show ?thesis by (simp add: plain_def components_suffix list_all_iff)
qed

text \<open>The names of a plain path, with the last piece apart: what a suffix is appended to.\<close>

lemma names_split:
  assumes "plain p"
  obtains ns q where "names p = ns \<or> names p = ns @ [q]"
    and "\<And>t. is_suffix t \<Longrightarrow> names (p @ t) = ns @ [q @ t]"
proof -
  let ?c = "concat (map piece_component (butlast (split_slash p)))"
  let ?q = "last (split_slash p)"
  have "map Normal (names p) = ?c @ piece_component ?q"
    unfolding plain_pieces(1) [OF assms, symmetric] pieces_def
    by (subst append_butlast_last_id [OF split_slash_not_Nil, symmetric]) (simp del: append_butlast_last_id)
  then obtain ns ms where ns: "?c = map Normal ns" "piece_component ?q = map Normal ms" "names p = ns @ ms"
    by (auto simp: append_eq_map_conv map_eq_append_conv)
  have "ms = [] \<or> ms = [?q]" using ns(2) by (auto simp: piece_component_def split: if_splits)
  moreover have "names (p @ t) = ns @ [?q @ t]" if "is_suffix t" for t
    using components_suffix [OF assms that] ns(1) by (simp add: names_def comp_def)
  ultimately show ?thesis using ns(3) that [of ns ?q] by auto
qed

lemma names_suffix_neq:
  assumes "plain p" and "is_suffix t"
  shows "names (p @ t) \<noteq> names p"
proof -
  obtain ns q where "names p = ns \<or> names p = ns @ [q]" "names (p @ t) = ns @ [q @ t]"
    using names_split [OF assms(1)] assms(2) by metis
  with assms(2) show ?thesis by (auto simp: is_suffix_def)
qed

lemma names_suffixes_neq:
  assumes "plain p" and "is_suffix t" "is_suffix u" "t \<noteq> u"
  shows "names (p @ t) \<noteq> names (p @ u)"
proof -
  obtain ns q where "names (p @ t) = ns @ [q @ t]" "names (p @ u) = ns @ [q @ u]"
    using names_split [OF assms(1)] assms(2,3) by metis
  with assms(4) show ?thesis by simp
qed

text \<open>A path whose last piece is a name: what \<open>strip_prefix\<close> yields for a file of a directory.\<close>

definition file_form :: "bytes \<Rightarrow> bool" where
  "file_form p \<longleftrightarrow> plain p \<and> \<not> dir_form p"

lemma names_suffix:
  assumes "file_form p" and "is_suffix t"
  shows "names (p @ t) = butlast (names p) @ [last (names p) @ t]"
proof -
  have p: "plain p" and d: "\<not> dir_form p" using assms(1) by (auto simp: file_form_def)
  let ?c = "concat (map piece_component (butlast (split_slash p)))"
  have "piece_component (last (split_slash p)) = [Normal (last (split_slash p))]"
    using d by (simp add: piece_component_def dir_form_def)
  then have "map Normal (names p) = ?c @ [Normal (last (split_slash p))]"
    unfolding plain_pieces(1) [OF p, symmetric] pieces_def
    by (subst append_butlast_last_id [OF split_slash_not_Nil, symmetric]) (simp del: append_butlast_last_id)
  then obtain ns where ns: "?c = map Normal ns" "names p = ns @ [last (split_slash p)]"
    by (auto simp: append_eq_map_conv map_eq_append_conv)
  then show ?thesis
    using components_suffix [OF p assms(2)] by (simp add: names_def comp_def)
qed

text \<open>
  The partial and failed files stand beside, or inside, the final path, never at it: the parent
  of \<open>base/p.suffix\<close> is \<open>base\<close> or a directory below it.
\<close>

lemma parent_dir_suffix:
  assumes "plain p" and "is_suffix t"
  shows "parent_dir (path_join base (p @ t)) = Some (resolve base @ butlast (names (p @ t)))"
proof -
  have pt: "plain (p @ t)" using assms by (rule plain_suffix)
  then obtain ns n where ns: "names (p @ t) = ns @ [n]"
    by (metis names_not_Nil rev_exhaust)
  then show ?thesis
    using pt by (simp add: parent_dir_def components_join Let_def butlast_append resolve_def)
qed

end
