(* ===== verification/Proto.thy ===== *)
theory Proto
  imports Rnum Rpath
begin

text \<open>
  \<open>diode_common/src/proto.rs\<close> and \<open>hash.rs\<close>: the wire constants, the packet encoder, the
  parity field and the path check shared by sender and receiver. The MD5 digest comes from the
  \<open>md-5\<close> crate and is a parameter of every definition that hashes; where a fact needs it, the
  hypothesis \<open>md5_width\<close> states that a digest has 16 bytes.
\<close>

section \<open>Constants\<close>

definition CHUNK_SIZE :: nat where "CHUNK_SIZE = 940"
definition SHARD_SIZE :: nat where "SHARD_SIZE = 960"
definition HEADER_SIZE :: nat where "HEADER_SIZE = 1 + 10 + 32 + 32"
definition BATCH_DATA_CHUNKS :: nat where "BATCH_DATA_CHUNKS = 1000"
definition BATCH_PARITY_CHUNKS :: nat where "BATCH_PARITY_CHUNKS = 100"
definition PKG_TYPE_START :: nat where "PKG_TYPE_START = 0"
definition PKG_TYPE_DATA :: nat where "PKG_TYPE_DATA = 1"
definition PKG_TYPE_END :: nat where "PKG_TYPE_END = 2"
definition PKG_TYPE_PARITY :: nat where "PKG_TYPE_PARITY = 3"
definition PKG_TYPE_UDP :: nat where "PKG_TYPE_UDP = 4"
definition UDP_MAX_FORWARD_BYTES :: nat where "UDP_MAX_FORWARD_BYTES = 4 * 1024 * 1024"

definition EMPTY_HASH :: bytes where
  "EMPTY_HASH = ascii ''00000000000000000000000000000000''"

lemmas pkg_type_defs [const_defs] =
  PKG_TYPE_START_def PKG_TYPE_DATA_def PKG_TYPE_END_def PKG_TYPE_PARITY_def PKG_TYPE_UDP_def

lemmas size_defs [const_defs] =
  CHUNK_SIZE_def SHARD_SIZE_def HEADER_SIZE_def BATCH_DATA_CHUNKS_def BATCH_PARITY_CHUNKS_def

section \<open>Hashing\<close>

definition md5_hex :: "(bytes \<Rightarrow> bytes) \<Rightarrow> bytes \<Rightarrow> bytes" where
  "md5_hex md5 data = concat (map fmt_hex2 (md5 data))"

definition md5_width :: "(bytes \<Rightarrow> bytes) \<Rightarrow> bool" where
  "md5_width md5 \<longleftrightarrow> (\<forall>d. length (md5 d) = 16)"

lemma length_md5_hex: "md5_width md5 \<Longrightarrow> length (md5_hex md5 d) = 32"
  by (simp add: md5_hex_def md5_width_def)

section \<open>Encoding packets\<close>

text \<open>
  The buffer is cleared first, so its old contents play no part. The two length assertions are
  \<open>debug_assert_eq!\<close>, absent from a release build, which is what is modelled.
\<close>

definition encode_packet_into :: "bytes \<Rightarrow> nat \<Rightarrow> nat \<Rightarrow> bytes \<Rightarrow> bytes \<Rightarrow> bytes \<Rightarrow> bytes" where
  "encode_packet_into buf pkg_type count_or_filesize ph dh payload =
     (let buf = [];
          buf = buf @ fmt_dec pkg_type @ fmt_zero_padded 10 count_or_filesize;
          buf = buf @ ph;
          buf = buf @ dh
      in buf @ payload)"

definition encode_packet :: "nat \<Rightarrow> nat \<Rightarrow> bytes \<Rightarrow> bytes \<Rightarrow> bytes \<Rightarrow> bytes" where
  "encode_packet pkg_type count_or_filesize ph dh payload =
     encode_packet_into [] pkg_type count_or_filesize ph dh payload"

definition encode_parity_field :: "nat \<Rightarrow> bytes" where
  "encode_parity_field parity_count = fmt_zero_padded 32 parity_count"

definition decode_parity_field :: "bytes \<Rightarrow> nat option" where
  "decode_parity_field b =
     (case from_utf8 b of None \<Rightarrow> None | Some s \<Rightarrow> parse_uint u64_max s)"

lemma encode_packet_into_eq [simp]:
  "encode_packet_into buf t n ph dh payload = encode_packet t n ph dh payload"
  by (simp add: encode_packet_def encode_packet_into_def Let_def)

lemma encode_packet_eq:
  "encode_packet t n ph dh payload = fmt_dec t @ fmt_zero_padded 10 n @ ph @ dh @ payload"
  unfolding encode_packet_def encode_packet_into_def Let_def by simp

lemma u64_digits: "n \<le> u64_max \<Longrightarrow> n < 10 ^ 32"
proof -
  assume "n \<le> u64_max"
  moreover have "u64_max < 10 ^ 32" by (simp add: u64_max_def)
  ultimately show ?thesis by (rule le_less_trans)
qed

lemma length_encode_parity_field: "n \<le> u64_max \<Longrightarrow> length (encode_parity_field n) = 32"
  unfolding encode_parity_field_def by (rule length_fmt_zero_padded_fits [OF u64_digits]) simp_all

text \<open>The parity field is an instance of the codec interface on all of \<open>u64\<close>.\<close>

interpretation parity_field: codec encode_parity_field decode_parity_field "\<lambda>n. n \<le> u64_max"
  by unfold_locales
    (simp add: encode_parity_field_def decode_parity_field_def from_utf8_def
      fmt_zero_padded_digits decimal.dec_enc)

section \<open>The path check\<close>

fun check_components :: "component list \<Rightarrow> bool" where
  "check_components [] = True"
| "check_components (ParentDir # cs) = False"
| "check_components (CurDir # cs) = False"
| "check_components (RootDir # cs) = False"
| "check_components (Normal n # cs) = check_components cs"
| "check_components (Prefix p # cs) = False"

definition backslash :: byte where
  "backslash = 92"

definition is_safe_rel_path :: "bytes \<Rightarrow> bool" where
  "is_safe_rel_path rel_path =
     (if rel_path = [] then False
      else if starts_with slash rel_path then False
      else if starts_with backslash rel_path then False
      else check_components (components rel_path))"

lemma check_components_iff:
  "check_components cs \<longleftrightarrow> list_all (\<lambda>c. case c of Normal _ \<Rightarrow> True | _ \<Rightarrow> False) cs"
  by (induction cs rule: check_components.induct) simp_all

lemma is_safe_plain: "is_safe_rel_path p \<longleftrightarrow> plain p \<and> \<not> starts_with backslash p"
  using plain_not_rooted [of p]
  by (auto simp: is_safe_rel_path_def plain_def check_components_iff split: if_splits)

end
