(* ===== verification/Sender.thy ===== *)
theory Sender
  imports Proto
begin

text \<open>
  The sender's file path (\<open>diode_send/src/main.rs\<close>, lines 132 to 371): handing a datagram to the
  kernel with back-off, the control, data and parity packets, reading a file in chunks, and
  sending a whole file. The socket's answers come from a schedule; what the code does that can go
  on for ever (retrying while the kernel reports no buffer space) is an option, \<open>None\<close> for a call
  that never returns. The Reed-Solomon encoder of the \<open>reed-solomon-simd\<close> crate is a parameter.
\<close>

section \<open>Handing a datagram to the kernel\<close>

text \<open>\<open>Enobufs\<close> stands for \<open>ENOBUFS\<close> and \<open>WouldBlock\<close>, which the code treats alike.\<close>

datatype send_outcome = Sent | Enobufs | SendError

text \<open>
  \<open>outcomes n\<close> is the answer to the \<open>n\<close>-th call of \<open>send_to\<close>; \<open>sleeps\<close> are the back-off
  pauses in milliseconds, \<open>pacer_waits\<close> the calls of the pacer, \<open>removed\<close> the source files
  deleted.
\<close>

record tx =
  wire :: "bytes list"
  outcomes :: "nat \<Rightarrow> send_outcome"
  attempts :: nat
  sleeps :: "nat list"
  pacer_waits :: nat
  removed :: "bytes list"

definition CONTROL_RESEND :: nat where "CONTROL_RESEND = 3"
definition ENOBUFS_INITIAL_BACKOFF :: nat where "ENOBUFS_INITIAL_BACKOFF = 1"

lemmas [const_defs] = CONTROL_RESEND_def

partial_function (option) send_loop ::
  "nat \<Rightarrow> bytes \<Rightarrow> nat \<Rightarrow> tx \<Rightarrow> (bool \<times> tx) option" where
  "send_loop max_backoff packet backoff t =
     (let answer = outcomes t (attempts t); t = t\<lparr>attempts := attempts t + 1\<rparr> in
      if answer = Sent
      then Some (True, t\<lparr>wire := wire t @ [packet], pacer_waits := pacer_waits t + 1\<rparr>)
      else if answer = SendError then Some (False, t)
      else send_loop max_backoff packet (min (backoff * 2) max_backoff)
             (t\<lparr>sleeps := sleeps t @ [backoff]\<rparr>))"

definition send_to_blocking :: "nat \<Rightarrow> bytes \<Rightarrow> tx \<Rightarrow> (bool \<times> tx) option" where
  "send_to_blocking max_backoff packet t = send_loop max_backoff packet ENOBUFS_INITIAL_BACKOFF t"

text \<open>The \<open>?\<close> operator: go on only after a call that returned without error.\<close>

definition and_then :: "(bool \<times> tx) option \<Rightarrow> (tx \<Rightarrow> (bool \<times> tx) option) \<Rightarrow> (bool \<times> tx) option" where
  "and_then r k =
     (case r of None \<Rightarrow> None
      | Some (ok, t) \<Rightarrow> if ok then k t else Some (False, t))"

fun send_times :: "nat \<Rightarrow> nat \<Rightarrow> bytes \<Rightarrow> tx \<Rightarrow> (bool \<times> tx) option" where
  "send_times max_backoff 0 packet t = Some (True, t)"
| "send_times max_backoff (Suc n) packet t =
     and_then (send_to_blocking max_backoff packet t) (send_times max_backoff n packet)"

definition send_with_retry :: "nat \<Rightarrow> bytes \<Rightarrow> nat \<Rightarrow> tx \<Rightarrow> (bool \<times> tx) option" where
  "send_with_retry max_backoff packet n t = send_times max_backoff (max n 1) packet t"

section \<open>The packets of a file\<close>

definition send_start_packet ::
  "nat \<Rightarrow> nat \<Rightarrow> bytes \<Rightarrow> bytes \<Rightarrow> nat \<Rightarrow> tx \<Rightarrow> (bool \<times> tx) option" where
  "send_start_packet max_backoff filesize rel_path rel_path_hash parity_count t =
     send_with_retry max_backoff
       (encode_packet PKG_TYPE_START filesize rel_path_hash (encode_parity_field parity_count) rel_path)
       CONTROL_RESEND t"

definition send_end_packet ::
  "nat \<Rightarrow> (bytes \<Rightarrow> bool) \<Rightarrow> bytes \<Rightarrow> bytes \<Rightarrow> nat \<Rightarrow> tx \<Rightarrow> (bool \<times> tx) option" where
  "send_end_packet max_backoff remove_ok full_path rel_path count t =
     and_then
       (send_with_retry max_backoff
          (encode_packet PKG_TYPE_END count EMPTY_HASH EMPTY_HASH rel_path) CONTROL_RESEND t)
       (\<lambda>t. if remove_ok full_path then Some (True, t\<lparr>removed := removed t @ [full_path]\<rparr>)
            else Some (False, t))"

definition send_data_packet ::
  "(bytes \<Rightarrow> bytes) \<Rightarrow> nat \<Rightarrow> bytes \<Rightarrow> bytes \<Rightarrow> nat \<Rightarrow> tx \<Rightarrow> (bool \<times> tx) option" where
  "send_data_packet md5 max_backoff rel_path_hash chunk count t =
     send_to_blocking max_backoff
       (encode_packet PKG_TYPE_DATA count rel_path_hash (md5_hex md5 chunk) chunk) t"

text \<open>The encoder calls; \<open>None\<close> is an error of the crate.\<close>

record 'e fec_encoder =
  enc_new :: "nat \<Rightarrow> nat \<Rightarrow> nat \<Rightarrow> 'e option"
  enc_add :: "'e \<Rightarrow> bytes \<Rightarrow> 'e option"
  enc_encode :: "'e \<Rightarrow> bytes list option"

text \<open>
  A chunk copied to the front of a zeroed shard buffer. The copy would panic on a chunk longer than
  a shard; every chunk sent has at most \<open>CHUNK_SIZE\<close> bytes.
\<close>

definition shard_of :: "bytes \<Rightarrow> bytes" where
  "shard_of d = d @ replicate (SHARD_SIZE - length d) 0"

fun add_shards :: "'e fec_encoder \<Rightarrow> bytes list \<Rightarrow> 'e \<Rightarrow> 'e option" where
  "add_shards enc [] e = Some e"
| "add_shards enc (d # ds) e =
     (case enc_add enc e (shard_of d) of None \<Rightarrow> None | Some e \<Rightarrow> add_shards enc ds e)"

definition parity_shards :: "'e fec_encoder \<Rightarrow> bytes list \<Rightarrow> nat \<Rightarrow> bytes list option" where
  "parity_shards enc payloads parity_count =
     (case enc_new enc (length payloads) parity_count SHARD_SIZE of
        None \<Rightarrow> None
      | Some e \<Rightarrow>
          (case add_shards enc payloads e of None \<Rightarrow> None | Some e \<Rightarrow> enc_encode enc e))"

text \<open>A parity packet that cannot be sent is logged and skipped.\<close>

fun send_parity_loop ::
  "(bytes \<Rightarrow> bytes) \<Rightarrow> nat \<Rightarrow> bytes \<Rightarrow> nat \<Rightarrow> nat \<Rightarrow> bytes list \<Rightarrow> tx \<Rightarrow> tx option" where
  "send_parity_loop md5 max_backoff rel_path_hash base idx [] t = Some t"
| "send_parity_loop md5 max_backoff rel_path_hash base idx (p # ps) t =
     (case send_to_blocking max_backoff
             (encode_packet PKG_TYPE_PARITY (add64 base idx) rel_path_hash (md5_hex md5 p) p) t of
        None \<Rightarrow> None
      | Some (_, t) \<Rightarrow> send_parity_loop md5 max_backoff rel_path_hash base (idx + 1) ps t)"

definition send_parity_packets ::
  "(bytes \<Rightarrow> bytes) \<Rightarrow> 'e fec_encoder \<Rightarrow> nat \<Rightarrow> bytes \<Rightarrow> bytes list \<Rightarrow> nat \<Rightarrow> nat \<Rightarrow> tx
     \<Rightarrow> (bool \<times> tx) option" where
  "send_parity_packets md5 enc max_backoff rel_path_hash data_payloads parity_count batch_idx t =
     (if data_payloads = [] \<or> parity_count = 0 then Some (True, t)
      else case parity_shards enc data_payloads parity_count of
             None \<Rightarrow> Some (False, t)
           | Some ps \<Rightarrow>
               (case send_parity_loop md5 max_backoff rel_path_hash
                       (mul64 batch_idx parity_count) 0 ps t of
                  None \<Rightarrow> None
                | Some t \<Rightarrow> Some (True, t)))"

section \<open>Reading a file\<close>

text \<open>
  The file being read: the bytes still to come, and what the next \<open>read\<close> calls do: return at
  most \<open>n + 1\<close> bytes, be interrupted, or fail. With the schedule used up, \<open>read\<close> fills the buffer
  as far as there are bytes. Only the end of the file reads as no bytes.
\<close>

datatype read_event = Short nat | Interrupted | ReadError

record reader =
  rd_rest :: bytes
  rd_sched :: "read_event list"

datatype read_result = Got bytes | WasInterrupted | ReadFailed

definition read :: "reader \<Rightarrow> nat \<Rightarrow> read_result \<times> reader" where
  "read r m =
     (let get = (\<lambda>n es. (Got (take n (rd_rest r)), \<lparr>rd_rest = drop n (rd_rest r), rd_sched = es\<rparr>))
      in case rd_sched r of
           [] \<Rightarrow> get m []
         | Short n # es \<Rightarrow> get (min m (n + 1)) es
         | Interrupted # es \<Rightarrow> (WasInterrupted, r\<lparr>rd_sched := es\<rparr>)
         | ReadError # es \<Rightarrow> (ReadFailed, r\<lparr>rd_sched := es\<rparr>))"

lemma read_Got:
  assumes "read r m = (Got d, r')"
  shows "d @ rd_rest r' = rd_rest r" "length d \<le> m" "d = [] \<Longrightarrow> 0 < m \<Longrightarrow> rd_rest r = []"
    "length (rd_sched r') \<le> length (rd_sched r)"
  using assms by (auto simp: read_def Let_def split: list.splits read_event.splits)

lemma read_WasInterrupted:
  assumes "read r m = (WasInterrupted, r')"
  shows "rd_rest r' = rd_rest r" "length (rd_sched r') < length (rd_sched r)"
  using assms by (auto simp: read_def Let_def split: list.splits read_event.splits)

function read_chunk :: "reader \<Rightarrow> nat \<Rightarrow> bytes \<Rightarrow> bytes option \<times> reader" where
  "read_chunk r buf_len acc =
     (if length acc < buf_len
      then (case read r (buf_len - length acc) of
              (Got d, r') \<Rightarrow>
                if d = [] then (Some acc, r') else read_chunk r' buf_len (acc @ d)
            | (WasInterrupted, r') \<Rightarrow> read_chunk r' buf_len acc
            | (ReadFailed, r') \<Rightarrow> (None, r'))
      else (Some acc, r))"
  by pat_completeness auto
termination
proof (relation "measure (\<lambda>(r, n, acc). length (rd_sched r) + (n - length acc))", goal_cases)
  case (2 r buf_len acc x r' d)
  then have "read r (buf_len - length acc) = (Got d, r')" by simp
  with read_Got(4) [OF this] 2 show ?case by (cases d) auto
next
  case (3 r buf_len acc x r')
  then have "read r (buf_len - length acc) = (WasInterrupted, r')" by simp
  from read_WasInterrupted(2) [OF this] show ?case by simp
qed simp

declare read_chunk.simps [simp del]

lemma read_chunk_conserves:
  "read_chunk r n acc = (Some d, r') \<Longrightarrow> d @ rd_rest r' = acc @ rd_rest r"
proof (induction r n acc rule: read_chunk.induct)
  case (1 r n acc)
  note unfold = read_chunk.simps [of r n acc]
  show ?case
  proof (cases "length acc < n")
    case True
    obtain x r1 where rd: "read r (n - length acc) = (x, r1)" by force
    show ?thesis
    proof (cases x)
      case (Got e)
      note got = rd [unfolded Got]
      show ?thesis
      proof (cases "e = []")
        case True
        with \<open>length acc < n\<close> got "1.prems" read_Got(1) [OF got] show ?thesis by (simp add: unfold)
      next
        case False
        with \<open>length acc < n\<close> got "1.prems" have "read_chunk r1 n (acc @ e) = (Some d, r')"
          by (simp add: unfold)
        from "1.IH"(1) [OF True rd [symmetric] Got False this] read_Got(1) [OF got]
        show ?thesis by simp
      qed
    next
      case WasInterrupted
      with True rd "1.prems" have "read_chunk r1 n acc = (Some d, r')" by (simp add: unfold)
      from "1.IH"(2) [OF True rd [symmetric] WasInterrupted this]
        read_WasInterrupted(1) [OF rd [unfolded WasInterrupted]]
      show ?thesis by simp
    next
      case ReadFailed
      with True rd "1.prems" show ?thesis by (simp add: unfold)
    qed
  next
    case False
    with "1.prems" show ?thesis by (simp add: unfold)
  qed
qed

lemma read_chunk_shorter:
  assumes "read_chunk r n [] = (Some d, r')" and "d \<noteq> []"
  shows "length (rd_rest r') < length (rd_rest r)"
  using arg_cong [OF read_chunk_conserves [OF assms(1)], of length] assms(2) by (cases d) auto

section \<open>Sending a file\<close>

text \<open>
  The loop of \<open>send_file_chunks\<close>: \<open>None\<close> if it never returns, otherwise either an error or the
  counters and the payloads of the last, partial batch when the file has been read.
\<close>

record send_progress =
  sp_count :: nat
  sp_batch :: nat
  sp_payloads :: "bytes list"

function send_chunks_loop ::
  "(bytes \<Rightarrow> bytes) \<Rightarrow> 'e fec_encoder \<Rightarrow> nat \<Rightarrow> bytes \<Rightarrow> reader \<Rightarrow> send_progress \<Rightarrow> tx
     \<Rightarrow> (send_progress option \<times> tx) option" where
  "send_chunks_loop md5 enc max_backoff hash r s t =
     (case read_chunk r CHUNK_SIZE [] of
        (None, _) \<Rightarrow> Some (None, t)
      | (Some chunk, r') \<Rightarrow>
          if chunk = [] then Some (Some s, t)
          else (case send_data_packet md5 max_backoff hash chunk (sp_count s) t of
            None \<Rightarrow> None
          | Some (ok, t) \<Rightarrow>
              if \<not> ok then Some (None, t)
              else
                let s = s\<lparr>sp_payloads := sp_payloads s @ [chunk], sp_count := sp_count s + 1\<rparr> in
                if length (sp_payloads s) = BATCH_DATA_CHUNKS
                then (case send_parity_packets md5 enc max_backoff hash (sp_payloads s)
                             BATCH_PARITY_CHUNKS (sp_batch s) t of
                        None \<Rightarrow> None
                      | Some (_, t) \<Rightarrow>
                          send_chunks_loop md5 enc max_backoff hash r'
                            (s\<lparr>sp_payloads := [], sp_batch := sp_batch s + 1\<rparr>) t)
                else send_chunks_loop md5 enc max_backoff hash r' s t))"
  by pat_completeness auto
termination
proof (relation "measure (\<lambda>(md5, enc, b, hash, r, s, t). length (rd_rest r))", goal_cases)
  case (2 md5 enc b hash r s t x r' chunk)
  then show ?case using read_chunk_shorter [of r CHUNK_SIZE chunk r'] by simp
next
  case (3 md5 enc b hash r s t x r' chunk)
  then show ?case using read_chunk_shorter [of r CHUNK_SIZE chunk r'] by simp
qed simp

declare send_chunks_loop.simps [simp del]

text \<open>
  What the sender finds on disk: the length \<open>fs::metadata\<close> reports and the opened file, \<open>None\<close>
  where the call fails, and whether the source file can be removed afterwards.
\<close>

record source =
  src_len :: "nat option"
  src_open :: "reader option"
  src_remove :: bool

definition send_file_chunks ::
  "(bytes \<Rightarrow> bytes) \<Rightarrow> 'e fec_encoder \<Rightarrow> nat \<Rightarrow> source \<Rightarrow> bytes \<Rightarrow> bytes \<Rightarrow> tx \<Rightarrow> (bool \<times> tx) option" where
  "send_file_chunks md5 enc max_backoff src full_path rel_path t =
     (let rel_path_hash = md5_hex md5 rel_path in
      case src_len src of
        None \<Rightarrow> Some (False, t)
      | Some filesize \<Rightarrow>
          and_then (send_start_packet max_backoff filesize rel_path rel_path_hash BATCH_PARITY_CHUNKS t)
            (\<lambda>t. case src_open src of
                   None \<Rightarrow> Some (False, t)
                 | Some r \<Rightarrow>
                     (case send_chunks_loop md5 enc max_backoff rel_path_hash r
                             \<lparr>sp_count = 0, sp_batch = 0, sp_payloads = []\<rparr> t of
                        None \<Rightarrow> None
                      | Some (None, t) \<Rightarrow> Some (False, t)
                      | Some (Some s, t) \<Rightarrow>
                          (case (if sp_payloads s \<noteq> []
                                 then send_parity_packets md5 enc max_backoff rel_path_hash
                                        (sp_payloads s) BATCH_PARITY_CHUNKS (sp_batch s) t
                                 else Some (True, t)) of
                             None \<Rightarrow> None
                           | Some (_, t) \<Rightarrow>
                               send_end_packet max_backoff (\<lambda>_. src_remove src) full_path rel_path
                                 (sp_count s) t))))"

end
