(* ===== verification/Chunks.thy ===== *)
theory Chunks
  imports Proto
begin

text \<open>
  The arithmetic of chunks both programs share: where a chunk starts, how long it is, how many
  there are, and the chunks of a file's contents. The length the receiver expects of its last chunk
  is the length the sender gives it.
\<close>

section \<open>Positions\<close>

text \<open>Where chunk \<open>k\<close> of a file starts, the end of the file for every chunk past its last.\<close>

definition chunk_pos :: "nat \<Rightarrow> nat \<Rightarrow> nat" where
  "chunk_pos fsize k = min (k * CHUNK_SIZE) fsize"

definition chunk_len :: "nat \<Rightarrow> nat \<Rightarrow> nat" where
  "chunk_len fsize k = chunk_pos fsize (Suc k) - chunk_pos fsize k"

definition total_chunks :: "nat \<Rightarrow> nat" where
  "total_chunks fsize = div_ceil fsize CHUNK_SIZE"

definition last_chunk_len :: "nat \<Rightarrow> nat" where
  "last_chunk_len fsize = (if fsize mod CHUNK_SIZE = 0 then CHUNK_SIZE else fsize mod CHUNK_SIZE)"

lemma chunk_size_pos [simp]: "0 < CHUNK_SIZE"
  by (simp add: CHUNK_SIZE_def)

lemma batch_data_pos [simp]: "0 < BATCH_DATA_CHUNKS"
  by (simp add: BATCH_DATA_CHUNKS_def)

lemma less_total_chunks: "k < total_chunks fsize \<longleftrightarrow> k * CHUNK_SIZE < fsize"
  by (simp add: total_chunks_def less_div_ceil_iff)

lemma chunk_pos_mono: "chunk_pos fsize k \<le> chunk_pos fsize (Suc k)"
  by (simp add: chunk_pos_def)

lemma chunk_pos_Suc: "chunk_pos fsize (Suc k) = chunk_pos fsize k + chunk_len fsize k"
  using chunk_pos_mono [of fsize k] by (simp add: chunk_len_def)

lemma chunk_pos_le: "chunk_pos fsize k \<le> fsize"
  by (simp add: chunk_pos_def)

lemma chunk_len_le: "chunk_len fsize k \<le> CHUNK_SIZE"
  by (auto simp: chunk_len_def chunk_pos_def min_def)

lemma chunk_len_pos: "k < total_chunks fsize \<Longrightarrow> 0 < chunk_len fsize k"
  by (simp add: less_total_chunks chunk_len_def chunk_pos_def min_def)

lemma chunk_pos_start: "k \<le> total_chunks fsize \<Longrightarrow> k * CHUNK_SIZE - chunk_pos fsize k < CHUNK_SIZE"
  using div_ceil_le_iff [of CHUNK_SIZE fsize k] less_total_chunks [of "k - 1" fsize]
  by (cases k) (auto simp: chunk_pos_def total_chunks_def min_def)

lemma chunk_pos_less: "k < total_chunks fsize \<Longrightarrow> chunk_pos fsize k = k * CHUNK_SIZE"
  by (simp add: less_total_chunks chunk_pos_def)

lemma chunk_pos_end: "total_chunks fsize \<le> k \<Longrightarrow> chunk_pos fsize k = fsize"
  using div_ceil_le_iff [of CHUNK_SIZE fsize k] by (simp add: chunk_pos_def total_chunks_def)

text \<open>The length the code expects of a chunk is its length in the file.\<close>

lemma expected_len_eq:
  assumes "k < total_chunks fsize"
  shows "(if k + 1 = total_chunks fsize then last_chunk_len fsize else CHUNK_SIZE)
    = chunk_len fsize k"
proof (cases "k + 1 = total_chunks fsize")
  case True
  have lo: "k * CHUNK_SIZE < fsize" using assms by (simp add: less_total_chunks)
  have hi: "fsize \<le> Suc k * CHUNK_SIZE"
    using True div_ceil_le_iff [of CHUNK_SIZE fsize "Suc k"] by (simp add: total_chunks_def)
  have "last_chunk_len fsize = fsize - k * CHUNK_SIZE"
  proof (cases "fsize = Suc k * CHUNK_SIZE")
    case True
    then show ?thesis by (simp add: last_chunk_len_def)
  next
    case False
    then have "fsize - k * CHUNK_SIZE < CHUNK_SIZE" "0 < fsize - k * CHUNK_SIZE"
      using lo hi by auto
    moreover have "fsize mod CHUNK_SIZE = (fsize - k * CHUNK_SIZE) mod CHUNK_SIZE"
      using lo by (metis le_add_diff_inverse2 less_imp_le mod_mult_self1)
    ultimately show ?thesis by (simp add: last_chunk_len_def)
  qed
  with True lo hi show ?thesis by (simp add: chunk_len_def chunk_pos_def)
next
  case False
  with assms have "Suc k < total_chunks fsize" by simp
  with False assms show ?thesis by (simp add: chunk_len_def chunk_pos_less)
qed

section \<open>Chunks of a file\<close>

definition file_chunk :: "bytes \<Rightarrow> nat \<Rightarrow> bytes" where
  "file_chunk F k = take CHUNK_SIZE (drop (k * CHUNK_SIZE) F)"

lemma length_file_chunk: "length (file_chunk F k) = chunk_len (length F) k"
  by (auto simp: file_chunk_def chunk_len_def chunk_pos_def min_def)

lemma file_chunk_pos: "k < total_chunks (length F) \<Longrightarrow> file_chunk F k \<noteq> []"
  using chunk_len_pos [of k "length F"] length_file_chunk [of F k] by auto

lemma drop_chunks_Nil: "drop (k * CHUNK_SIZE) F = [] \<longleftrightarrow> total_chunks (length F) \<le> k"
  using less_total_chunks [of k "length F"] by auto

text \<open>The file up to a position, with zeros after it: the output while it is being written.\<close>

definition written :: "bytes \<Rightarrow> nat \<Rightarrow> bytes" where
  "written F p = take p F @ replicate (length F - p) 0"

lemma length_written [simp]: "length (written F p) = length F"
  by (simp add: written_def)

lemma written_0: "written F 0 = replicate (length F) 0"
  by (simp add: written_def)

lemma written_all: "length F \<le> p \<Longrightarrow> written F p = F"
  by (simp add: written_def)

definition num_batches :: "nat \<Rightarrow> nat" where
  "num_batches n = div_ceil (total_chunks n) BATCH_DATA_CHUNKS"

text \<open>The chunks of batch \<open>b\<close> of a file of \<open>n\<close> bytes.\<close>

definition batch_first :: "nat \<Rightarrow> nat" where
  "batch_first b = b * BATCH_DATA_CHUNKS"

definition batch_end :: "nat \<Rightarrow> nat \<Rightarrow> nat" where
  "batch_end n b = min (batch_first (Suc b)) (total_chunks n)"

lemma batch_less: "b < num_batches n \<longleftrightarrow> batch_first b < total_chunks n"
  by (simp add: num_batches_def batch_first_def less_div_ceil_iff)

lemma batch_for_iff:
  "k < total_chunks n \<Longrightarrow> k div BATCH_DATA_CHUNKS = b \<longleftrightarrow> k \<in> {batch_first b..<batch_end n b}"
  by (auto simp: batch_first_def batch_end_def BATCH_DATA_CHUNKS_def)

end
