(* ===== verification/Sender_Wire.thy ===== *)
theory Sender_Wire
  imports Sender Chunks
begin

text \<open>
  What the sender puts on the wire: the exact sequence of datagrams for a file, and that sending
  produces it whatever short reads, interruptions and full kernel buffers occur on the way, as long
  as the kernel eventually takes each datagram.
\<close>

section \<open>The kernel takes every datagram in the end\<close>

definition accepts :: "(nat \<Rightarrow> send_outcome) \<Rightarrow> bool" where
  "accepts oc \<longleftrightarrow> (\<forall>n. oc n \<noteq> SendError) \<and> (\<forall>n. \<exists>m \<ge> n. oc m = Sent)"

text \<open>A call that returned without error, and emitted exactly these datagrams.\<close>

definition emits :: "tx \<Rightarrow> bytes list \<Rightarrow> tx \<Rightarrow> bool" where
  "emits t ps t' \<longleftrightarrow> wire t' = wire t @ ps \<and> outcomes t' = outcomes t \<and> removed t' = removed t"

lemma emits_refl [simp]: "emits t [] t"
  by (simp add: emits_def)

lemma emits_trans: "emits t ps u \<Longrightarrow> emits u qs v \<Longrightarrow> emits t (ps @ qs) v"
  by (simp add: emits_def)

lemma emits_accepts: "emits t ps t' \<Longrightarrow> accepts (outcomes t) \<Longrightarrow> accepts (outcomes t')"
  by (simp add: emits_def)

lemma send_loop_emits:
  assumes "\<forall>n. outcomes t n \<noteq> SendError" and "attempts t \<le> m" and "outcomes t m = Sent"
  shows "\<exists>t'. send_loop mb p b t = Some (True, t') \<and> emits t [p] t'"
  using assms
proof (induction "m - attempts t" arbitrary: b t)
  case 0
  then have "m = attempts t" by simp
  with 0 show ?case by (subst send_loop.simps) (simp add: Let_def emits_def)
next
  case (Suc d)
  show ?case
  proof (cases "outcomes t (attempts t)")
    case Sent
    then show ?thesis by (subst send_loop.simps) (simp add: Let_def emits_def)
  next
    case Enobufs
    let ?t = "t\<lparr>attempts := attempts t + 1, sleeps := sleeps t @ [b]\<rparr>"
    have "\<exists>t'. send_loop mb p (min (b * 2) mb) ?t = Some (True, t') \<and> emits ?t [p] t'"
      using Suc by (intro Suc(1)) auto
    with Enobufs show ?thesis
      by (subst send_loop.simps) (auto simp: Let_def emits_def)
  next
    case SendError
    with Suc show ?thesis by blast
  qed
qed

lemma send_to_blocking_emits:
  assumes "accepts (outcomes t)"
  obtains t' where "send_to_blocking mb p t = Some (True, t')" and "emits t [p] t'"
proof -
  obtain m where "attempts t \<le> m" "outcomes t m = Sent" using assms by (auto simp: accepts_def)
  with assms send_loop_emits [of t m mb p ENOBUFS_INITIAL_BACKOFF] that show ?thesis
    by (auto simp: accepts_def send_to_blocking_def)
qed

lemma send_times_emits:
  assumes "accepts (outcomes t)"
  shows "\<exists>t'. send_times mb n p t = Some (True, t') \<and> emits t (replicate n p) t'"
  using assms
proof (induction n arbitrary: t)
  case (Suc n)
  obtain u where u: "send_to_blocking mb p t = Some (True, u)" "emits t [p] u"
    using Suc.prems by (rule send_to_blocking_emits)
  with Suc.IH [of u] Suc.prems emits_accepts obtain v where
    "send_times mb n p u = Some (True, v)" "emits u (replicate n p) v" by blast
  with u emits_trans [of t "[p]" u "replicate n p" v] show ?case by (auto simp: and_then_def)
qed simp

lemma send_with_retry_emits:
  "accepts (outcomes t) \<Longrightarrow>
    \<exists>t'. send_with_retry mb p n t = Some (True, t') \<and> emits t (replicate (max n 1) p) t'"
  unfolding send_with_retry_def by (rule send_times_emits)

section \<open>The datagrams of a file\<close>

definition start_packet :: "(bytes \<Rightarrow> bytes) \<Rightarrow> bytes \<Rightarrow> nat \<Rightarrow> bytes" where
  "start_packet md5 rel n =
     encode_packet PKG_TYPE_START n (md5_hex md5 rel) (encode_parity_field BATCH_PARITY_CHUNKS) rel"

definition end_packet :: "bytes \<Rightarrow> nat \<Rightarrow> bytes" where
  "end_packet rel n = encode_packet PKG_TYPE_END n EMPTY_HASH EMPTY_HASH rel"

definition data_packet :: "(bytes \<Rightarrow> bytes) \<Rightarrow> bytes \<Rightarrow> bytes \<Rightarrow> nat \<Rightarrow> bytes" where
  "data_packet md5 rel F k =
     encode_packet PKG_TYPE_DATA k (md5_hex md5 rel) (md5_hex md5 (file_chunk F k)) (file_chunk F k)"

definition parity_packet :: "(bytes \<Rightarrow> bytes) \<Rightarrow> bytes \<Rightarrow> nat \<Rightarrow> nat \<Rightarrow> bytes \<Rightarrow> bytes" where
  "parity_packet md5 rel b i p =
     encode_packet PKG_TYPE_PARITY (add64 (mul64 b BATCH_PARITY_CHUNKS) i) (md5_hex md5 rel)
       (md5_hex md5 p) p"

definition batch_payloads :: "bytes \<Rightarrow> nat \<Rightarrow> bytes list" where
  "batch_payloads F b = map (file_chunk F) [batch_first b..<batch_end (length F) b]"

definition batch_parity :: "'e fec_encoder \<Rightarrow> bytes \<Rightarrow> nat \<Rightarrow> bytes list" where
  "batch_parity enc F b =
     (case parity_shards enc (batch_payloads F b) BATCH_PARITY_CHUNKS of None \<Rightarrow> [] | Some ps \<Rightarrow> ps)"

definition parity_wire :: "(bytes \<Rightarrow> bytes) \<Rightarrow> 'e fec_encoder \<Rightarrow> bytes \<Rightarrow> bytes \<Rightarrow> nat \<Rightarrow> bytes list" where
  "parity_wire md5 enc rel F b =
     map (\<lambda>(i, p). parity_packet md5 rel b i p) (enumerate 0 (batch_parity enc F b))"

definition batch_wire :: "(bytes \<Rightarrow> bytes) \<Rightarrow> 'e fec_encoder \<Rightarrow> bytes \<Rightarrow> bytes \<Rightarrow> nat \<Rightarrow> bytes list" where
  "batch_wire md5 enc rel F b =
     map (data_packet md5 rel F) [batch_first b..<batch_end (length F) b] @ parity_wire md5 enc rel F b"

definition file_wire :: "(bytes \<Rightarrow> bytes) \<Rightarrow> 'e fec_encoder \<Rightarrow> bytes \<Rightarrow> bytes \<Rightarrow> bytes list" where
  "file_wire md5 enc rel F =
     replicate CONTROL_RESEND (start_packet md5 rel (length F))
     @ concat (map (batch_wire md5 enc rel F) [0..<num_batches (length F)])
     @ replicate CONTROL_RESEND (end_packet rel (total_chunks (length F)))"

section \<open>Parity packets\<close>

lemma send_parity_loop_emits:
  assumes "accepts (outcomes t)"
  shows "\<exists>t'. send_parity_loop md5 mb (md5_hex md5 rel) (mul64 b BATCH_PARITY_CHUNKS) i ps t = Some t'
    \<and> emits t (map (\<lambda>(i, p). parity_packet md5 rel b i p) (enumerate i ps)) t'"
  using assms
proof (induction ps arbitrary: i t)
  case (Cons p ps)
  obtain u where u: "send_to_blocking mb (parity_packet md5 rel b i p) t = Some (True, u)"
    "emits t [parity_packet md5 rel b i p] u"
    using Cons.prems by (rule send_to_blocking_emits)
  with Cons.IH [of u "Suc i"] Cons.prems emits_accepts obtain v where
    "send_parity_loop md5 mb (md5_hex md5 rel) (mul64 b BATCH_PARITY_CHUNKS) (Suc i) ps u = Some v"
    "emits u (map (\<lambda>(i, p). parity_packet md5 rel b i p) (enumerate (Suc i) ps)) v" by blast
  with u emits_trans show ?case by (fastforce simp: parity_packet_def [symmetric])
qed simp

lemma send_parity_packets_emits:
  assumes "accepts (outcomes t)" and "batch_payloads F b \<noteq> []"
  shows "\<exists>ok t'. send_parity_packets md5 enc mb (md5_hex md5 rel) (batch_payloads F b)
      BATCH_PARITY_CHUNKS b t = Some (ok, t') \<and> emits t (parity_wire md5 enc rel F b) t'"
proof (cases "parity_shards enc (batch_payloads F b) BATCH_PARITY_CHUNKS")
  case None
  with assms(2) show ?thesis
    by (intro exI [of _ False]) (simp add: send_parity_packets_def parity_wire_def batch_parity_def BATCH_PARITY_CHUNKS_def)
next
  case (Some ps)
  with send_parity_loop_emits [OF assms(1), of md5 mb rel b 0 ps] assms(2) show ?thesis
    by (auto simp: send_parity_packets_def parity_wire_def batch_parity_def BATCH_PARITY_CHUNKS_def)
qed

section \<open>Reading\<close>

definition reads_ok :: "reader \<Rightarrow> bool" where
  "reads_ok r \<longleftrightarrow> ReadError \<notin> set (rd_sched r)"

lemma read_reads_ok:
  assumes "read r m = (x, r')" and "reads_ok r"
  shows "x \<noteq> ReadFailed" and "reads_ok r'"
  using assms by (auto simp: reads_ok_def read_def Let_def split: list.splits read_event.splits)

text \<open>Short reads and interruptions do not show: a chunk is full unless the file ends.\<close>

lemma read_chunk_full:
  assumes "reads_ok r" and "length acc \<le> n"
  shows "\<exists>r'. read_chunk r n acc = (Some (take n (acc @ rd_rest r)), r')
    \<and> rd_rest r' = drop (n - length acc) (rd_rest r) \<and> reads_ok r'"
  using assms
proof (induction r n acc rule: read_chunk.induct)
  case (1 r n acc)
  note unfold = read_chunk.simps [of r n acc]
  show ?case
  proof (cases "length acc < n")
    case True
    obtain x r1 where rd: "read r (n - length acc) = (x, r1)" by force
    note ok = read_reads_ok [OF rd "1.prems"(1)]
    show ?thesis
    proof (cases x)
      case (Got d)
      note got = read_Got [OF rd [unfolded Got]]
      show ?thesis
      proof (cases "d = []")
        case True
        with \<open>length acc < n\<close> got rd Got ok show ?thesis by (simp add: unfold)
      next
        case False
        have "length (acc @ d) \<le> n" using got(2) True by simp
        from "1.IH"(1) [OF True rd [symmetric] Got False ok(2) this]
        obtain r' where "read_chunk r1 n (acc @ d) = (Some (take n (acc @ d @ rd_rest r1)), r')"
          "rd_rest r' = drop (n - length (acc @ d)) (rd_rest r1)" "reads_ok r'" by auto
        moreover have "drop (n - length (acc @ d)) (rd_rest r1) = drop (n - length acc) (rd_rest r)"
          using got(1,2) by (simp flip: got(1))
        ultimately show ?thesis using True rd Got False got(1) by (simp add: unfold)
      qed
    next
      case WasInterrupted
      with "1.IH"(2) [OF True rd [symmetric] WasInterrupted ok(2) "1.prems"(2)] True rd
        read_WasInterrupted(1) [OF rd [unfolded WasInterrupted]]
      show ?thesis by (simp add: unfold)
    next
      case ReadFailed
      with ok(1) show ?thesis by simp
    qed
  next
    case False
    with "1.prems" show ?thesis by (simp add: unfold)
  qed
qed

section \<open>The main loop\<close>

text \<open>The datagrams the loop sends for chunk \<open>k\<close>: its own, and the parity of a batch it completes.\<close>

definition chunk_wire :: "(bytes \<Rightarrow> bytes) \<Rightarrow> 'e fec_encoder \<Rightarrow> bytes \<Rightarrow> bytes \<Rightarrow> nat \<Rightarrow> bytes list" where
  "chunk_wire md5 enc rel F k =
     data_packet md5 rel F k #
     (if Suc k mod BATCH_DATA_CHUNKS = 0 then parity_wire md5 enc rel F (k div BATCH_DATA_CHUNKS) else [])"

definition loop_state :: "bytes \<Rightarrow> nat \<Rightarrow> send_progress" where
  "loop_state F k =
     \<lparr>sp_count = k, sp_batch = k div BATCH_DATA_CHUNKS,
      sp_payloads = map (file_chunk F) [batch_first (k div BATCH_DATA_CHUNKS)..<k]\<rparr>"

lemma batch_complete:
  assumes "Suc k mod BATCH_DATA_CHUNKS = 0"
  shows "Suc k div BATCH_DATA_CHUNKS = Suc (k div BATCH_DATA_CHUNKS)"
    and "batch_first (Suc k div BATCH_DATA_CHUNKS) = Suc k"
  using assms by (auto simp: BATCH_DATA_CHUNKS_def batch_first_def)

lemma batch_incomplete:
  assumes "Suc k mod BATCH_DATA_CHUNKS \<noteq> 0"
  shows "Suc k div BATCH_DATA_CHUNKS = k div BATCH_DATA_CHUNKS"
  using assms by (simp add: div_Suc)

lemma batch_count:
  "Suc k - batch_first (k div BATCH_DATA_CHUNKS) = BATCH_DATA_CHUNKS \<longleftrightarrow> Suc k mod BATCH_DATA_CHUNKS = 0"
  by (simp add: batch_first_def Suc_diff_le minus_div_mult_eq_mod mod_Suc)

lemma batch_first_le [simp]: "batch_first (k div BATCH_DATA_CHUNKS) \<le> k"
  by (simp add: batch_first_def)

text \<open>One round of the loop: a chunk that completes a batch, and one that does not.\<close>

lemma send_chunks_loop_complete:
  assumes "Suc k mod BATCH_DATA_CHUNKS = 0" and "read_chunk r CHUNK_SIZE [] = (Some (file_chunk F k), r')"
    and "file_chunk F k \<noteq> []" and "send_data_packet md5 mb h (file_chunk F k) k t = Some (True, u)"
    and "send_parity_packets md5 enc mb h (map (file_chunk F) [batch_first (k div BATCH_DATA_CHUNKS)..<Suc k])
      BATCH_PARITY_CHUNKS (k div BATCH_DATA_CHUNKS) u = Some (ok, v)"
  shows "send_chunks_loop md5 enc mb h r (loop_state F k) t = send_chunks_loop md5 enc mb h r' (loop_state F (Suc k)) v"
proof -
  let ?ps = "map (file_chunk F) [batch_first (k div BATCH_DATA_CHUNKS)..<Suc k]"
  have "loop_state F (Suc k) = \<lparr>sp_count = Suc k, sp_batch = Suc (k div BATCH_DATA_CHUNKS), sp_payloads = []\<rparr>"
    using batch_complete [OF assms(1)] by (simp add: loop_state_def)
  moreover have "length ?ps = BATCH_DATA_CHUNKS" using assms(1) batch_count [of k] by (simp add: Suc_diff_le)
  ultimately show ?thesis
    using assms(2-5) by (subst send_chunks_loop.simps) (simp add: loop_state_def [of F k] Let_def)
qed

lemma send_chunks_loop_incomplete:
  assumes "Suc k mod BATCH_DATA_CHUNKS \<noteq> 0" and "read_chunk r CHUNK_SIZE [] = (Some (file_chunk F k), r')"
    and "file_chunk F k \<noteq> []" and "send_data_packet md5 mb h (file_chunk F k) k t = Some (True, u)"
  shows "send_chunks_loop md5 enc mb h r (loop_state F k) t = send_chunks_loop md5 enc mb h r' (loop_state F (Suc k)) u"
proof -
  let ?ps = "map (file_chunk F) [batch_first (k div BATCH_DATA_CHUNKS)..<Suc k]"
  have "loop_state F (Suc k) = \<lparr>sp_count = Suc k, sp_batch = k div BATCH_DATA_CHUNKS, sp_payloads = ?ps\<rparr>"
    using batch_incomplete [OF assms(1)] by (simp add: loop_state_def)
  moreover have "length ?ps \<noteq> BATCH_DATA_CHUNKS" using assms(1) batch_count [of k] by (simp add: Suc_diff_le)
  ultimately show ?thesis
    using assms(2-4) by (subst send_chunks_loop.simps) (simp add: loop_state_def [of F k] Let_def)
qed

lemma send_chunks_loop_emits:
  assumes "accepts (outcomes t)" and "reads_ok r" and "rd_rest r = drop (k * CHUNK_SIZE) F"
    and "k \<le> total_chunks (length F)"
  shows "\<exists>t'. send_chunks_loop md5 enc mb (md5_hex md5 rel) r (loop_state F k) t
      = Some (Some (loop_state F (total_chunks (length F))), t')
    \<and> emits t (concat (map (chunk_wire md5 enc rel F) [k..<total_chunks (length F)])) t'"
  using assms
proof (induction "total_chunks (length F) - k" arbitrary: k r t)
  case 0
  then have k: "k = total_chunks (length F)" by simp
  then have "rd_rest r = []" using 0(4) drop_chunks_Nil [of k F] by (simp del: drop_eq_Nil)
  with read_chunk_full [OF 0(3), of "[]" CHUNK_SIZE] obtain r' where
    "read_chunk r CHUNK_SIZE [] = (Some [], r')" by auto
  with k show ?case by (subst send_chunks_loop.simps) simp
next
  case (Suc d)
  let ?T = "total_chunks (length F)" and ?h = "md5_hex md5 rel"
  have less: "k < ?T" using Suc(2) by simp
  obtain r' where rd: "read_chunk r CHUNK_SIZE [] = (Some (file_chunk F k), r')"
    and r': "rd_rest r' = drop (Suc k * CHUNK_SIZE) F" "reads_ok r'"
    using read_chunk_full [OF Suc(4), of "[]" CHUNK_SIZE] Suc(5) by (auto simp: file_chunk_def add.commute)
  have ne: "file_chunk F k \<noteq> []" using less by (rule file_chunk_pos)
  obtain u where u: "send_data_packet md5 mb ?h (file_chunk F k) k t = Some (True, u)"
    "emits t [data_packet md5 rel F k] u"
    using send_to_blocking_emits [OF Suc(3), of mb "data_packet md5 rel F k"]
    by (auto simp: send_data_packet_def data_packet_def)
  have acc: "accepts (outcomes u)" using u(2) Suc(3) by (rule emits_accepts)
  let ?ps = "map (file_chunk F) [batch_first (k div BATCH_DATA_CHUNKS)..<Suc k]"
  have upt: "[k..<?T] = k # [Suc k..<?T]" using less by (rule upt_conv_Cons)
  have IH: "\<exists>t'. send_chunks_loop md5 enc mb ?h r' (loop_state F (Suc k)) v
      = Some (Some (loop_state F ?T), t')
      \<and> emits v (concat (map (chunk_wire md5 enc rel F) [Suc k..<?T])) t'"
    if "accepts (outcomes v)" for v
    using Suc(2) less r' that by (intro Suc(1)) auto
  show ?case
  proof (cases "Suc k mod BATCH_DATA_CHUNKS = 0")
    case True
    have full: "?ps = batch_payloads F (k div BATCH_DATA_CHUNKS)"
      using batch_complete [OF True] less by (simp add: batch_payloads_def batch_end_def min_def)
    have "batch_payloads F (k div BATCH_DATA_CHUNKS) \<noteq> []" unfolding full [symmetric] by simp
    from send_parity_packets_emits [OF acc this, of md5 enc mb rel]
    obtain ok v where v: "send_parity_packets md5 enc mb ?h ?ps BATCH_PARITY_CHUNKS
        (k div BATCH_DATA_CHUNKS) u = Some (ok, v)"
      "emits u (parity_wire md5 enc rel F (k div BATCH_DATA_CHUNKS)) v"
      unfolding full by blast
    show ?thesis
      using IH [OF emits_accepts [OF v(2) acc]] emits_trans [OF emits_trans [OF u(2) v(2)]] True
        send_chunks_loop_complete [OF True rd ne u(1) v(1)]
      by (auto simp: upt chunk_wire_def)
  next
    case False
    show ?thesis
      using IH [OF acc] emits_trans [OF u(2)] False send_chunks_loop_incomplete [where enc = enc, OF False rd ne u(1)]
      by (auto simp: upt chunk_wire_def)
  qed
qed

section \<open>The whole file\<close>

lemma concat_full_batch:
  assumes "batch_first (Suc b) \<le> total_chunks (length F)"
  shows "concat (map (chunk_wire md5 enc rel F) [batch_first b..<batch_first (Suc b)])
    = batch_wire md5 enc rel F b"
proof -
  let ?l = "batch_first b + (BATCH_DATA_CHUNKS - 1)"
  have last: "batch_first (Suc b) = Suc ?l"
    by (simp add: batch_first_def BATCH_DATA_CHUNKS_def)
  have inner: "chunk_wire md5 enc rel F k = [data_packet md5 rel F k]" if "k \<in> {batch_first b..<?l}" for k
  proof -
    have "k div BATCH_DATA_CHUNKS = b"
      using that by (auto simp: batch_first_def BATCH_DATA_CHUNKS_def)
    then have "k mod BATCH_DATA_CHUNKS = k - batch_first b"
      by (auto simp: batch_first_def minus_div_mult_eq_mod [symmetric])
    then have "Suc (k mod BATCH_DATA_CHUNKS) \<noteq> BATCH_DATA_CHUNKS"
      using that by (auto simp: BATCH_DATA_CHUNKS_def)
    then show ?thesis by (simp add: chunk_wire_def mod_Suc)
  qed
  have "concat (map (chunk_wire md5 enc rel F) [batch_first b..<?l])
      = concat (map (\<lambda>k. [data_packet md5 rel F k]) [batch_first b..<?l])"
    using inner by (intro arg_cong [of _ _ concat] map_cong) auto
  moreover have "chunk_wire md5 enc rel F ?l = data_packet md5 rel F ?l # parity_wire md5 enc rel F b"
    by (simp add: chunk_wire_def batch_first_def BATCH_DATA_CHUNKS_def)
  ultimately show ?thesis
    using assms by (simp add: batch_wire_def batch_end_def last min_def)
qed

lemma concat_full_batches:
  "batch_first q \<le> total_chunks (length F) \<Longrightarrow>
    concat (map (chunk_wire md5 enc rel F) [0..<batch_first q]) = concat (map (batch_wire md5 enc rel F) [0..<q])"
proof (induction q)
  case 0
  then show ?case by (simp add: batch_first_def)
next
  case (Suc q)
  have le: "batch_first q \<le> batch_first (Suc q)" by (simp add: batch_first_def)
  then have "[0..<batch_first (Suc q)] = [0..<batch_first q] @ [batch_first q..<batch_first (Suc q)]"
    by (metis le0 le_Suc_ex upt_add_eq_append)
  with Suc concat_full_batch [OF Suc.prems, of md5 enc rel] le show ?case by simp
qed

text \<open>The last batch, when it is not full: its parity is sent after the loop.\<close>

lemma concat_last_batch:
  assumes "T = total_chunks (length F)" and "q = T div BATCH_DATA_CHUNKS"
  shows "concat (map (chunk_wire md5 enc rel F) [batch_first q..<T]) = map (data_packet md5 rel F) [batch_first q..<T]"
proof -
  have "chunk_wire md5 enc rel F k = [data_packet md5 rel F k]" if "k \<in> {batch_first q..<T}" for k
  proof -
    have "Suc k mod BATCH_DATA_CHUNKS \<noteq> 0"
    proof
      assume "Suc k mod BATCH_DATA_CHUNKS = 0"
      then obtain j where j: "Suc k = BATCH_DATA_CHUNKS * j" by (auto elim!: dvdE)
      then have "j \<le> q" using that assms(2) div_le_mono [of "Suc k" T BATCH_DATA_CHUNKS] by simp
      then have "Suc k \<le> batch_first q" unfolding j batch_first_def by (simp add: mult.commute)
      with that show False by simp
    qed
    then show ?thesis by (simp add: chunk_wire_def)
  qed
  then have "concat (map (chunk_wire md5 enc rel F) [batch_first q..<T])
      = concat (map (\<lambda>k. [data_packet md5 rel F k]) [batch_first q..<T])"
    by (intro arg_cong [of _ _ concat] map_cong) auto
  then show ?thesis by simp
qed

lemma batches_of_total:
  assumes "T = total_chunks (length F)" and "q = T div BATCH_DATA_CHUNKS"
  shows "concat (map (chunk_wire md5 enc rel F) [0..<T])
      @ (if T mod BATCH_DATA_CHUNKS = 0 then [] else parity_wire md5 enc rel F q)
    = concat (map (batch_wire md5 enc rel F) [0..<num_batches (length F)])"
proof -
  have q: "batch_first q \<le> T" "T < batch_first (Suc q)"
    using assms(2) by (auto simp: batch_first_def dividend_less_div_times)
  then have upt: "[0..<T] = [0..<batch_first q] @ [batch_first q..<T]"
    by (metis le0 le_Suc_ex upt_add_eq_append)
  have full: "concat (map (chunk_wire md5 enc rel F) [0..<batch_first q])
      = concat (map (batch_wire md5 enc rel F) [0..<q])"
    using q(1) assms(1) by (intro concat_full_batches) simp
  show ?thesis
  proof (cases "T mod BATCH_DATA_CHUNKS = 0")
    case True
    then have "batch_first q = T" "num_batches (length F) = q"
      using assms by (auto simp: batch_first_def num_batches_def div_ceil_def)
    with full True show ?thesis by simp
  next
    case False
    then have "num_batches (length F) = Suc q" using assms by (simp add: num_batches_def div_ceil_def)
    moreover have "batch_end (length F) q = T" using q(2) assms(1) by (simp add: batch_end_def)
    ultimately show ?thesis
      using full False concat_last_batch [OF assms, of md5 enc rel]
      by (simp add: upt batch_wire_def del: concat_append)
        (simp add: concat_append)
  qed
qed

lemma loop_state_payloads:
  assumes "T = total_chunks (length F)" and "q = T div BATCH_DATA_CHUNKS"
  shows "sp_payloads (loop_state F T) = (if T mod BATCH_DATA_CHUNKS = 0 then [] else batch_payloads F q)"
    and "sp_payloads (loop_state F T) = [] \<longleftrightarrow> T mod BATCH_DATA_CHUNKS = 0"
proof -
  have "T < batch_first (Suc q)" using assms(2) by (auto simp: batch_first_def dividend_less_div_times)
  then have e: "batch_end (length F) q = T" using assms(1) by (simp add: batch_end_def)
  have "batch_first q = T \<longleftrightarrow> T mod BATCH_DATA_CHUNKS = 0"
    unfolding batch_first_def assms(2) using div_mult_mod_eq [of T BATCH_DATA_CHUNKS] by linarith
  then show "sp_payloads (loop_state F T) = (if T mod BATCH_DATA_CHUNKS = 0 then [] else batch_payloads F q)"
    "sp_payloads (loop_state F T) = [] \<longleftrightarrow> T mod BATCH_DATA_CHUNKS = 0"
    using e assms(2)
    by (auto simp: loop_state_def batch_payloads_def dest: le_antisym [OF batch_first_le])
qed

text \<open>
  Sending a file whose metadata and contents agree, over a kernel that eventually takes every
  datagram: the call returns, succeeds, and has sent exactly the datagrams of the file.
\<close>

lemma send_file_chunks_emits:
  assumes "accepts (outcomes t)" and "src_len src = Some (length F)"
    and "src_open src = Some r" and "rd_rest r = F" and "reads_ok r" and "src_remove src"
  shows "\<exists>t'. send_file_chunks md5 enc mb src full rel t = Some (True, t')
    \<and> wire t' = wire t @ file_wire md5 enc rel F \<and> removed t' = removed t @ [full]
    \<and> outcomes t' = outcomes t"
proof -
  let ?T = "total_chunks (length F)" and ?h = "md5_hex md5 rel"
  let ?q = "?T div BATCH_DATA_CHUNKS"
  define s where "s = loop_state F ?T"
  have s: "sp_count s = ?T" "sp_batch s = ?q" by (simp_all add: s_def loop_state_def)
  note pay = loop_state_payloads [OF refl refl, of F, folded s_def]
  have s0: "loop_state F 0 = \<lparr>sp_count = 0, sp_batch = 0, sp_payloads = []\<rparr>"
    by (simp add: loop_state_def batch_first_def)
  let ?fin = "if ?T mod BATCH_DATA_CHUNKS = 0 then [] else parity_wire md5 enc rel F ?q"
  obtain u where u: "send_start_packet mb (length F) rel ?h BATCH_PARITY_CHUNKS t = Some (True, u)"
    "emits t (replicate CONTROL_RESEND (start_packet md5 rel (length F))) u"
    using send_with_retry_emits [OF assms(1), of mb "start_packet md5 rel (length F)" CONTROL_RESEND]
    by (auto simp: send_start_packet_def start_packet_def CONTROL_RESEND_def)
  have acc_u: "accepts (outcomes u)" using u(2) assms(1) by (rule emits_accepts)
  have "reads_ok r" "rd_rest r = drop (0 * CHUNK_SIZE) F" using assms(4,5) by simp_all
  from send_chunks_loop_emits [OF acc_u this, of md5 enc mb rel]
  obtain v where v: "send_chunks_loop md5 enc mb ?h r \<lparr>sp_count = 0, sp_batch = 0, sp_payloads = []\<rparr> u = Some (Some s, v)"
    "emits u (concat (map (chunk_wire md5 enc rel F) [0..<?T])) v" unfolding s0 s_def by auto
  have acc_v: "accepts (outcomes v)" using v(2) acc_u by (rule emits_accepts)
  have fin: "\<exists>ok w. (if sp_payloads s \<noteq> [] then send_parity_packets md5 enc mb ?h (sp_payloads s)
      BATCH_PARITY_CHUNKS (sp_batch s) v else Some (True, v)) = Some (ok, w) \<and> emits v ?fin w"
  proof (cases "?T mod BATCH_DATA_CHUNKS = 0")
    case False
    with pay have "batch_payloads F ?q \<noteq> []" by auto
    from send_parity_packets_emits [OF acc_v this, of md5 enc mb rel] False
    show ?thesis using pay s by simp
  qed (use pay in auto)
  then obtain ok w where w: "(if sp_payloads s \<noteq> [] then send_parity_packets md5 enc mb ?h (sp_payloads s)
      BATCH_PARITY_CHUNKS (sp_batch s) v else Some (True, v)) = Some (ok, w)" "emits v ?fin w" by blast
  have acc_w: "accepts (outcomes w)" using w(2) acc_v by (rule emits_accepts)
  obtain x where x: "send_with_retry mb (end_packet rel ?T) CONTROL_RESEND w = Some (True, x)"
    "emits w (replicate CONTROL_RESEND (end_packet rel ?T)) x"
    using send_with_retry_emits [OF acc_w, of mb "end_packet rel ?T" CONTROL_RESEND]
    by (auto simp: CONTROL_RESEND_def)
  have "send_end_packet mb (\<lambda>_. src_remove src) full rel ?T w = Some (True, x\<lparr>removed := removed x @ [full]\<rparr>)"
    using x(1) assms(6) by (simp add: send_end_packet_def end_packet_def and_then_def)
  then have "send_file_chunks md5 enc mb src full rel t = Some (True, x\<lparr>removed := removed x @ [full]\<rparr>)"
    using u(1) v(1) w(1) assms(2,3)
    by (simp add: send_file_chunks_def and_then_def Let_def s)
  moreover have "emits t (file_wire md5 enc rel F) x"
    using emits_trans [OF emits_trans [OF emits_trans [OF u(2) v(2)] w(2)] x(2)]
      batches_of_total [OF refl refl, of md5 enc rel F]
    by (simp add: file_wire_def)
  ultimately show ?thesis by (auto simp: emits_def)
qed

end
