(* ===== verification/Scan.thy ===== *)
theory Scan
  imports Sender_Wire
begin

text \<open>
  The directory scan of the sender (\<open>walk_files\<close>, \<open>is_file_stable\<close> and \<open>send_files\<close> of
  \<open>diode_send/src/main.rs\<close>). The tree below the source directory is taken as it is while it is
  walked; the two length checks and the source of each file are answers of the system, which may
  have changed by then.
\<close>

section \<open>What is on disk\<close>

text \<open>
  What a name refers to: a regular file; a symbolic link; a socket, device or the like; something
  neither \<open>symlink_metadata\<close> nor \<open>metadata\<close> can look at; or a directory, which may not be
  readable, and whose entries may each fail to be read (\<open>None\<close>). The tree does not change between
  the two calls, so they fail together: a \<open>symlink_metadata\<close> that fails before a \<open>metadata\<close> that
  succeeds is not modelled.
\<close>

datatype source_node =
    RegularFile
  | SymbolicLink
  | SpecialFile
  | Unknown
  | Folder bool "(bytes \<times> source_node) option list"

section \<open>Walking\<close>

function (sequential) walk_files :: "bytes \<Rightarrow> source_node \<Rightarrow> bytes list \<Rightarrow> bytes list"
  and walk_entries :: "bytes \<Rightarrow> (bytes \<times> source_node) option list \<Rightarrow> bytes list \<Rightarrow> bytes list" where
  "walk_files dir (Folder readable entries) results =
     (if readable then walk_entries dir entries results else results)"
| "walk_files dir node results = results"
| "walk_entries dir [] results = results"
| "walk_entries dir (None # entries) results = walk_entries dir entries results"
| "walk_entries dir (Some (name, node) # entries) results =
     (let path = path_join dir name in
      case node of
        SymbolicLink \<Rightarrow> walk_entries dir entries results
      | Folder _ _ \<Rightarrow> walk_entries dir entries (walk_files path node results)
      | RegularFile \<Rightarrow> walk_entries dir entries (results @ [path])
      | _ \<Rightarrow> walk_entries dir entries results)"
  by pat_completeness auto
termination
  by (relation "measure (case_sum (\<lambda>(_, node, _). size node)
    (\<lambda>(_, entries, _). size_list (size_option (size_prod (\<lambda>_. 0) size)) entries))") auto

section \<open>Relative paths\<close>

text \<open>
  \<open>Path::strip_prefix\<close>: the components of the prefix are taken off the front of the path, and
  what is left is the text of the path from its next component to its last.
\<close>

fun join_slash :: "bytes list \<Rightarrow> bytes" where
  "join_slash [] = []"
| "join_slash [n] = n"
| "join_slash (n # m # ns) = n @ slash # join_slash (m # ns)"

definition void :: "bytes \<Rightarrow> bool" where
  "void p \<longleftrightarrow> p = [] \<or> p = dot"

fun strip_pieces :: "bytes list \<Rightarrow> component list \<Rightarrow> bytes list option" where
  "strip_pieces ps [] = Some (rev (dropWhile void (rev (dropWhile void ps))))"
| "strip_pieces ps (c # cs) =
     (case dropWhile void ps of
        [] \<Rightarrow> None
      | q # qs \<Rightarrow> if piece_component q = [c] then strip_pieces qs cs else None)"

definition strip_prefix :: "bytes \<Rightarrow> bytes \<Rightarrow> bytes option" where
  "strip_prefix p base =
     (let cs = components base; ps = split_slash p;
          front = (if starts_with slash p then Some RootDir else if hd ps = dot then Some CurDir else None)
      in if cs = [] then Some p
         else case front of
                None \<Rightarrow> map_option join_slash (strip_pieces ps cs)
              | Some c \<Rightarrow> if hd cs = c then map_option join_slash (strip_pieces (tl ps) (tl cs)) else None)"

section \<open>The scan\<close>

text \<open>The two answers of \<open>fs::metadata\<close>, a second apart.\<close>

definition is_file_stable :: "nat option \<Rightarrow> nat option \<Rightarrow> bool" where
  "is_file_stable first second =
     (case first of
        None \<Rightarrow> False
      | Some initial \<Rightarrow> (case second of None \<Rightarrow> False | Some n \<Rightarrow> n = initial))"

record scan_env =
  first_len :: "bytes \<Rightarrow> nat option"
  second_len :: "bytes \<Rightarrow> nat option"
  source_at :: "bytes \<Rightarrow> source"

fun send_each ::
  "(bytes \<Rightarrow> bytes) \<Rightarrow> 'e fec_encoder \<Rightarrow> nat \<Rightarrow> scan_env \<Rightarrow> bytes \<Rightarrow> bytes list \<Rightarrow> tx \<Rightarrow> tx option" where
  "send_each md5 enc max_backoff env source_dir [] t = Some t"
| "send_each md5 enc max_backoff env source_dir (full_path # files) t =
     (case strip_prefix full_path source_dir of
        None \<Rightarrow> send_each md5 enc max_backoff env source_dir files t
      | Some rel_path \<Rightarrow>
          (case from_utf8 rel_path of
             None \<Rightarrow> send_each md5 enc max_backoff env source_dir files t
           | Some rel_path_str \<Rightarrow>
               if is_file_stable (first_len env full_path) (second_len env full_path)
               then (case send_file_chunks md5 enc max_backoff (source_at env full_path) full_path rel_path_str t of
                       None \<Rightarrow> None
                     | Some (_, t) \<Rightarrow> send_each md5 enc max_backoff env source_dir files t)
               else send_each md5 enc max_backoff env source_dir files t))"

definition send_files ::
  "(bytes \<Rightarrow> bytes) \<Rightarrow> 'e fec_encoder \<Rightarrow> nat \<Rightarrow> scan_env \<Rightarrow> bytes \<Rightarrow> source_node \<Rightarrow> tx \<Rightarrow> tx option" where
  "send_files md5 enc max_backoff env source_dir tree t =
     send_each md5 enc max_backoff env source_dir (walk_files source_dir tree []) t"

section \<open>Paths below the source directory\<close>

text \<open>A name as the system allows it in a directory.\<close>

definition entry_name :: "bytes \<Rightarrow> bool" where
  "entry_name n \<longleftrightarrow> n \<noteq> [] \<and> slash \<notin> set n \<and> 0 \<notin> set n \<and> n \<noteq> dot \<and> n \<noteq> dotdot"

lemma entry_name_component: "entry_name n \<Longrightarrow> piece_component n = [Normal n] \<and> \<not> void n"
  by (simp add: entry_name_def piece_component_def void_def)

lemma entry_name_unrooted: "entry_name n \<Longrightarrow> \<not> starts_with slash n"
  by (cases n) (auto simp: entry_name_def starts_with_def)

lemma split_slash_word: "slash \<notin> set n \<Longrightarrow> split_slash n = [n]"
  by (induction n) auto

lemma split_join_slash:
  "list_all entry_name ns \<Longrightarrow> ns \<noteq> [] \<Longrightarrow> split_slash (join_slash ns) = ns"
  by (induction ns rule: join_slash.induct)
    (simp_all add: entry_name_def split_slash_append_slash split_slash_word)

lemma join_slash_unrooted:
  "list_all entry_name ns \<Longrightarrow> ns \<noteq> [] \<Longrightarrow> \<not> starts_with slash (join_slash ns) \<and> join_slash ns \<noteq> []"
proof (cases ns rule: join_slash.cases)
  case (3 n m ms)
  assume "list_all entry_name ns"
  with 3 have "entry_name n" by simp
  then show ?thesis
    using entry_name_unrooted [of n] by (cases n) (simp_all add: 3 starts_with_def entry_name_def)
qed (simp_all add: entry_name_unrooted, simp add: entry_name_def)

lemma join_slash_snoc: "ns \<noteq> [] \<Longrightarrow> join_slash (ns @ [n]) = join_slash ns @ slash # n"
  by (induction ns rule: join_slash.induct) simp_all

text \<open>Joining names one by one is joining them at once.\<close>

lemma path_join_names:
  assumes "list_all entry_name ns" and "ns \<noteq> []" and "entry_name n"
  shows "path_join (path_join base (join_slash ns)) n = path_join base (join_slash (ns @ [n]))"
proof -
  note ur = join_slash_unrooted [OF assms(1,2)] and nr = entry_name_unrooted [OF assms(3)]
  have "slash \<notin> set (last ns)" "last ns \<noteq> []"
    using assms(1,2) by (auto simp: list_all_iff entry_name_def)
  moreover have "last (join_slash ns) = last (last ns)"
  proof (cases "butlast ns = []")
    case True
    then have "ns = [last ns]" using append_butlast_last_id [OF assms(2)] by simp
    then have "join_slash ns = last ns" by (metis join_slash.simps(2))
    then show ?thesis by simp
  next
    case False
    from join_slash_snoc [OF this, of "last ns"] \<open>last ns \<noteq> []\<close> show ?thesis
      by (simp add: append_butlast_last_id [OF assms(2)])
  qed
  ultimately have "last (join_slash ns) \<noteq> slash" by (metis last_in_set)
  with ur nr join_slash_snoc [OF assms(2), of n] show ?thesis
    by (auto simp: path_join_def starts_with_append starts_with_def split: list.splits)
qed

lemma names_join_slash:
  assumes "list_all entry_name ns" and "ns \<noteq> []"
  shows "plain (join_slash ns)" and "names (join_slash ns) = ns" and "\<not> dir_form (join_slash ns)"
proof -
  note ur = join_slash_unrooted [OF assms] and sp = split_join_slash [OF assms]
  have "pieces (join_slash ns) = map Normal ns"
    using assms(1) unfolding pieces_def sp by (induction ns) (simp_all add: entry_name_component)
  moreover have "hd ns \<noteq> dot" using assms by (cases ns) (simp_all add: entry_name_def)
  ultimately have cs: "components (join_slash ns) = map Normal ns"
    using ur by (simp add: components_def sp)
  show "plain (join_slash ns)" using ur by (simp add: plain_def cs list_all_iff)
  show "names (join_slash ns) = ns" by (simp add: names_def cs comp_def)
  show "\<not> dir_form (join_slash ns)"
    using assms by (auto simp: dir_form_def sp list_all_iff entry_name_def)
qed

lemma strip_pieces_take:
  assumes "list_all entry_name ns" and "ns \<noteq> []"
  shows "strip_pieces (ps @ ns) (concat (map piece_component ps)) = Some ns"
proof (induction ps)
  case Nil
  have "dropWhile void ns = ns" "dropWhile void (rev ns) = rev ns"
    using assms by (auto simp: dropWhile_eq_self_iff hd_rev list_all_iff entry_name_component)
  then show ?case by simp
next
  case (Cons p ps)
  show ?case
  proof (cases "void p")
    case True
    then have "piece_component p = []" by (simp add: void_def piece_component_def)
    moreover have "strip_pieces (p # qs) cs = strip_pieces qs cs" for qs cs
      using True by (cases cs) simp_all
    ultimately show ?thesis using Cons by simp
  next
    case False
    then obtain c where "piece_component p = [c]"
      by (cases "p = dotdot") (auto simp: void_def piece_component_def)
    with False Cons show ?thesis by simp
  qed
qed

lemma pieces_hd: "void (hd ps) \<Longrightarrow> ps \<noteq> [] \<Longrightarrow>
    concat (map piece_component (tl ps)) = concat (map piece_component ps)"
  by (cases ps) (auto simp: void_def piece_component_def)

lemma split_path_join:
  assumes "list_all entry_name ns" and "ns \<noteq> []" and "base \<noteq> []"
  obtains bs where "split_slash (path_join base (join_slash ns)) = bs @ ns" and "bs \<noteq> []"
    and "hd bs = hd (split_slash base)" and "concat (map piece_component bs) = pieces base"
proof (cases "last base = slash")
  case True
  note ur = join_slash_unrooted [OF assms(1,2)] and sp = split_join_slash [OF assms(1,2)]
  obtain b where b: "base = b @ [slash]" using assms(3) True by (metis append_butlast_last_id)
  show ?thesis
  proof (rule that [of "split_slash b"])
    show "split_slash (path_join base (join_slash ns)) = split_slash b @ ns"
      using ur by (simp add: path_join_def b split_slash_append_slash sp)
  qed (simp_all add: b pieces_def split_slash_append_slash piece_component_def)
next
  case False
  note ur = join_slash_unrooted [OF assms(1,2)] and sp = split_join_slash [OF assms(1,2)]
  show ?thesis
    by (rule that [of "split_slash base"])
      (use False ur assms(3) in \<open>simp_all add: path_join_def split_slash_append_slash sp pieces_def\<close>)
qed

lemma starts_with_path_join:
  "base \<noteq> [] \<Longrightarrow> \<not> starts_with slash rel \<Longrightarrow> starts_with slash (path_join base rel) = starts_with slash base"
  by (simp add: path_join_def starts_with_append)

lemma hd_split_rooted: "starts_with slash p \<Longrightarrow> hd (split_slash p) = []"
  by (cases p) (simp_all add: starts_with_def)

lemma strip_prefix_join:
  assumes "list_all entry_name ns" and "ns \<noteq> []"
  shows "strip_prefix (path_join base (join_slash ns)) base = Some (join_slash ns)"
proof (cases "base = []")
  case True
  then show ?thesis
    using join_slash_unrooted [OF assms] by (simp add: strip_prefix_def components_Nil path_join_def)
next
  case False
  obtain bs where bs: "split_slash (path_join base (join_slash ns)) = bs @ ns" "bs \<noteq> []"
    "hd bs = hd (split_slash base)" "concat (map piece_component bs) = pieces base"
    using split_path_join [OF assms False] by blast
  have root: "starts_with slash (path_join base (join_slash ns)) = starts_with slash base"
    using starts_with_path_join [OF False] join_slash_unrooted [OF assms] by blast
  have hd: "hd (bs @ ns) = hd (split_slash base)" "tl (bs @ ns) = tl bs @ ns" using bs(2,3) by simp_all
  note take = strip_pieces_take [OF assms]
  have tail: "strip_pieces (tl bs @ ns) (pieces base) = Some ns" if "void (hd bs)"
    using take [of "tl bs"] pieces_hd [OF that bs(2)] bs(4) by simp
  consider "starts_with slash base" | "\<not> starts_with slash base" "hd (split_slash base) = dot"
    | "\<not> starts_with slash base" "hd (split_slash base) \<noteq> dot" by blast
  then show ?thesis
  proof cases
    case 1
    then have "void (hd bs)" by (simp add: bs(3) hd_split_rooted void_def)
    with 1 tail show ?thesis by (simp add: strip_prefix_def bs(1) root hd components_def Let_def)
  next
    case 2
    then have "void (hd bs)" by (simp add: bs(3) void_def)
    with 2 tail show ?thesis by (simp add: strip_prefix_def bs(1) root hd components_def Let_def)
  next
    case 3
    then have "piece_component (hd bs) \<noteq> []"
      using split_slash_first [of base] False by (simp add: bs(3) piece_component_def)
    then have "pieces base \<noteq> []" using bs(2,4) by (cases bs) auto
    with 3 take [of bs] bs(4) show ?thesis
      by (simp add: strip_prefix_def bs(1) root hd components_def Let_def)
  qed
qed

lemma path_join_inject:
  assumes "list_all entry_name ns" "ns \<noteq> []" "list_all entry_name ms" "ms \<noteq> []"
    and "path_join base (join_slash ns) = path_join base (join_slash ms)"
  shows "ns = ms"
proof -
  have "Some (join_slash ns) = Some (join_slash ms)"
    unfolding strip_prefix_join [OF assms(1,2), of base, symmetric] strip_prefix_join [OF assms(3,4), of base, symmetric]
    by (simp only: assms(5))
  then have "split_slash (join_slash ns) = split_slash (join_slash ms)" by simp
  then show ?thesis by (simp add: split_join_slash assms(1-4))
qed

section \<open>What a walk finds\<close>

text \<open>The files below a directory by their names, without text paths or an accumulator.\<close>

function (sequential) found :: "source_node \<Rightarrow> bytes list list"
  and found_entries :: "(bytes \<times> source_node) option list \<Rightarrow> bytes list list" where
  "found (Folder readable entries) = (if readable then found_entries entries else [])"
| "found node = []"
| "found_entries [] = []"
| "found_entries (None # entries) = found_entries entries"
| "found_entries (Some (name, node) # entries) =
     (if node = RegularFile then [[name]] else map ((#) name) (found node)) @ found_entries entries"
  by pat_completeness auto
termination
  by (relation "measure (case_sum size (size_list (size_option (size_prod (\<lambda>_. 0) size))))") auto

inductive regular_at :: "source_node \<Rightarrow> bytes list \<Rightarrow> bool" where
  here: "Some (n, RegularFile) \<in> set es \<Longrightarrow> regular_at (Folder True es) [n]"
| below: "Some (n, Folder r ds) \<in> set es \<Longrightarrow> regular_at (Folder r ds) ns \<Longrightarrow> regular_at (Folder True es) (n # ns)"

inductive_simps regular_at_leaf [simp]:
  "regular_at RegularFile ns" "regular_at SymbolicLink ns" "regular_at SpecialFile ns" "regular_at Unknown ns"

inductive_cases regular_at_FolderE: "regular_at (Folder r es) ns"

lemma regular_at_Folder: "regular_at (Folder r es) ns \<longleftrightarrow>
    r \<and> (\<exists>n node. Some (n, node) \<in> set es
      \<and> (node = RegularFile \<and> ns = [n] \<or> (\<exists>ms. ns = n # ms \<and> regular_at node ms)))" (is "_ = ?R")
proof
  assume "regular_at (Folder r es) ns"
  then show ?R by (rule regular_at_FolderE) blast+
next
  assume ?R
  then obtain n node where r: "r" and mem: "Some (n, node) \<in> set es"
    and "node = RegularFile \<and> ns = [n] \<or> (\<exists>ms. ns = n # ms \<and> regular_at node ms)" by blast
  then show "regular_at (Folder r es) ns"
    by (cases node) (auto intro: regular_at.intros)
qed

text \<open>A tree as a file system has it: legal names, each once in a directory.\<close>

fun entry_names :: "(bytes \<times> source_node) option list \<Rightarrow> bytes list" where
  "entry_names [] = []"
| "entry_names (None # entries) = entry_names entries"
| "entry_names (Some (name, node) # entries) = name # entry_names entries"

inductive tree_ok :: "source_node \<Rightarrow> bool" where
  leaf: "node \<in> {RegularFile, SymbolicLink, SpecialFile, Unknown} \<Longrightarrow> tree_ok node"
| folder: "distinct (entry_names es) \<Longrightarrow>
    (\<And>n node. Some (n, node) \<in> set es \<Longrightarrow> entry_name n) \<Longrightarrow>
    (\<And>n node. Some (n, node) \<in> set es \<Longrightarrow> tree_ok node) \<Longrightarrow> tree_ok (Folder r es)"

inductive_simps tree_ok_folder: "tree_ok (Folder r es)"

end
