(* ===== verification/Pacer.thy ===== *)
theory Pacer
  imports Prelude
begin

text \<open>
  The pacer of the sender (\<open>Pacer::wait\<close> of \<open>diode_send/src/main.rs\<close>), which the file thread and
  the datagram thread share: each call reserves the next free time slot in one atomic variable and
  waits for it. Threads interleave freely, and every access to the variable is \<open>Relaxed\<close>: a load,
  and a failed exchange, may return any value the variable has had, while a successful exchange
  replaces its latest value. Times are in nanoseconds since the pacer was made.
\<close>

section \<open>State\<close>

definition SLEEP_HEADROOM_NANOS :: nat where "SLEEP_HEADROOM_NANOS = 200000"

text \<open>
  Where a thread is in \<open>wait\<close>: not in it; after its first clock reading \<open>now\<close>; in the reservation
  loop with the value \<open>prev\<close>; in the waiting loop for \<open>slot\<close>; asleep until some time.
\<close>

datatype wait_pc =
    Outside
  | Timed nat
  | Trying nat nat
  | Waiting nat nat
  | Asleep nat nat nat

text \<open>
  \<open>deadlines\<close> are the values of the atomic variable, the latest first. \<open>slots\<close> and \<open>finished\<close>
  only record what happened: the slots reserved, in order, and for each call that has
  returned its first clock reading, its slot and its last clock reading.
\<close>

record pacer =
  interval_nanos :: nat
  deadlines :: "nat list"
  elapsed :: nat
  pc :: "nat \<Rightarrow> wait_pc"
  slots :: "nat list"
  finished :: "(nat \<times> nat \<times> nat) list"

definition new_pacer :: "nat \<Rightarrow> pacer" where
  "new_pacer interval = \<lparr>interval_nanos = interval, deadlines = [0], elapsed = 0, pc = (\<lambda>_. Outside),
     slots = [], finished = []\<rparr>"

section \<open>Steps\<close>

text \<open>\<open>as_nanos() as u64\<close>.\<close>

definition clock_nanos :: "pacer \<Rightarrow> nat" where
  "clock_nanos s = elapsed s mod 2 ^ 64"

text \<open>The slot a call takes and the new value of the variable.\<close>

definition reserve_slot :: "nat \<Rightarrow> nat \<Rightarrow> nat \<Rightarrow> nat \<times> nat" where
  "reserve_slot interval now prev = (let target = max prev now in (target, sat_add64 target interval))"

text \<open>How long to sleep when that much is left; \<open>None\<close> is a turn of the spin loop.\<close>

definition nap :: "nat \<Rightarrow> nat option" where
  "nap remaining = (if remaining > 1000000 then Some (remaining - SLEEP_HEADROOM_NANOS) else None)"

inductive pacer_step :: "pacer \<Rightarrow> pacer \<Rightarrow> bool" where
  time: "elapsed s \<le> c \<Longrightarrow> pacer_step s (s\<lparr>elapsed := c\<rparr>)"
| unpaced: "pc s i = Outside \<Longrightarrow> interval_nanos s = 0 \<Longrightarrow> pacer_step s s"
| enter: "pc s i = Outside \<Longrightarrow> interval_nanos s \<noteq> 0 \<Longrightarrow>
    pacer_step s (s\<lparr>pc := (pc s)(i := Timed (clock_nanos s))\<rparr>)"
| load: "pc s i = Timed now \<Longrightarrow> prev \<in> set (deadlines s) \<Longrightarrow>
    pacer_step s (s\<lparr>pc := (pc s)(i := Trying now prev)\<rparr>)"
| exchange: "pc s i = Trying now prev \<Longrightarrow> prev = hd (deadlines s) \<Longrightarrow>
    reserve_slot (interval_nanos s) now prev = (slot, new) \<Longrightarrow>
    pacer_step s (s\<lparr>pc := (pc s)(i := Waiting now slot), deadlines := new # deadlines s,
                    slots := slots s @ [slot]\<rparr>)"
| retry: "pc s i = Trying now prev \<Longrightarrow> actual \<in> set (deadlines s) \<Longrightarrow>
    pacer_step s (s\<lparr>pc := (pc s)(i := Trying now actual)\<rparr>)"
| sleep: "pc s i = Waiting now slot \<Longrightarrow> clock_nanos s < slot \<Longrightarrow>
    nap (slot - clock_nanos s) = Some d \<Longrightarrow>
    pacer_step s (s\<lparr>pc := (pc s)(i := Asleep now slot (elapsed s + d))\<rparr>)"
| spin: "pc s i = Waiting now slot \<Longrightarrow> clock_nanos s < slot \<Longrightarrow>
    nap (slot - clock_nanos s) = None \<Longrightarrow> pacer_step s s"
| wake: "pc s i = Asleep now slot until \<Longrightarrow> until \<le> elapsed s \<Longrightarrow>
    pacer_step s (s\<lparr>pc := (pc s)(i := Waiting now slot)\<rparr>)"
| finish: "pc s i = Waiting now slot \<Longrightarrow> \<not> clock_nanos s < slot \<Longrightarrow>
    pacer_step s (s\<lparr>pc := (pc s)(i := Outside), finished := finished s @ [(now, slot, clock_nanos s)]\<rparr>)"

inductive_cases pacer_stepE: "pacer_step s t"

definition pacer_reaches :: "pacer \<Rightarrow> pacer \<Rightarrow> bool" where
  "pacer_reaches s t \<longleftrightarrow> rtranclp pacer_step s t"

section \<open>Invariant\<close>

text \<open>The slot a thread holds, with its first clock reading.\<close>

fun held :: "wait_pc \<Rightarrow> (nat \<times> nat) option" where
  "held (Waiting now slot) = Some (now, slot)"
| "held (Asleep now slot until) = Some (now, slot)"
| "held _ = None"

definition spaced :: "nat \<Rightarrow> nat list \<Rightarrow> bool" where
  "spaced d xs \<longleftrightarrow> sorted_wrt (\<lambda>a b. a + d \<le> b) xs"

definition finished_slots :: "pacer \<Rightarrow> nat list" where
  "finished_slots s = map (fst \<circ> snd) (finished s)"

definition saturated :: "pacer \<Rightarrow> bool" where
  "saturated s \<longleftrightarrow> u64_max \<le> hd (deadlines s)"

definition pc_ok :: "pacer \<Rightarrow> nat \<Rightarrow> bool" where
  "pc_ok s i \<longleftrightarrow>
     (case pc s i of
        Outside \<Rightarrow> True
      | Timed now \<Rightarrow> now \<le> u64_max
      | Trying now prev \<Rightarrow> now \<le> u64_max \<and> prev \<in> set (deadlines s)
      | Waiting now slot \<Rightarrow> now \<le> slot \<and> slot \<le> u64_max
      | Asleep now slot until \<Rightarrow> now \<le> slot \<and> slot \<le> u64_max)"

definition slots_ok :: "pacer \<Rightarrow> bool" where
  "slots_ok s \<longleftrightarrow>
     spaced (interval_nanos s) (slots s)
     \<and> (\<forall>x \<in> set (slots s). x + interval_nanos s \<le> hd (deadlines s))
     \<and> distinct (finished_slots s) \<and> set (finished_slots s) \<subseteq> set (slots s)
     \<and> (\<forall>i now slot. held (pc s i) = Some (now, slot) \<longrightarrow>
          slot \<in> set (slots s) \<and> slot \<notin> set (finished_slots s)
          \<and> (\<forall>j now'. held (pc s j) = Some (now', slot) \<longrightarrow> j = i))"

definition pacer_inv :: "pacer \<Rightarrow> bool" where
  "pacer_inv s \<longleftrightarrow>
     deadlines s \<noteq> [] \<and> (\<forall>d \<in> set (deadlines s). d \<le> hd (deadlines s) \<and> d \<le> u64_max)
     \<and> (\<forall>i. pc_ok s i)
     \<and> (\<forall>(now, slot, t) \<in> set (finished s). now \<le> slot \<and> slot \<le> t)
     \<and> (interval_nanos s \<noteq> 0 \<longrightarrow> \<not> saturated s \<longrightarrow> slots_ok s)"

lemma slots_okI:
  assumes "spaced (interval_nanos s) (slots s)"
    and "\<And>x. x \<in> set (slots s) \<Longrightarrow> x + interval_nanos s \<le> hd (deadlines s)"
    and "distinct (finished_slots s)" and "set (finished_slots s) \<subseteq> set (slots s)"
    and "\<And>i now slot. held (pc s i) = Some (now, slot) \<Longrightarrow>
      slot \<in> set (slots s) \<and> slot \<notin> set (finished_slots s)
      \<and> (\<forall>j now'. held (pc s j) = Some (now', slot) \<longrightarrow> j = i)"
  shows "slots_ok s"
  using assms unfolding slots_ok_def by blast

lemma slots_okD:
  assumes "slots_ok s" and "held (pc s i) = Some (now, slot)"
  shows "slot \<in> set (slots s)" and "slot \<notin> set (finished_slots s)"
    and "held (pc s j) = Some (now', slot) \<Longrightarrow> j = i"
  using assms unfolding slots_ok_def by blast+

text \<open>Steps that move a thread to a place where it holds the same slot keep the slot facts.\<close>

lemma slots_ok_cong:
  assumes "slots_ok s" and "interval_nanos s' = interval_nanos s" and "slots s' = slots s"
    and "hd (deadlines s') = hd (deadlines s)" and "finished s' = finished s"
    and "\<And>i. held (pc s' i) = held (pc s i)"
  shows "slots_ok s'"
  using assms(1) unfolding slots_ok_def finished_slots_def assms(2-6) by blast

lemma held_upd: "held (((pc s)(i := p)) j) = (if j = i then held p else held (pc s j))"
  by simp

lemma clock_nanos_le [simp]: "clock_nanos s \<le> u64_max"
  by (simp add: clock_nanos_def u64_max_def less_Suc_eq_le [symmetric])

lemma pc_ok_upd:
  assumes "\<And>j. pc_ok s j" and "set (deadlines s) \<subseteq> set (deadlines s')" and "pc s' = (pc s)(i := p)"
    and "pc_ok s' i"
  shows "pc_ok s' j"
proof (cases "j = i")
  case False
  then show ?thesis
    using assms(1) [of j] assms(2) unfolding pc_ok_def assms(3) by (auto split: wait_pc.splits)
qed (use assms(4) in simp)

lemma reserve_slot_fresh:
  assumes "reserve_slot d now (hd ds) = (slot, new)" and "now \<le> u64_max" and "hd ds \<le> u64_max"
  shows "slot = max (hd ds) now" and "slot \<le> u64_max" and "slot \<le> new" and "new \<le> u64_max"
    and "hd ds \<le> new" and "new < u64_max \<Longrightarrow> new = slot + d"
  using assms by (auto simp: reserve_slot_def Let_def sat_add64_def split: if_splits)

lemma slots_ok_exchange:
  assumes "slots_ok s" and "interval_nanos s \<noteq> 0"
    and slot: "hd (deadlines s) \<le> slot" and new: "new = slot + interval_nanos s"
  shows "slots_ok (s\<lparr>pc := (pc s)(i := Waiting now slot), deadlines := new # deadlines s, slots := slots s @ [slot]\<rparr>)"
    (is "slots_ok ?t")
proof (rule slots_okI)
  have old: "x + interval_nanos s \<le> slot" if "x \<in> set (slots s)" for x
    using assms(1) slot that unfolding slots_ok_def by fastforce
  then have fresh: "slot \<notin> set (slots s)" using assms(2) by fastforce
  show "spaced (interval_nanos ?t) (slots ?t)"
    using assms(1) old by (simp add: spaced_def slots_ok_def sorted_wrt_append)
  show "x + interval_nanos ?t \<le> hd (deadlines ?t)" if "x \<in> set (slots ?t)" for x
    using that old [of x] new by auto
  have fin: "finished_slots ?t = finished_slots s" by (simp add: finished_slots_def)
  have sub: "set (finished_slots s) \<subseteq> set (slots s)" "distinct (finished_slots s)"
    using assms(1) by (simp_all add: slots_ok_def)
  then show "distinct (finished_slots ?t)" "set (finished_slots ?t) \<subseteq> set (slots ?t)"
    by (auto simp: fin)
  have none: "held (pc s k) \<noteq> Some (n', slot)" for k n'
    using slots_okD(1) [OF assms(1)] fresh by blast
  fix j n x
  assume h: "held (pc ?t j) = Some (n, x)"
  show "x \<in> set (slots ?t) \<and> x \<notin> set (finished_slots ?t) \<and> (\<forall>k n'. held (pc ?t k) = Some (n', x) \<longrightarrow> k = j)"
  proof (cases "j = i")
    case True
    then have "x = slot" using h by simp
    then show ?thesis using True none fresh sub by (auto simp: fin split: if_splits)
  next
    case False
    then have o: "held (pc s j) = Some (n, x)" using h by simp
    then have "x \<noteq> slot" using none by auto
    have "k = j" if "held (pc ?t k) = Some (n', x)" for k n'
      using that \<open>x \<noteq> slot\<close> slots_okD(3) [OF assms(1) o, of k n'] by (simp split: if_splits)
    with slots_okD(1,2) [OF assms(1) o] show ?thesis unfolding fin by simp
  qed
qed

lemma slots_ok_finish:
  assumes "slots_ok s" and "pc s i = Waiting now slot"
  shows "slots_ok (s\<lparr>pc := (pc s)(i := Outside), finished := finished s @ [(now, slot, t)]\<rparr>)"
    (is "slots_ok ?t")
proof (rule slots_okI)
  have h: "held (pc s i) = Some (now, slot)" using assms(2) by simp
  note i = slots_okD [OF assms(1) h]
  have fs: "finished_slots ?t = finished_slots s @ [slot]" by (simp add: finished_slots_def)
  show "distinct (finished_slots ?t)" "set (finished_slots ?t) \<subseteq> set (slots ?t)"
    using assms(1) i(1,2) by (simp_all add: fs slots_ok_def)
  show "spaced (interval_nanos ?t) (slots ?t)" using assms(1) by (simp add: slots_ok_def)
  show "x + interval_nanos ?t \<le> hd (deadlines ?t)" if "x \<in> set (slots ?t)" for x
    using assms(1) that by (simp add: slots_ok_def)
  fix j n x
  assume "held (pc ?t j) = Some (n, x)"
  then have o: "j \<noteq> i" "held (pc s j) = Some (n, x)" by (simp_all split: if_splits)
  then have "x \<noteq> slot" using i(3) by auto
  have "k = j" if "held (pc ?t k) = Some (n', x)" for k n'
    using that slots_okD(3) [OF assms(1) o(2), of k n'] by (simp split: if_splits)
  with slots_okD(1,2) [OF assms(1) o(2)] \<open>x \<noteq> slot\<close>
  show "x \<in> set (slots ?t) \<and> x \<notin> set (finished_slots ?t) \<and> (\<forall>k n'. held (pc ?t k) = Some (n', x) \<longrightarrow> k = j)"
    unfolding fs by simp
qed

lemma pacer_inv_new [simp]: "pacer_inv (new_pacer d)"
  by (simp add: pacer_inv_def new_pacer_def pc_ok_def slots_ok_def spaced_def finished_slots_def u64_max_def)

lemma pacer_inv_pc:
  assumes "pacer_inv s"
  shows "pc s i = Timed now \<Longrightarrow> now \<le> u64_max"
    and "pc s i = Trying now prev \<Longrightarrow> now \<le> u64_max \<and> prev \<in> set (deadlines s)"
    and "pc s i = Waiting now slot \<Longrightarrow> now \<le> slot \<and> slot \<le> u64_max"
    and "pc s i = Asleep now slot until \<Longrightarrow> now \<le> slot \<and> slot \<le> u64_max"
proof -
  have "pc_ok s i" using assms by (simp add: pacer_inv_def)
  then show "pc s i = Timed now \<Longrightarrow> now \<le> u64_max"
    and "pc s i = Trying now prev \<Longrightarrow> now \<le> u64_max \<and> prev \<in> set (deadlines s)"
    and "pc s i = Waiting now slot \<Longrightarrow> now \<le> slot \<and> slot \<le> u64_max"
    and "pc s i = Asleep now slot until \<Longrightarrow> now \<le> slot \<and> slot \<le> u64_max"
    by (simp_all add: pc_ok_def)
qed

lemma pacer_inv_deadlines:
  assumes "pacer_inv s"
  shows "deadlines s \<noteq> []" and "hd (deadlines s) \<le> u64_max"
    and "d \<in> set (deadlines s) \<Longrightarrow> d \<le> hd (deadlines s)"
  using assms by (auto simp: pacer_inv_def)

text \<open>Moving one thread, without touching the variable or the history.\<close>

lemma pacer_inv_move:
  assumes inv: "pacer_inv s" and t: "t = s\<lparr>pc := (pc s)(i := p)\<rparr>"
    and ok: "pc_ok t i" and held: "held p = held (pc s i)"
  shows "pacer_inv t"
proof -
  have "pc_ok t j" for j
    by (rule pc_ok_upd [of s t i p, OF _ _ _ ok]) (use inv in \<open>simp_all add: pacer_inv_def t\<close>)
  moreover have "slots_ok t" if "slots_ok s"
    by (rule slots_ok_cong [OF that]) (simp_all add: t held)
  moreover have "saturated t = saturated s" by (simp add: saturated_def t)
  ultimately show ?thesis using inv unfolding pacer_inv_def t by auto
qed

lemma pacer_inv_exchange:
  assumes inv: "pacer_inv s" and pc: "pc s i = Trying now prev" and prev: "prev = hd (deadlines s)"
    and r: "reserve_slot (interval_nanos s) now prev = (slot, new)"
  shows "pacer_inv (s\<lparr>pc := (pc s)(i := Waiting now slot), deadlines := new # deadlines s,
                     slots := slots s @ [slot]\<rparr>)" (is "pacer_inv ?t")
proof -
  have oks: "pc_ok s j" for j using inv by (simp add: pacer_inv_def)
  note hd = pacer_inv_deadlines [OF inv] and now = conjunct1 [OF pacer_inv_pc(2) [OF inv pc]]
  note f = reserve_slot_fresh [OF r [unfolded prev] now hd(2)]
  have "pc_ok ?t j" for j
    by (rule pc_ok_upd [of s ?t i "Waiting now slot"], rule oks)
      (use f(2) in \<open>auto simp: pc_ok_def f(1)\<close>)
  moreover have "slots_ok ?t" if "interval_nanos s \<noteq> 0" "\<not> saturated ?t"
  proof -
    have "new < u64_max" using that(2) by (simp add: saturated_def)
    moreover have "slots_ok s"
      using inv that(1) \<open>new < u64_max\<close> f(5) by (simp add: pacer_inv_def saturated_def)
    ultimately show ?thesis using that(1) f(1) f(6) by (intro slots_ok_exchange) simp_all
  qed
  ultimately show ?thesis
    using inv f(4,5) le_trans [OF hd(3) f(5)] unfolding pacer_inv_def by auto
qed

lemma pacer_inv_finish:
  assumes inv: "pacer_inv s" and pc: "pc s i = Waiting now slot" and "\<not> clock_nanos s < slot"
  shows "pacer_inv (s\<lparr>pc := (pc s)(i := Outside), finished := finished s @ [(now, slot, clock_nanos s)]\<rparr>)"
    (is "pacer_inv ?t")
proof -
  have oks: "\<And>j. pc_ok s j" using inv by (simp add: pacer_inv_def)
  moreover have "now \<le> slot" using pacer_inv_pc(3) [OF inv pc] ..
  moreover have "pc_ok ?t j" for j
    by (rule pc_ok_upd [of s ?t i Outside]) (simp_all add: oks, simp add: pc_ok_def)
  moreover have "slots_ok s \<Longrightarrow> slots_ok ?t" using pc by (rule slots_ok_finish [rotated])
  moreover have "saturated ?t = saturated s" by (simp add: saturated_def)
  ultimately show ?thesis using inv assms(3) unfolding pacer_inv_def by auto
qed

lemma pacer_step_inv:
  assumes "pacer_inv s" and "pacer_step s t"
  shows "pacer_inv t"
  using assms(2)
proof (cases rule: pacer_step.cases)
  case (time c)
  have "pc_ok t j = pc_ok s j" for j by (simp add: pc_ok_def time(1) split: wait_pc.split)
  moreover have "slots_ok t" if "slots_ok s"
    by (rule slots_ok_cong [OF that]) (simp_all add: time(1))
  ultimately show ?thesis using assms(1) by (simp add: pacer_inv_def time(1) saturated_def)
next
  case (exchange i now prev slot new)
  with pacer_inv_exchange [OF assms(1)] show ?thesis by simp
next
  case (finish i now slot)
  with pacer_inv_finish [OF assms(1)] show ?thesis by simp
next
  case (sleep i now slot d)
  with pacer_inv_pc(3) [OF assms(1) sleep(2)] show ?thesis
    by (intro pacer_inv_move [OF assms(1) sleep(1)]) (simp_all add: pc_ok_def)
next
  case (wake i now slot until)
  with pacer_inv_pc(4) [OF assms(1) wake(2)] show ?thesis
    by (intro pacer_inv_move [OF assms(1) wake(1)]) (simp_all add: pc_ok_def)
next
  case (enter i)
  then show ?thesis by (intro pacer_inv_move [OF assms(1) enter(1)]) (simp_all add: pc_ok_def)
next
  case (load i now prev)
  with pacer_inv_pc(1) [OF assms(1) load(2)] show ?thesis
    by (intro pacer_inv_move [OF assms(1) load(1)]) (simp_all add: pc_ok_def)
next
  case (retry i now prev actual)
  with pacer_inv_pc(2) [OF assms(1) retry(2)] show ?thesis
    by (intro pacer_inv_move [OF assms(1) retry(1)]) (simp_all add: pc_ok_def)
qed (use assms(1) in simp_all)

interpretation pacing: transitions pacer_step pacer_inv
  by unfold_locales (rule pacer_step_inv)

lemma pacer_reaches_inv: "pacer_reaches (new_pacer d) s \<Longrightarrow> pacer_inv s"
  unfolding pacer_reaches_def using pacing.reaches_inv [of "new_pacer d" s] by simp

lemma pacer_step_interval: "pacer_step s t \<Longrightarrow> interval_nanos t = interval_nanos s"
  by (auto elim: pacer_stepE)

lemma pacer_reaches_interval: "pacer_reaches (new_pacer d) s \<Longrightarrow> interval_nanos s = d"
  unfolding pacer_reaches_def
  using pacing.reaches_frame [of "new_pacer d" s interval_nanos, OF _ pacer_step_interval]
  by (simp add: new_pacer_def)

end
