(* ===== verification/Pacer_Props.thy ===== *)
theory Pacer_Props
  imports Pacer
begin

text \<open>
  The properties of the pacer: the rate it enforces over any window of time, for any number of
  threads and any interleaving, and that no call is ever stuck.
\<close>

section \<open>Counting\<close>

text \<open>Numbers at distance at least \<open>d\<close> in an interval are few.\<close>

lemma spaced_card:
  assumes "0 < d" and gap: "\<And>x y. x \<in> X \<Longrightarrow> y \<in> X \<Longrightarrow> x < y \<Longrightarrow> x + d \<le> y"
    and X: "X \<subseteq> {A..B}" and "A \<le> B"
  shows "card X \<le> (B - A) div d + 1"
proof -
  let ?k = "\<lambda>x. (x - A) div d"
  have mono: "?k x < ?k y" if "x \<in> X" "y \<in> X" "x < y" for x y
  proof -
    have "x - A + d \<le> y - A" using gap [OF that] that X by auto
    then have "(x - A + d) div d \<le> (y - A) div d" by (rule div_le_mono)
    moreover have "(x - A + d) div d = ?k x + 1" using assms(1) by (intro div_add_self2) simp
    ultimately show ?thesis by linarith
  qed
  have "inj_on ?k X"
  proof (rule inj_onI)
    fix x y assume "x \<in> X" "y \<in> X" "?k x = ?k y"
    then show "x = y" using mono [of x y] mono [of y x] by (cases x y rule: linorder_cases) simp_all
  qed
  moreover have "?k ` X \<subseteq> {0..(B - A) div d}" using X by (force intro!: div_le_mono diff_le_mono)
  ultimately have "card X \<le> card {0..(B - A) div d}"
    by (metis card_image card_mono finite_atLeastAtMost)
  then show ?thesis by simp
qed

lemma spaced_gap:
  assumes "spaced d xs" and "x \<in> set xs" and "y \<in> set xs" and "x < y"
  shows "x + d \<le> y"
proof -
  obtain i j where "i < length xs" "j < length xs" "xs ! i = x" "xs ! j = y"
    using assms(2,3) by (auto simp: in_set_conv_nth)
  moreover from this have "i < j"
    using assms(1,4) sorted_wrt_nth_less [of "\<lambda>a b. a + d \<le> b" xs j i]
    by (cases i j rule: linorder_cases) (auto simp: spaced_def)
  ultimately show ?thesis using assms(1) by (auto simp: spaced_def dest: sorted_wrt_nth_less)
qed

section \<open>Rate\<close>

text \<open>Slots are at least an interval apart, and a call returns no sooner than its slot.\<close>

lemma calls_in_window:
  assumes "pacer_reaches (new_pacer d) s" and "0 < d" and "hd (deadlines s) < u64_max" and "A \<le> B"
  shows "length (filter (\<lambda>(entered, slot, returned). A \<le> entered \<and> returned \<le> B) (finished s))
    \<le> (B - A) div d + 1"
proof -
  let ?f = "filter (\<lambda>(entered, slot, returned). A \<le> entered \<and> returned \<le> B) (finished s)"
  let ?X = "set (map (fst \<circ> snd) ?f)"
  have inv: "pacer_inv s" and d: "interval_nanos s = d"
    using assms(1) by (rule pacer_reaches_inv, rule pacer_reaches_interval)
  then have ok: "slots_ok s" using assms(2,3) by (simp add: pacer_inv_def saturated_def)
  have ord: "\<forall>(now, slot, t) \<in> set (finished s). now \<le> slot \<and> slot \<le> t"
    using inv by (simp add: pacer_inv_def)
  have sub: "?X \<subseteq> set (slots s)" using ok by (auto simp: slots_ok_def finished_slots_def)
  have "distinct (map (fst \<circ> snd) ?f)"
    using ok by (simp add: slots_ok_def finished_slots_def distinct_map_filter)
  then have "length ?f = card ?X" using distinct_card [of "map (fst \<circ> snd) ?f"] by simp
  also have "\<dots> \<le> (B - A) div d + 1"
  proof (rule spaced_card [OF assms(2) _ _ assms(4)])
    show "x + d \<le> y" if "x \<in> ?X" "y \<in> ?X" "x < y" for x y
      using spaced_gap [of d "slots s" x y] ok that sub by (auto simp: slots_ok_def d)
    show "?X \<subseteq> {A..B}" using ord by fastforce
  qed
  finally show ?thesis .
qed

text \<open>C28. The rate. However many threads share the pacer, however they interleave and however stale
  the values their relaxed loads return: of the calls that entered \<open>wait\<close> at time \<open>A\<close> or later, at most
  \<open>(B - A) / interval + 1\<close> have returned by time \<open>B\<close>. In particular idle time earns no burst later
  on. (The saturating addition is excluded: it is reached after 584 years.)\<close>

theorem pacer_rate:
  assumes "pacer_reaches (new_pacer d) s" and "0 < d" and "hd (deadlines s) < u64_max" and "A \<le> B"
  shows "length (filter (\<lambda>(entered, slot, returned). A \<le> entered \<and> returned \<le> B) (finished s))
    \<le> (B - A) div d + 1"
  using assms by (rule calls_in_window)

section \<open>Two threads racing for a slot\<close>

text \<open>Threads 0 and 1 share a pacer of 100 ns and both see the variable at 0; thread 1 loses the
  exchange, takes the next slot and waits for it.\<close>

definition race :: "nat \<Rightarrow> nat list \<Rightarrow> nat list \<Rightarrow> (nat \<times> nat \<times> nat) list \<Rightarrow> wait_pc \<Rightarrow> wait_pc \<Rightarrow> pacer" where
  "race now ds taken done p q = \<lparr>interval_nanos = 100, deadlines = ds, elapsed = now,
     pc = (\<lambda>_. Outside)(1 := q, 0 := p), slots = taken, finished = done\<rparr>"

lemma race_simps [simp]:
  "interval_nanos (race now ds taken done p q) = 100" "deadlines (race now ds taken done p q) = ds"
  "elapsed (race now ds taken done p q) = now" "pc (race now ds taken done p q) 0 = p"
  "pc (race now ds taken done p q) (Suc 0) = q" "slots (race now ds taken done p q) = taken"
  "finished (race now ds taken done p q) = done"
  "clock_nanos (race now ds taken done p q) = now mod 2 ^ 64"
  by (simp_all add: race_def clock_nanos_def)

lemma race_upd:
  "(race now ds taken done p q)\<lparr>elapsed := c\<rparr> = race c ds taken done p q"
  "(race now ds taken done p q)\<lparr>pc := (pc (race now ds taken done p q))(0 := x)\<rparr> = race now ds taken done x q"
  "(race now ds taken done p q)\<lparr>pc := (pc (race now ds taken done p q))(Suc 0 := x)\<rparr> = race now ds taken done p x"
  "(race now ds taken done p q)\<lparr>deadlines := ds'\<rparr> = race now ds' taken done p q"
  "(race now ds taken done p q)\<lparr>slots := taken'\<rparr> = race now ds taken' done p q"
  "(race now ds taken done p q)\<lparr>finished := done'\<rparr> = race now ds taken done' p q"
  by (simp_all add: race_def fun_upd_twist [of "Suc 0" 0])

lemma reaches_refl: "pacer_reaches s s"
  by (simp add: pacer_reaches_def)

lemma reaches_step: "pacer_step s t \<Longrightarrow> pacer_reaches t u \<Longrightarrow> pacer_reaches s u"
  unfolding pacer_reaches_def by (rule converse_rtranclp_into_rtranclp)

lemma reaches_trans: "pacer_reaches s t \<Longrightarrow> pacer_reaches t u \<Longrightarrow> pacer_reaches s u"
  unfolding pacer_reaches_def by (rule rtranclp_trans)

lemma new_pacer_race: "new_pacer 100 = race 0 [0] [] [] Outside Outside"
  by (simp add: new_pacer_def race_def fun_eq_iff)

text \<open>Thread 0 has won the exchange; thread 1 still tries with the old value.\<close>

lemma race_contended: "pacer_reaches (new_pacer 100) (race 0 [100, 0] [0] [] (Waiting 0 0) (Trying 0 0))"
proof -
  note steps = pacer_step.enter [of "race 0 [0] [] [] Outside Outside" 0]
    pacer_step.enter [of "race 0 [0] [] [] (Timed 0) Outside" 1]
    pacer_step.load [of "race 0 [0] [] [] (Timed 0) (Timed 0)" 0 0 0]
    pacer_step.load [of "race 0 [0] [] [] (Trying 0 0) (Timed 0)" 1 0 0]
    pacer_step.exchange [of "race 0 [0] [] [] (Trying 0 0) (Trying 0 0)" 0 0 0 0 100]
  note steps = steps [THEN reaches_step]
  show ?thesis
    unfolding new_pacer_race
    by (rule steps [simplified race_upd One_nat_def]; (simp add: reserve_slot_def u64_max_def reaches_refl)?)+
qed

text \<open>Thread 0 returns at once, thread 1 takes the next slot and returns at 150.\<close>

lemma race_finished: "pacer_reaches (race 0 [100, 0] [0] [] (Waiting 0 0) (Trying 0 0))
  (race 150 [200, 100, 0] [0, 100] [(0, 0, 0), (0, 100, 150)] Outside Outside)"
proof -
  note steps = pacer_step.finish [of "race 0 [100, 0] [0] [] (Waiting 0 0) (Trying 0 0)" 0 0 0]
    pacer_step.retry [of "race 0 [100, 0] [0] [(0, 0, 0)] Outside (Trying 0 0)" 1 0 0 100]
    pacer_step.exchange [of "race 0 [100, 0] [0] [(0, 0, 0)] Outside (Trying 0 100)" 1 0 100 100 200]
    pacer_step.time [of "race 0 [200, 100, 0] [0, 100] [(0, 0, 0)] Outside (Waiting 0 100)" 150]
    pacer_step.finish [of "race 150 [200, 100, 0] [0, 100] [(0, 0, 0)] Outside (Waiting 0 100)" 1 0 100]
  note steps = steps [THEN reaches_step]
  show ?thesis
    by (rule steps [simplified race_upd One_nat_def]; (simp add: reserve_slot_def u64_max_def reaches_refl)?)+
qed

theorem pacer_rate_witness:
  "length (filter (\<lambda>(entered, slot, returned). 0 \<le> entered \<and> returned \<le> 150)
      (finished (race 150 [200, 100, 0] [0, 100] [(0, 0, 0), (0, 100, 150)] Outside Outside)))
    \<le> (150 - 0) div 100 + 1"
  by (rule pacer_rate [OF reaches_trans [OF race_contended race_finished]]) (simp_all add: u64_max_def)

section \<open>No call is stuck\<close>

text \<open>The clock can come to show its largest value, which is past every slot.\<close>

lemma clock_max: "\<exists>c \<ge> m. c mod 2 ^ 64 = u64_max"
proof (intro exI conjI)
  have "1 * m \<le> 2 ^ 64 * m" by (rule mult_le_mono1) simp
  then show "m \<le> 2 ^ 64 * m + u64_max" by simp
  show "(2 ^ 64 * m + u64_max) mod 2 ^ 64 = u64_max" by (simp add: u64_max_def)
qed

lemma waiting_returns:
  assumes "pc s i = Waiting now slot" and "slot \<le> u64_max"
  shows "\<exists>t. pacer_reaches s t \<and> pc t i = Outside"
proof -
  obtain c where c: "elapsed s \<le> c" "c mod 2 ^ 64 = u64_max" using clock_max by blast
  let ?u = "s\<lparr>elapsed := c\<rparr>"
  have "\<not> clock_nanos ?u < slot" using c(2) assms(2) by (simp add: clock_nanos_def)
  then have "pacer_step ?u (?u\<lparr>pc := (pc ?u)(i := Outside), finished := finished ?u @ [(now, slot, clock_nanos ?u)]\<rparr>)"
    (is "pacer_step ?u ?v") using assms(1) by (intro pacer_step.finish) simp_all
  with pacer_step.time [OF c(1)] have "pacer_reaches s ?v" by (blast intro: reaches_step reaches_refl)
  moreover have "pc ?v i = Outside" by simp
  ultimately show ?thesis by blast
qed

lemma asleep_returns:
  assumes "pc s i = Asleep now slot until" and "slot \<le> u64_max"
  shows "\<exists>t. pacer_reaches s t \<and> pc t i = Outside"
proof -
  let ?u = "s\<lparr>elapsed := max (elapsed s) until\<rparr>"
  let ?v = "?u\<lparr>pc := (pc ?u)(i := Waiting now slot)\<rparr>"
  have "pacer_step s ?u" by (rule pacer_step.time) simp
  moreover have "pacer_step ?u ?v" using assms(1) by (intro pacer_step.wake [of ?u i now slot until]) simp_all
  moreover obtain t where "pacer_reaches ?v t" "pc t i = Outside"
    using waiting_returns [of ?v i now slot] assms(2) by auto
  ultimately show ?thesis by (blast intro: reaches_step)
qed

lemma trying_returns:
  assumes "pacer_inv s" and "pc s i = Trying now prev"
  shows "\<exists>t. pacer_reaches s t \<and> pc t i = Outside"
proof -
  let ?d = "hd (deadlines s)"
  let ?u = "s\<lparr>pc := (pc s)(i := Trying now ?d)\<rparr>"
  obtain slot new where r: "reserve_slot (interval_nanos s) now ?d = (slot, new)" by force
  let ?v = "?u\<lparr>pc := (pc ?u)(i := Waiting now slot), deadlines := new # deadlines ?u, slots := slots ?u @ [slot]\<rparr>"
  have now: "now \<le> u64_max" using pacer_inv_pc(2) [OF assms] ..
  note d = pacer_inv_deadlines [OF assms(1)]
  have "pacer_step s ?u" using assms(2) d(1) by (intro pacer_step.retry) simp_all
  moreover have "pacer_step ?u ?v" using r by (intro pacer_step.exchange) simp_all
  moreover obtain t where "pacer_reaches ?v t" "pc t i = Outside"
    using waiting_returns [of ?v i now slot] reserve_slot_fresh(2) [OF r now d(2)] by auto
  ultimately show ?thesis by (blast intro: reaches_step)
qed

text \<open>C29. No call is ever stuck. From every state the threads can reach, whatever they have lost to
  one another, each thread inside \<open>wait\<close> can return, by its own steps and the passing of time alone:
  nothing another thread holds can block it.\<close>

theorem pacer_never_stuck:
  assumes "pacer_reaches (new_pacer d) s"
  shows "\<exists>t. pacer_reaches s t \<and> pc t i = Outside"
proof -
  have inv: "pacer_inv s" using assms by (rule pacer_reaches_inv)
  note p = pacer_inv_pc [OF inv]
  show ?thesis
  proof (cases "pc s i")
    case Outside
    then show ?thesis using reaches_refl by blast
  next
    case (Timed now)
    let ?u = "s\<lparr>pc := (pc s)(i := Trying now (hd (deadlines s)))\<rparr>"
    have s: "pacer_step s ?u" using Timed pacer_inv_deadlines(1) [OF inv] by (intro pacer_step.load) simp_all
    have "pacer_inv ?u" using inv s by (rule pacer_step_inv)
    from trying_returns [OF this, of i now "hd (deadlines s)"] s show ?thesis
      by (auto intro: reaches_step)
  next
    case (Trying now prev)
    then show ?thesis by (rule trying_returns [OF inv])
  next
    case (Waiting now slot)
    then show ?thesis using p(3) by (intro waiting_returns) auto
  next
    case (Asleep now slot until)
    then show ?thesis using p(4) by (intro asleep_returns) auto
  qed
qed

text \<open>The thread that lost the race still gets through.\<close>

theorem pacer_never_stuck_witness:
  "\<exists>t. pacer_reaches (race 0 [100, 0] [0] [] (Waiting 0 0) (Trying 0 0)) t \<and> pc t 1 = Outside"
  by (rule pacer_never_stuck [OF race_contended])

end
