(* ===== verification/F64.thy ===== *)
theory F64
  imports Prelude Complex_Main "HOL-Library.Log_Nat"
begin

text \<open>
  The part of \<open>f64\<close> the program computes with: IEEE 754 binary64 with rounding to nearest, ties to
  even, over rational numbers; \<open>f64::round\<close>, and the saturating casts to integers. A zero is always
  positive: the program only computes with a value after it found it not to be zero or below.
\<close>

section \<open>Values and rounding\<close>

datatype f64 = Finite rat | Infinity | NegInfinity | NaN

definition round_half_even :: "rat \<Rightarrow> int" where
  "round_half_even x =
     (let n = \<lfloor>x\<rfloor>; d = x - of_int n in if d < 1 / 2 \<or> d = 1 / 2 \<and> even n then n else n + 1)"

text \<open>\<open>\<lfloor>log2 x\<rfloor>\<close> of a positive rational.\<close>

definition binary_exponent :: "rat \<Rightarrow> int" where
  "binary_exponent x =
     (let (p, q) = quotient_of x; k = bitlen p - bitlen q in if 2 powi k \<le> x then k else k - 1)"

text \<open>The distance of neighbouring values around \<open>x\<close>: 53 significant bits, but not below the smallest
  subnormal number.\<close>

definition ulp :: "rat \<Rightarrow> rat" where
  "ulp x = (if x = 0 then 1 else 2 powi (max (binary_exponent \<bar>x\<bar> - 52) (- 1074)))"

definition round_f64 :: "rat \<Rightarrow> f64" where
  "round_f64 x =
     (let r = of_int (round_half_even (x / ulp x)) * ulp x
      in if r \<ge> 2 ^ 1024 then Infinity else if r \<le> - (2 ^ 1024) then NegInfinity else Finite r)"

section \<open>Operations\<close>

fun f64_neg :: "f64 \<Rightarrow> bool" where
  "f64_neg (Finite a) = (a < 0)"
| "f64_neg Infinity = False"
| "f64_neg NegInfinity = True"
| "f64_neg NaN = False"

definition f64_of_nat :: "nat \<Rightarrow> f64" where
  "f64_of_nat n = round_f64 (of_nat n)"

fun f64_mul :: "f64 \<Rightarrow> f64 \<Rightarrow> f64" where
  "f64_mul (Finite a) (Finite b) = round_f64 (a * b)"
| "f64_mul x y =
     (if x = NaN \<or> y = NaN \<or> x = Finite 0 \<or> y = Finite 0 then NaN
      else if f64_neg x = f64_neg y then Infinity else NegInfinity)"

fun f64_div :: "f64 \<Rightarrow> f64 \<Rightarrow> f64" where
  "f64_div (Finite a) (Finite b) =
     (if b \<noteq> 0 then round_f64 (a / b)
      else if a = 0 then NaN else if 0 < a then Infinity else NegInfinity)"
| "f64_div NaN y = NaN"
| "f64_div x NaN = NaN"
| "f64_div (Finite a) y = Finite 0"
| "f64_div x (Finite b) = (if f64_neg x = (b < 0) then Infinity else NegInfinity)"
| "f64_div x y = NaN"

text \<open>\<open>x <= 0.0\<close>, which does not hold of \<open>NaN\<close>.\<close>

fun f64_le_zero :: "f64 \<Rightarrow> bool" where
  "f64_le_zero (Finite a) = (a \<le> 0)"
| "f64_le_zero Infinity = False"
| "f64_le_zero NegInfinity = True"
| "f64_le_zero NaN = False"

text \<open>\<open>f64::round\<close>: to the nearest integer, half way away from zero.\<close>

fun f64_round :: "f64 \<Rightarrow> f64" where
  "f64_round (Finite a) = Finite (of_int (if 0 \<le> a then \<lfloor>a + 1 / 2\<rfloor> else \<lceil>a - 1 / 2\<rceil>))"
| "f64_round x = x"

text \<open>\<open>as\<close> to an integer type with the given bounds: towards zero, saturating, \<open>NaN\<close> to 0.\<close>

fun f64_as_int :: "int \<Rightarrow> int \<Rightarrow> f64 \<Rightarrow> int" where
  "f64_as_int lo hi (Finite a) = max lo (min hi (if 0 \<le> a then \<lfloor>a\<rfloor> else \<lceil>a\<rceil>))"
| "f64_as_int lo hi Infinity = hi"
| "f64_as_int lo hi NegInfinity = lo"
| "f64_as_int lo hi NaN = 0"

definition f64_as_u64 :: "f64 \<Rightarrow> nat" where
  "f64_as_u64 x = nat (f64_as_int 0 (2 ^ 64 - 1) x)"

definition f64_as_i32 :: "f64 \<Rightarrow> int" where
  "f64_as_i32 x = f64_as_int (- (2 ^ 31)) (2 ^ 31 - 1) x"

section \<open>Accuracy\<close>

lemma round_half_even_close: "\<bar>of_int (round_half_even x) - x\<bar> \<le> 1 / 2"
  unfolding round_half_even_def Let_def using of_int_floor_le [of x] floor_correct [of x]
  by (auto; linarith)

lemma round_half_even_of_int [simp]: "round_half_even (of_int n) = n"
  by (simp add: round_half_even_def)

lemma binary_exponent_bounds:
  assumes "0 < x"
  shows "2 powi (binary_exponent x) \<le> x" and "x < 2 powi (binary_exponent x + 1)"
proof -
  obtain p q where pq: "quotient_of x = (p, q)" by fastforce
  have q: "0 < q" and x: "x = of_int p / of_int q"
    using quotient_of_denom_pos [OF pq] quotient_of_div [OF pq] by simp_all
  have p: "0 < p" using assms q by (simp add: x zero_less_divide_iff)
  have l: "0 < bitlen p" "0 < bitlen q"
    using bitlen_bounds [OF p] bitlen_bounds [OF q] p q bitlen_nonneg [of p] bitlen_nonneg [of q]
    by (auto simp: order_less_le intro: ccontr)
  have powi: "2 powi k = (of_int (2 ^ nat k) :: rat)" if "0 \<le> k" for k
    using that by (simp add: power_int_def)
  have pb: "2 powi (bitlen p - 1) \<le> (of_int p :: rat)" "of_int p < (2 powi bitlen p :: rat)"
    using bitlen_bounds [OF p] l(1) by (simp_all add: powi del: of_int_power)
  have qb: "2 powi (bitlen q - 1) \<le> (of_int q :: rat)" "of_int q < (2 powi bitlen q :: rat)"
    using bitlen_bounds [OF q] l(2) by (simp_all add: powi del: of_int_power)
  let ?k = "bitlen p - bitlen q"
  have "2 powi (?k - 1) * of_int q \<le> (of_int p :: rat)"
  proof -
    have "2 powi (?k - 1) * of_int q \<le> (2 powi (?k - 1) * 2 powi bitlen q :: rat)"
      using qb(2) by (intro mult_left_mono) simp_all
    also have "\<dots> = 2 powi (bitlen p - 1)" by (simp flip: power_int_add)
    also note pb(1)
    finally show ?thesis .
  qed
  then have lo: "2 powi (?k - 1) \<le> x" using q by (simp add: x pos_le_divide_eq)
  have "of_int p < (2 powi (?k + 1) * of_int q :: rat)"
  proof -
    have "of_int p < (2 powi bitlen p :: rat)" by (rule pb(2))
    also have "\<dots> = 2 powi (?k + 1) * 2 powi (bitlen q - 1)" by (simp flip: power_int_add)
    also have "\<dots> \<le> 2 powi (?k + 1) * of_int q" using qb(1) by (intro mult_left_mono) simp_all
    finally show ?thesis .
  qed
  then have hi: "x < 2 powi (?k + 1)" using q by (simp add: x pos_divide_less_eq)
  show "2 powi (binary_exponent x) \<le> x" "x < 2 powi (binary_exponent x + 1)"
    using lo hi by (auto simp: binary_exponent_def pq Let_def)
qed

text \<open>A number of the normal range is rounded with a relative error of at most \<open>2 ^ -53\<close>.\<close>

lemma round_f64_close:
  assumes "2 powi (- 1022) \<le> x" and "x < 2 ^ 1023"
  shows "\<exists>r. round_f64 x = Finite r \<and> \<bar>r - x\<bar> \<le> x / 2 ^ 53"
proof -
  have pos: "0 < x" using assms(1) by (rule less_le_trans [rotated]) simp
  let ?e = "binary_exponent x" and ?r = "of_int (round_half_even (x / ulp x)) * ulp x"
  note b = binary_exponent_bounds [OF pos]
  have "2 powi (- 1022) < (2 powi (?e + 1) :: rat)" using assms(1) b(2) by (rule le_less_trans)
  then have "- 1022 < ?e + 1" by (metis linorder_not_less power_int_increasing one_le_numeral)
  then have u: "ulp x = 2 powi (?e - 52)" using pos by (simp add: ulp_def)
  have "\<bar>?r - x\<bar> = \<bar>of_int (round_half_even (x / ulp x)) - x / ulp x\<bar> * ulp x"
  proof -
    have "0 < ulp x" by (simp add: u)
    moreover have "\<bar>n * v - x\<bar> = \<bar>n - x / v\<bar> * v" if "0 < v" for n v :: rat
    proof -
      have "n * v - x = (n - x / v) * v" using that by (simp add: left_diff_distrib)
      with that show ?thesis by (simp add: abs_mult)
    qed
    ultimately show ?thesis by blast
  qed
  also have "\<dots> \<le> 1 / 2 * ulp x"
    by (intro mult_right_mono round_half_even_close) (simp add: u)
  also have "\<dots> = 2 powi ?e / 2 ^ 53"
    by (simp add: u power_int_diff)
  also have "\<dots> \<le> x / 2 ^ 53" using b(1) by (intro divide_right_mono) simp_all
  finally have close: "\<bar>?r - x\<bar> \<le> x / 2 ^ 53" .
  moreover have "x / 2 ^ 53 < (2 ^ 1023 :: rat)" "(2 ^ 1023 :: rat) + 2 ^ 1023 = 2 ^ 1024"
    using assms(2) pos by (simp_all add: divide_less_eq)
  ultimately have "?r < 2 ^ 1024" "- (2 ^ 1024) < ?r" using assms(2) pos by linarith+
  with close show ?thesis by (simp add: round_f64_def Let_def)
qed

text \<open>Integers of up to 53 bits are exact.\<close>

lemma round_f64_nat:
  assumes "n < 2 ^ 53"
  shows "round_f64 (of_nat n) = Finite (of_nat n)"
proof (cases "n = 0")
  case False
  let ?x = "of_nat n :: rat"
  let ?e = "binary_exponent ?x"
  have pos: "0 < ?x" using False by simp
  note b = binary_exponent_bounds [OF pos]
  have "1 < (2 powi (?e + 1) :: rat)"
  proof -
    have "1 \<le> ?x" using False by (simp add: Suc_le_eq)
    then show ?thesis using b(2) by (rule le_less_trans)
  qed
  then have "0 < ?e + 1" by (metis linorder_not_less power_int_increasing power_int_0_right one_le_numeral)
  moreover have "2 powi ?e < (2 powi 53 :: rat)"
  proof -
    have "?x < of_nat (2 ^ 53)" using assms by (simp only: of_nat_less_iff)
    then show ?thesis using b(1) by simp
  qed
  then have "?e < 53" by (metis linorder_not_less power_int_increasing one_le_numeral)
  ultimately have u: "ulp ?x = 2 powi (?e - 52)" using False by (simp add: ulp_def)
  have "?x / ulp ?x = ?x * 2 powi (52 - ?e)"
    by (simp add: u power_int_diff)
  also have "\<dots> = of_int (int n * 2 ^ nat (52 - ?e))"
    using \<open>?e < 53\<close> by (simp add: power_int_def)
  finally have "round_half_even (?x / ulp ?x) = int n * 2 ^ nat (52 - ?e)"
    by (simp only: round_half_even_of_int)
  then have "of_int (round_half_even (?x / ulp ?x)) * ulp ?x = ?x / ulp ?x * ulp ?x"
    using \<open>?x / ulp ?x = ?x * 2 powi (52 - ?e)\<close> \<open>?e < 53\<close> by (simp add: power_int_def)
  also have "\<dots> = ?x" by (simp add: u)
  finally have "of_int (round_half_even (?x / ulp ?x)) * ulp ?x = ?x" .
  moreover have "?x < 2 ^ 1024"
  proof -
    have "?x < of_nat (2 ^ 53)" using assms by (simp only: of_nat_less_iff)
    also have "\<dots> \<le> (2 ^ 1024 :: rat)" by simp
    finally show ?thesis .
  qed
  ultimately show ?thesis using pos by (simp add: round_f64_def)
qed (simp add: round_f64_def ulp_def round_half_even_def)

lemma f64_of_nat_exact: "n < 2 ^ 53 \<Longrightarrow> f64_of_nat n = Finite (of_nat n)"
  by (simp add: f64_of_nat_def round_f64_nat)

end
