(* ===== verification/Bitrate.thy ===== *)
theory Bitrate
  imports Pacer_Props F64 Proto
begin

text \<open>
  The interval of the pacer for a bit rate (\<open>Pacer::from_bitrate_mbps\<close> of \<open>diode_send/src/main.rs\<close>),
  in the floating-point arithmetic of the code, and the rate the pacer keeps to.
\<close>

definition PACER_PACKET_BYTES :: nat where
  "PACER_PACKET_BYTES = HEADER_SIZE + CHUNK_SIZE"

definition interval_of_bitrate :: "f64 \<Rightarrow> nat" where
  "interval_of_bitrate mbps =
     (if f64_le_zero mbps then 0
      else let bits_per_packet = f64_mul (f64_of_nat PACER_PACKET_BYTES) (f64_of_nat 8);
               secs_per_packet = f64_div bits_per_packet (f64_mul mbps (f64_of_nat 1000000))
           in f64_as_u64 (f64_round (f64_mul secs_per_packet (f64_of_nat 1000000000))))"

definition from_bitrate_mbps :: "f64 \<Rightarrow> pacer" where
  "from_bitrate_mbps mbps = new_pacer (interval_of_bitrate mbps)"

section \<open>Rounding errors\<close>

definition near :: "rat \<Rightarrow> rat \<Rightarrow> rat \<Rightarrow> bool" where
  "near k x y \<longleftrightarrow> \<bar>x - y\<bar> \<le> k * y"

lemma near_trans:
  assumes "near j x y" and "near k y z" and "0 \<le> j" and "k \<le> 1" and "0 \<le> z"
  shows "near (2 * j + k) x z"
proof -
  have "j * y \<le> j * ((1 + k) * z)"
    using assms(2,3) by (intro mult_left_mono) (auto simp: near_def abs_le_iff algebra_simps)
  also have "\<dots> \<le> j * (2 * z)" using assms(3-5) by (intro mult_left_mono mult_right_mono) simp_all
  finally show ?thesis using assms(1,2) unfolding near_def by (simp add: algebra_simps)
qed

lemma near_scale: "near k x y \<Longrightarrow> 0 \<le> c \<Longrightarrow> near k (x * c) (y * c)"
  unfolding near_def by (simp add: abs_mult mult_right_mono flip: left_diff_distrib mult.assoc)

lemma near_inverse:
  assumes "near k x y" and "0 < y" and "0 \<le> k" and "k \<le> 1 / 2" and "0 \<le> c"
  shows "near (2 * k) (c / x) (c / y)"
proof -
  have "k * y \<le> 1 / 2 * y" using assms(2,4) by (intro mult_right_mono) simp_all
  then have x: "1 / 2 * y \<le> x" using assms(1) by (simp add: near_def abs_le_iff)
  then have pos: "0 < x" using assms(2) by simp
  have "\<bar>y - x\<bar> \<le> k * y" using assms(1) by (simp add: near_def abs_minus_commute)
  also have "\<dots> \<le> 2 * k * x" using x assms(3) mult_left_mono [OF x, of "2 * k"] by simp
  finally have "\<bar>y - x\<bar> / (x * y) * c \<le> 2 * k * x / (x * y) * c"
    using pos assms(2,5) by (intro mult_right_mono divide_right_mono) simp_all
  moreover have "c / x - c / y = (y - x) / (x * y) * c" using pos assms(2) by (simp add: field_simps)
  ultimately show ?thesis using pos assms(2,5) by (simp add: near_def abs_mult)
qed

lemma round_f64_near:
  assumes "1 / 2 ^ 100 \<le> x" and "x < 2 ^ 100"
  shows "\<exists>r. round_f64 x = Finite r \<and> near (1 / 2 ^ 53) r x"
proof -
  have "2 powi (- 1022) \<le> (1 / 2 ^ 100 :: rat)" by (simp add: power_int_def field_simps)
  then have "2 powi (- 1022) \<le> x" using assms(1) by (rule order_trans)
  moreover have "(2 ^ 100 :: rat) \<le> 2 ^ 1023" by simp
  then have "x < 2 ^ 1023" using assms(2) by (rule less_le_trans [rotated])
  ultimately show ?thesis using round_f64_close [of x] by (simp add: near_def)
qed

section \<open>The interval\<close>

lemma bits_per_packet: "f64_mul (f64_of_nat PACER_PACKET_BYTES) (f64_of_nat 8) = Finite 8120"
proof -
  have "f64_mul (f64_of_nat PACER_PACKET_BYTES) (f64_of_nat 8) = round_f64 (of_nat 8120)"
    by (simp add: f64_of_nat_exact PACER_PACKET_BYTES_def HEADER_SIZE_def CHUNK_SIZE_def)
  then show ?thesis using round_f64_nat [of 8120] by simp
qed

lemma interval_close:
  assumes "1 / 1000 \<le> m" and "m \<le> 10 ^ 9"
  shows "\<bar>of_nat (interval_of_bitrate (Finite m)) - 8120000 / m\<bar> < 1"
proof -
  let ?k = "1 / 2 ^ 53 :: rat"
  have pos: "0 < m" using assms(1) by simp
  have lits: "f64_of_nat 1000000 = Finite 1000000" "f64_of_nat 1000000000 = Finite 1000000000"
    using f64_of_nat_exact [of 1000000] f64_of_nat_exact [of 1000000000] by simp_all
  let ?p = "m * 1000000"
  obtain p where p: "round_f64 ?p = Finite p" "near ?k p ?p"
    using round_f64_near [of ?p] assms by auto
  have q: "near (2 * ?k) (8120 / p) (8120 / ?p)"
    using p(2) pos by (intro near_inverse) simp_all
  have "8120 / ?p \<le> 8120000 / 1000" "8120 / 10 ^ 15 \<le> 8120 / ?p"
    using assms pos by (simp_all add: field_simps)
  then have "1 / 2 ^ 100 \<le> 8120 / p" "8120 / p < 2 ^ 100"
    using q by (simp_all add: near_def abs_le_iff)
  then obtain s where s: "round_f64 (8120 / p) = Finite s" "near ?k s (8120 / p)"
    using round_f64_near by blast
  have "p \<noteq> 0" using p(2) pos by (auto simp: near_def)
  let ?I = "8120000 / m"
  have I: "?I = 8120 / ?p * 1000000000" "0 < ?I" "?I \<le> 8120000000" "8120 / 10 ^ 6 \<le> ?I"
    using assms pos by (simp_all add: field_simps)
  have "near (2 * ?k + 2 * ?k) s (8120 / ?p)"
    using near_trans [OF s(2) q] pos by simp
  then have t: "near (4 * ?k) (s * 1000000000) ?I"
    using near_scale [of "4 * ?k" s "8120 / ?p" 1000000000] unfolding I(1) by simp
  then have "1 / 2 ^ 100 \<le> s * 1000000000" "s * 1000000000 < 2 ^ 100"
    using I(2-4) by (simp_all add: near_def abs_le_iff)
  then obtain r where r: "round_f64 (s * 1000000000) = Finite r" "near ?k r (s * 1000000000)"
    using round_f64_near by blast
  have n: "near (2 * ?k + 4 * ?k) r ?I"
    using near_trans [OF r(2) t] I(2) by simp
  then have close: "\<bar>r - ?I\<bar> \<le> 1 / 10"
    using I(3) by (simp add: near_def)
  have r0: "0 \<le> r" "r < 10 ^ 10" using n I(2,3) by (simp_all add: near_def abs_le_iff)
  have "interval_of_bitrate (Finite m) = nat \<lfloor>r + 1 / 2\<rfloor>"
  proof -
    have "\<lfloor>r + 1 / 2\<rfloor> \<le> 10 ^ 10" "0 \<le> \<lfloor>r + 1 / 2\<rfloor>" using r0 by (simp_all add: floor_le_iff)
    then show ?thesis
      using pos r0(1) \<open>p \<noteq> 0\<close>
      by (simp add: interval_of_bitrate_def bits_per_packet lits p(1) s(1) r(1) f64_as_u64_def)
  qed
  moreover have "0 \<le> \<lfloor>r + 1 / 2\<rfloor>" using r0(1) by simp
  ultimately have "of_nat (interval_of_bitrate (Finite m)) = (of_int \<lfloor>r + 1 / 2\<rfloor> :: rat)" by simp
  then show ?thesis
    using close of_int_floor_le [of "r + 1 / 2"] floor_correct [of "r + 1 / 2"] by linarith
qed

section \<open>The rate\<close>

text \<open>C32. The bit rate. Made for \<open>m\<close> Mbit/s, the pacer lets through, of the calls that entered at \<open>A\<close>
  nanoseconds or later and returned by \<open>B\<close>, at most one more than the \<open>m\<close> Mbit/s of the window allow
  for packets of 1015 bytes (8120 bits take \<open>8120000 / m\<close> nanoseconds), up to one nanosecond per packet
  that floating point and rounding may lose. The interval is between 8 ns and 8.12 s.\<close>

theorem bitrate_capped:
  assumes "1 / 1000 \<le> m" and "m \<le> 10 ^ 6"
    and "pacer_reaches (from_bitrate_mbps (Finite m)) s" and "hd (deadlines s) < u64_max" and "A \<le> B"
  shows "of_nat (length (filter (\<lambda>(entered, slot, returned). A \<le> entered \<and> returned \<le> B) (finished s)))
      \<le> of_nat (B - A) / (8120000 / m - 1) + 1
    \<and> 7 < interval_of_bitrate (Finite m) \<and> interval_of_bitrate (Finite m) \<le> 8120000000"
proof -
  let ?d = "interval_of_bitrate (Finite m)" and ?I = "8120000 / m"
  let ?n = "length (filter (\<lambda>(entered, slot, returned). A \<le> entered \<and> returned \<le> B) (finished s))"
  have I: "8 + 12 / 100 \<le> ?I" "?I \<le> 8120000000" using assms(1,2) by (simp_all add: field_simps)
  have close: "\<bar>of_nat ?d - ?I\<bar> < 1" using interval_close [of m] assms(1,2) by simp
  then have "(7 :: rat) < of_nat ?d" "of_nat ?d < (8120000001 :: rat)" "?I - 1 \<le> of_nat ?d"
    using I unfolding abs_less_iff by linarith+
  then have d: "7 < ?d" "?d < 8120000001" "?I - 1 \<le> of_nat ?d"
    by (metis of_nat_less_iff of_nat_numeral)+
  then have "?n \<le> (B - A) div ?d + 1"
    using calls_in_window [OF assms(3) [unfolded from_bitrate_mbps_def] _ assms(4,5)] by simp
  then have "of_nat ?n \<le> (of_nat ((B - A) div ?d + 1) :: rat)" by (simp only: of_nat_le_iff)
  also have "\<dots> \<le> of_nat (B - A) / of_nat ?d + 1" using of_nat_div_le_of_nat [of "B - A" ?d] by simp
  also have "\<dots> \<le> of_nat (B - A) / (?I - 1) + 1"
    using d(3) I(1) by (intro add_right_mono divide_left_mono) simp_all
  finally show ?thesis using d(1,2) by simp
qed

text \<open>The two racing threads of \<open>Pacer_Props\<close>: at 81.2 Gbit/s the interval is 100 ns.\<close>

lemma race_bitrate: "from_bitrate_mbps (Finite 81200) = new_pacer 100"
proof -
  have "\<bar>of_nat (interval_of_bitrate (Finite 81200)) - (100 :: rat)\<bar> < 1"
    using interval_close [of 81200] by simp
  then have "(99 :: rat) < of_nat (interval_of_bitrate (Finite 81200))"
    "of_nat (interval_of_bitrate (Finite 81200)) < (101 :: rat)"
    unfolding abs_less_iff by linarith+
  then have "99 < interval_of_bitrate (Finite 81200)" "interval_of_bitrate (Finite 81200) < 101"
    by (metis of_nat_less_iff of_nat_numeral)+
  then have "interval_of_bitrate (Finite 81200) = 100" by linarith
  then show ?thesis by (simp add: from_bitrate_mbps_def)
qed

theorem bitrate_capped_witness:
  "of_nat (length (filter (\<lambda>(entered, slot, returned). 0 \<le> entered \<and> returned \<le> 150)
      (finished (race 150 [200, 100, 0] [0, 100] [(0, 0, 0), (0, 100, 150)] Outside Outside))))
      \<le> of_nat (150 - 0) / (8120000 / 81200 - 1 :: rat) + 1
    \<and> 7 < interval_of_bitrate (Finite 81200) \<and> interval_of_bitrate (Finite 81200) \<le> 8120000000"
  by (rule bitrate_capped)
    (simp_all add: race_bitrate u64_max_def reaches_trans [OF race_contended race_finished])

end
