(* ===== verification/Packet.thy ===== *)
theory Packet
  imports Proto
begin

text \<open>
  The receiver's packet decoder (\<open>decode_packet\<close> of \<open>diode_receive/src/main.rs\<close>) against the
  encoder of \<open>Proto\<close>: the round trip, the bounds every decoded packet meets whatever bytes
  arrived, and what becomes of a header whose number field overflows its ten digits.
\<close>

section \<open>Decoding\<close>

record packet =
  pkg_type :: nat
  count :: nat
  pkt_path_hash :: bytes
  pkt_data_hash :: bytes
  pkt_data :: bytes

definition decode_packet :: "bytes \<Rightarrow> packet option" where
  "decode_packet raw =
     (if length raw < HEADER_SIZE then None
      else case Option.bind (from_utf8 (take 1 raw)) (parse_uint u8_max) of
        None \<Rightarrow> None
      | Some t \<Rightarrow>
          (case Option.bind (from_utf8 (take 10 (drop 1 raw))) (parse_uint u64_max) of
             None \<Rightarrow> None
           | Some n \<Rightarrow>
               Some \<lparr>pkg_type = t, count = n,
                     pkt_path_hash = take 32 (drop 11 raw),
                     pkt_data_hash = take 32 (drop 43 raw),
                     pkt_data = drop 75 raw\<rparr>))"

text \<open>The packets the encoder can represent, and the encoder on packet records.\<close>

definition wire_ok :: "packet \<Rightarrow> bool" where
  "wire_ok p \<longleftrightarrow> pkg_type p < 10 \<and> count p < 10 ^ 10 \<and>
     length (pkt_path_hash p) = 32 \<and> length (pkt_data_hash p) = 32"

definition encode_record :: "packet \<Rightarrow> bytes" where
  "encode_record p =
     encode_packet (pkg_type p) (count p) (pkt_path_hash p) (pkt_data_hash p) (pkt_data p)"

section \<open>Facts\<close>

lemma parse_fmt_dec: "n \<le> maxv \<Longrightarrow> parse_uint maxv (fmt_dec n) = Some n"
  by (simp add: parse_uint_digits fmt_dec_digits)

lemma fmt_dec_digit: "t < 10 \<Longrightarrow> fmt_dec t = [digit t]"
  by (simp add: fmt_dec.simps)

lemma ten_digits_u64: "n < 10 ^ 10 \<Longrightarrow> n \<le> u64_max"
  by (simp add: u64_max_def)

text \<open>A header laid out field by field is decoded field by field.\<close>

lemma decode_fields:
  assumes "list_all is_digit tds" "length tds = 1" "list_all is_digit cds" "length cds = 10"
    and "length ph = 32" "length dh = 32"
  shows "decode_packet (tds @ cds @ ph @ dh @ payload) =
    Some \<lparr>pkg_type = digits_value 0 tds, count = digits_value 0 cds,
          pkt_path_hash = ph, pkt_data_hash = dh, pkt_data = payload\<rparr>"
proof -
  have "tds \<noteq> []" "cds \<noteq> []" using assms(2,4) by auto
  then have t: "parse_uint u8_max tds = Some (digits_value 0 tds)"
    and c: "parse_uint u64_max cds = Some (digits_value 0 cds)"
    using assms digits_value_bound [of tds 0] digits_value_bound [of cds 0]
    by (auto simp: parse_uint_digits u8_max_def u64_max_def)
  show ?thesis
    using assms t c by (simp add: decode_packet_def HEADER_SIZE_def from_utf8_def)
qed

lemma decode_encode_packet:
  assumes "t < 10" "n < 10 ^ 10" "length ph = 32" "length dh = 32"
  shows "decode_packet (encode_packet t n ph dh payload) =
    Some \<lparr>pkg_type = t, count = n, pkt_path_hash = ph, pkt_data_hash = dh, pkt_data = payload\<rparr>"
proof -
  have "length (fmt_zero_padded 10 n) = 10"
    using assms(2) by (simp add: length_fmt_zero_padded_fits)
  with assms decode_fields [of "fmt_dec t" "fmt_zero_padded 10 n" ph dh payload] show ?thesis
    by (simp add: encode_packet_eq fmt_zero_padded_digits fmt_dec_digit digits_value_def [of _ "[_]"])
qed

text \<open>Packets on the wire are an instance of the codec interface.\<close>

interpretation packets: codec encode_record decode_packet wire_ok
  by unfold_locales (simp add: encode_record_def wire_ok_def decode_encode_packet)

text \<open>What every packet that decodes satisfies.\<close>

lemma decode_packet_Some:
  assumes "decode_packet raw = Some p"
  shows "HEADER_SIZE \<le> length raw" "pkg_type p < 10" "count p < 10 ^ 10"
    "length (pkt_path_hash p) = 32" "length (pkt_data_hash p) = 32"
    "length (pkt_data p) + HEADER_SIZE = length raw"
proof -
  from assms obtain t n where len: "HEADER_SIZE \<le> length raw"
    and t: "parse_uint u8_max (take 1 raw) = Some t"
    and n: "parse_uint u64_max (take 10 (drop 1 raw)) = Some n"
    and p: "p = \<lparr>pkg_type = t, count = n, pkt_path_hash = take 32 (drop 11 raw),
      pkt_data_hash = take 32 (drop 43 raw), pkt_data = drop 75 raw\<rparr>"
    by (auto simp: decode_packet_def from_utf8_def split: if_splits option.splits bind_splits)
  have "t < 10" "n < 10 ^ 10"
    using parse_uint_bounds(2) [OF t] parse_uint_bounds(2) [OF n] len
    by (auto simp: HEADER_SIZE_def min_def split: if_splits)
  with len p show "HEADER_SIZE \<le> length raw" "pkg_type p < 10" "count p < 10 ^ 10"
    "length (pkt_path_hash p) = 32" "length (pkt_data_hash p) = 32"
    "length (pkt_data p) + HEADER_SIZE = length raw"
    by (auto simp: HEADER_SIZE_def min_def)
qed

section \<open>Properties\<close>

text \<open>C12. Round trip of the wire format: a packet whose type is one digit, whose number field is
  below \<open>10 ^ 10\<close> and whose hash fields have 32 bytes is decoded to exactly the fields it was
  encoded from, whatever the payload.\<close>

theorem packet_roundtrip:
  assumes "t < 10" "n < 10 ^ 10" "length ph = 32" "length dh = 32"
  shows "decode_packet (encode_packet t n ph dh payload) =
    Some \<lparr>pkg_type = t, count = n, pkt_path_hash = ph, pkt_data_hash = dh, pkt_data = payload\<rparr>"
  using packets.dec_enc [of "\<lparr>pkg_type = t, count = n, pkt_path_hash = ph, pkt_data_hash = dh,
    pkt_data = payload\<rparr>"] assms
  by (simp add: wire_ok_def encode_record_def)

theorem packet_roundtrip_witness:
  "decode_packet (encode_packet PKG_TYPE_END 7 EMPTY_HASH EMPTY_HASH (ascii ''a'')) =
    Some \<lparr>pkg_type = 2, count = 7, pkt_path_hash = EMPTY_HASH, pkt_data_hash = EMPTY_HASH,
          pkt_data = ascii ''a''\<rparr>"
proof -
  have "PKG_TYPE_END < 10" "(7::nat) < 10 ^ 10" "length EMPTY_HASH = 32"
    by (simp_all add: PKG_TYPE_END_def EMPTY_HASH_def)
  from packet_roundtrip [OF this this(3), of "ascii ''a''"] show ?thesis
    by (simp add: PKG_TYPE_END_def)
qed

text \<open>C13. Whatever bytes arrive, a packet that decodes has a one-digit type, a number field below
  \<open>10 ^ 10\<close>, two hash fields of exactly 32 bytes, and the rest of the datagram as its payload; a
  datagram shorter than the header never decodes.\<close>

theorem decode_packet_bounds:
  "case decode_packet raw of
     None \<Rightarrow> True
   | Some p \<Rightarrow> HEADER_SIZE \<le> length raw \<and> pkg_type p < 10 \<and> count p < 10 ^ 10
       \<and> length (pkt_path_hash p) = 32 \<and> length (pkt_data_hash p) = 32
       \<and> length (pkt_data p) + HEADER_SIZE = length raw"
  using decode_packet_Some [of raw] by (cases "decode_packet raw") simp_all

text \<open>C14. The number field is padded to ten digits but not limited to them. A number of eleven
  digits (a file of \<open>10 ^ 10\<close> bytes or more) shifts the rest of the header by one byte: the packet
  still decodes, with a tenth of the number, a path hash that starts with the number's last digit,
  and a payload that starts with the last byte of the second hash field.\<close>

theorem oversize_number_shifts_header:
  assumes "t < 10" "10 ^ 10 \<le> n" "n < 10 ^ 11" "length ph = 32" "length dh = 32"
  shows "decode_packet (encode_packet t n ph dh payload) =
    Some \<lparr>pkg_type = t, count = n div 10,
          pkt_path_hash = digit (n mod 10) # butlast ph,
          pkt_data_hash = last ph # butlast dh,
          pkt_data = last dh # payload\<rparr>"
proof -
  have ds: "fmt_zero_padded 10 n = fmt_dec (n div 10) @ [digit (n mod 10)]"
    and len: "length (fmt_dec (n div 10)) = 10"
  proof -
    have "length (fmt_dec (n div 10)) \<le> 10" "\<not> length (fmt_dec (n div 10)) \<le> 9"
      using assms(2,3) by (auto simp: length_fmt_dec_le_iff)
    then show len: "length (fmt_dec (n div 10)) = 10" by simp
    have "fmt_dec n = fmt_dec (n div 10) @ [digit (n mod 10)]"
      using assms(2) by (simp add: fmt_dec.simps [of n])
    with len show "fmt_zero_padded 10 n = fmt_dec (n div 10) @ [digit (n mod 10)]"
      by (simp add: fmt_zero_padded_def)
  qed
  have split: "ph = butlast ph @ [last ph]" "dh = butlast dh @ [last dh]"
    using assms(4,5) by (auto intro!: append_butlast_last_id [symmetric])
  have "encode_packet t n ph dh payload =
      fmt_dec t @ fmt_dec (n div 10) @ (digit (n mod 10) # butlast ph)
        @ (last ph # butlast dh) @ (last dh # payload)"
    by (subst split(1), subst split(2)) (simp add: encode_packet_eq ds)
  also have "decode_packet \<dots> = Some \<lparr>pkg_type = t, count = n div 10,
      pkt_path_hash = digit (n mod 10) # butlast ph, pkt_data_hash = last ph # butlast dh,
      pkt_data = last dh # payload\<rparr>"
    using assms(1,4,5) len
    by (subst decode_fields) (simp_all add: fmt_dec_digits fmt_dec_digit digits_value_def [of _ "[_]"])
  finally show ?thesis .
qed

theorem oversize_number_shifts_header_witness:
  "map_option (\<lambda>p. (count p, hd (pkt_path_hash p)))
     (decode_packet (encode_packet PKG_TYPE_START (10 ^ 10 + 5) EMPTY_HASH
       (encode_parity_field 100) (ascii ''f''))) = Some (10 ^ 9, digit 5)"
proof -
  have "PKG_TYPE_START < 10" "(10::nat) ^ 10 \<le> 10 ^ 10 + 5" "(10::nat) ^ 10 + 5 < 10 ^ 11"
    "length EMPTY_HASH = 32" "length (encode_parity_field 100) = 32"
    by (simp_all add: PKG_TYPE_START_def EMPTY_HASH_def length_encode_parity_field u64_max_def)
  from oversize_number_shifts_header [OF this] show ?thesis by simp
qed

end
