(* ===== verification/Btree.thy ===== *)
theory Btree
  imports Prelude
begin

text \<open>
  \<open>std::collections::BTreeMap\<close> with number keys: the interface the receiver's buffers rely on
  (locale \<open>ordered_map\<close>) and its instance on association lists in key order.
\<close>

section \<open>The interface\<close>

locale ordered_map =
  fixes emp :: "'m"
    and ins :: "nat \<Rightarrow> 'v \<Rightarrow> 'm \<Rightarrow> 'm"
    and get :: "'m \<Rightarrow> nat \<Rightarrow> 'v option"
    and entries :: "'m \<Rightarrow> (nat \<times> 'v) list"
    and invar :: "'m \<Rightarrow> bool"
  assumes invar_emp: "invar emp"
    and invar_ins: "invar m \<Longrightarrow> invar (ins k v m)"
    and get_emp: "get emp k = None"
    and get_ins: "invar m \<Longrightarrow> get (ins k v m) j = (if j = k then Some v else get m j)"
    and entries_get: "invar m \<Longrightarrow> map_of (entries m) k = get m k"
    and entries_sorted: "invar m \<Longrightarrow> sorted_wrt (<) (map fst (entries m))"
begin

lemma entries_distinct: "invar m \<Longrightarrow> distinct (map fst (entries m))"
  using entries_sorted [of m] by (simp add: strict_sorted_iff)

lemma entries_set: "invar m \<Longrightarrow> (k, v) \<in> set (entries m) \<longleftrightarrow> get m k = Some v"
  using entries_distinct [of m] entries_get [of m k]
  by (metis map_of_eq_Some_iff)

lemma keys_dom: "invar m \<Longrightarrow> set (map fst (entries m)) = dom (get m)"
proof -
  assume "invar m"
  then have "map_of (entries m) = get m" by (intro ext) (rule entries_get)
  then show ?thesis using dom_map_of_conv_image_fst [of "entries m"] by simp
qed

lemma length_entries: "invar m \<Longrightarrow> length (entries m) = card (dom (get m))"
  using distinct_card [OF entries_distinct, of m] keys_dom [of m] by simp

lemma finite_dom_get: "invar m \<Longrightarrow> finite (dom (get m))"
  using keys_dom [of m] by (metis finite_set)

lemma dom_ins: "invar m \<Longrightarrow> dom (get (ins k v m)) = insert k (dom (get m))"
  by (auto simp: dom_def get_ins split: if_splits)

lemma length_ins_fresh:
  "invar m \<Longrightarrow> get m k = None \<Longrightarrow> length (entries (ins k v m)) = Suc (length (entries m))"
  by (auto simp: length_entries invar_ins dom_ins finite_dom_get card_insert_if domIff)

text \<open>The entries are determined by the lookups.\<close>

lemma entries_eq_map:
  assumes "invar m"
  shows "entries m = map (\<lambda>k. (k, the (get m k))) (map fst (entries m))"
proof -
  have "x = (fst x, the (get m (fst x)))" if "x \<in> set (entries m)" for x
    using that entries_set [OF assms, of "fst x" "snd x"] by simp
  then show ?thesis by (simp add: map_idI)
qed

lemma entries_eqI:
  assumes "invar m" "invar m'" "\<And>k. get m k = get m' k"
  shows "entries m = entries m'"
proof -
  have "map fst (entries m) = map fst (entries m')"
    using assms keys_dom [OF assms(1)] keys_dom [OF assms(2)]
    by (intro strict_sorted_equal entries_sorted) (auto simp: dom_def)
  then show ?thesis
    using entries_eq_map [OF assms(1)] entries_eq_map [OF assms(2)] assms(3) by simp
qed

text \<open>A weight summed over the entries grows by the weight of a fresh entry.\<close>

definition weight :: "('v \<Rightarrow> nat) \<Rightarrow> 'm \<Rightarrow> nat" where
  "weight g m = (\<Sum>e\<leftarrow>entries m. g (snd e))"

lemma weight_sum: "invar m \<Longrightarrow> weight g m = (\<Sum>k\<in>dom (get m). g (the (get m k)))"
proof -
  assume m: "invar m"
  have "weight g m = (\<Sum>k\<leftarrow>map fst (entries m). g (the (get m k)))"
    unfolding weight_def by (subst entries_eq_map [OF m]) (simp add: comp_def)
  also have "\<dots> = (\<Sum>k\<in>set (map fst (entries m)). g (the (get m k)))"
    by (rule sum_list_distinct_conv_sum_set [OF entries_distinct [OF m]])
  finally show ?thesis by (simp only: keys_dom [OF m])
qed

lemma weight_emp: "weight g emp = 0"
  using keys_dom [OF invar_emp] by (simp add: weight_sum invar_emp get_emp dom_def)

lemma weight_ins_fresh:
  assumes "invar m" "get m k = None"
  shows "weight g (ins k v m) = g v + weight g m"
proof -
  have k: "k \<notin> dom (get m)" using assms(2) by auto
  have "(\<Sum>j\<in>dom (get m). g (the (get (ins k v m) j))) = (\<Sum>j\<in>dom (get m). g (the (get m j)))"
    using k by (intro sum.cong) (auto simp: get_ins assms(1))
  with k show ?thesis
    by (simp add: weight_sum invar_ins assms(1) dom_ins finite_dom_get get_ins)
qed

end

section \<open>The instance\<close>

type_synonym 'v btree = "(nat \<times> 'v) list"

fun bt_insert :: "nat \<Rightarrow> 'v \<Rightarrow> 'v btree \<Rightarrow> 'v btree" where
  "bt_insert k v [] = [(k, v)]"
| "bt_insert k v ((j, w) # m) =
     (if k < j then (k, v) # (j, w) # m
      else if k = j then (k, v) # m
      else (j, w) # bt_insert k v m)"

definition bt_get :: "'v btree \<Rightarrow> nat \<Rightarrow> 'v option" where
  "bt_get m k = map_of m k"

definition bt_inv :: "'v btree \<Rightarrow> bool" where
  "bt_inv m \<longleftrightarrow> sorted_wrt (<) (map fst m)"

text \<open>\<open>collect()\<close> of an iterator of pairs.\<close>

definition bt_collect :: "(nat \<times> 'v) list \<Rightarrow> 'v btree" where
  "bt_collect es = foldl (\<lambda>m (k, v). bt_insert k v m) [] es"

lemma set_bt_insert: "set (map fst (bt_insert k v m)) = insert k (set (map fst m))"
  by (induction k v m rule: bt_insert.induct) auto

lemma bt_inv_insert: "bt_inv m \<Longrightarrow> bt_inv (bt_insert k v m)"
  unfolding bt_inv_def
proof (induction k v m rule: bt_insert.induct)
  case (2 k v j w m)
  then show ?case using set_bt_insert [of k v m] by auto
qed simp

lemma bt_get_insert: "bt_inv m \<Longrightarrow> bt_get (bt_insert k v m) j = (if j = k then Some v else bt_get m j)"
  unfolding bt_inv_def bt_get_def
  by (induction k v m rule: bt_insert.induct) (auto split: if_splits)

interpretation bt: ordered_map "[]" bt_insert bt_get "\<lambda>m. m" bt_inv
  by unfold_locales (simp_all add: bt_inv_insert bt_get_insert, simp_all add: bt_inv_def bt_get_def)

lemma bt_collect_gets:
  assumes "bt_inv m"
  shows "bt_inv (foldl (\<lambda>m (k, v). bt_insert k v m) m es)"
    and "k \<notin> fst ` set es \<Longrightarrow> bt_get (foldl (\<lambda>m (k, v). bt_insert k v m) m es) k = bt_get m k"
  using assms by (induction es arbitrary: m) (auto simp: bt_inv_insert bt_get_insert)

lemma bt_get_collect:
  assumes "distinct (map fst es)"
  shows "bt_get (bt_collect es) k = map_of es k"
proof -
  have "bt_get (foldl (\<lambda>m (k, v). bt_insert k v m) m es) k =
      (case map_of es k of Some v \<Rightarrow> Some v | None \<Rightarrow> bt_get m k)" if "bt_inv m" for m
    using assms that
  proof (induction es arbitrary: m)
    case (Cons e es)
    then show ?case
      using bt_collect_gets(2) [of "bt_insert (fst e) (snd e) m" "fst e" es]
      by (cases e) (auto simp: bt_inv_insert bt_get_insert split: option.splits)
  qed simp
  from this [of "[]"] show ?thesis
    by (simp add: bt_collect_def bt.invar_emp bt.get_emp split: option.split)
qed

end
