(* ===== verification/Fs.thy ===== *)
theory Fs
  imports Rpath
begin

text \<open>
  The operating system's files as the program sees them through \<open>std::fs\<close>: a tree of
  directories and regular files addressed by resolved names, without symbolic links, and a
  schedule of the failures the environment injects. Every fallible call takes the next entry of
  the schedule: \<open>None\<close> lets it proceed, \<open>Some n\<close> makes it fail with an error of the
  operating system after \<open>n\<close> units of its work (bytes of a write, directories of a
  \<open>create_dir_all\<close>); past its end nothing fails. A call can also fail for a reason in the tree
  itself. All of this theory models the standard library and the system, not the repository.
\<close>

section \<open>State\<close>

datatype node = Dir | Reg bytes

record fs =
  nodes :: "bytes list \<rightharpoonup> node"
  faults :: "nat option list"

definition next_fault :: "fs \<Rightarrow> nat option \<times> fs" where
  "next_fault f = (case faults f of [] \<Rightarrow> (None, f) | x # xs \<Rightarrow> (x, f\<lparr>faults := xs\<rparr>))"

definition is_dir :: "fs \<Rightarrow> bytes list \<Rightarrow> bool" where
  "is_dir f p \<longleftrightarrow> p = [] \<or> nodes f p = Some Dir"

definition reg_content :: "fs \<Rightarrow> bytes list \<Rightarrow> bytes option" where
  "reg_content f p = (case nodes f p of Some (Reg c) \<Rightarrow> Some c | _ \<Rightarrow> None)"

definition put_node :: "bytes list \<Rightarrow> node option \<Rightarrow> fs \<Rightarrow> fs" where
  "put_node p n f = f\<lparr>nodes := (nodes f)(p := n)\<rparr>"

section \<open>Calls\<close>

text \<open>\<open>fs::remove_file\<close>: whether it succeeded, and the tree after it.\<close>

definition remove_file :: "bytes \<Rightarrow> fs \<Rightarrow> bool \<times> fs" where
  "remove_file p f =
     (case next_fault f of (Some _, f') \<Rightarrow> (False, f')
      | (None, f') \<Rightarrow>
         (case nodes f' (resolve p) of
            Some (Reg _) \<Rightarrow>
              if dir_form p then (False, f') else (True, put_node (resolve p) None f')
          | _ \<Rightarrow> (False, f')))"

text \<open>\<open>fs::create_dir_all\<close> on the names of a directory: every missing prefix is created.\<close>

fun make_dirs :: "bytes list list \<Rightarrow> fs \<Rightarrow> bool \<times> fs" where
  "make_dirs [] f = (True, f)"
| "make_dirs (d # ds) f =
     (case nodes f d of
        Some Dir \<Rightarrow> make_dirs ds f
      | Some (Reg _) \<Rightarrow> (False, f)
      | None \<Rightarrow> make_dirs ds (put_node d (Some Dir) f))"

definition proper_prefixes :: "bytes list \<Rightarrow> bytes list list" where
  "proper_prefixes p = map (\<lambda>k. take k p) [1..<Suc (length p)]"

definition create_dir_all :: "bytes list \<Rightarrow> fs \<Rightarrow> bool \<times> fs" where
  "create_dir_all p f =
     (case next_fault f of
        (None, f') \<Rightarrow> make_dirs (proper_prefixes p) f'
      | (Some n, f') \<Rightarrow> (False, snd (make_dirs (take n (proper_prefixes p)) f')))"

text \<open>
  \<open>OpenOptions::new().create(true).write(true)\<close> with or without \<open>truncate\<close>, and the
  handle it gives: the names it was opened under and the write position. Writing through a
  handle whose file has been unlinked succeeds and is seen by nobody.
\<close>

record handle =
  h_path :: "bytes list"
  h_pos :: nat

definition open_write :: "bool \<Rightarrow> bytes \<Rightarrow> fs \<Rightarrow> handle option \<times> fs" where
  "open_write trunc p f =
     (let q = resolve p; h = \<lparr>h_path = q, h_pos = 0\<rparr> in
      case next_fault f of (Some _, f') \<Rightarrow> (None, f')
      | (None, f') \<Rightarrow>
         if q = [] \<or> dir_form p \<or> \<not> is_dir f' (butlast q) then (None, f')
         else (case nodes f' q of
                 Some Dir \<Rightarrow> (None, f')
               | Some (Reg c) \<Rightarrow> (Some h, if trunc then put_node q (Some (Reg [])) f' else f')
               | None \<Rightarrow> (Some h, put_node q (Some (Reg [])) f')))"

definition update_reg :: "bytes list \<Rightarrow> (bytes \<Rightarrow> bytes) \<Rightarrow> fs \<Rightarrow> fs" where
  "update_reg p g f =
     (case nodes f p of Some (Reg c) \<Rightarrow> put_node p (Some (Reg (g c))) f | _ \<Rightarrow> f)"

text \<open>\<open>File::set_len\<close>: cut off, or extended with zeros.\<close>

definition resize :: "nat \<Rightarrow> bytes \<Rightarrow> bytes" where
  "resize n c = take n c @ replicate (n - length c) 0"

definition set_len :: "handle \<Rightarrow> nat \<Rightarrow> fs \<Rightarrow> bool \<times> fs" where
  "set_len h n f =
     (case next_fault f of (Some _, f') \<Rightarrow> (False, f')
      | (None, f') \<Rightarrow> (True, update_reg (h_path h) (resize n) f'))"

text \<open>\<open>seek(SeekFrom::Start(off))\<close> and \<open>write_all\<close>.\<close>

definition seek_start :: "handle \<Rightarrow> nat \<Rightarrow> fs \<Rightarrow> bool \<times> handle \<times> fs" where
  "seek_start h off f =
     (case next_fault f of (Some _, f') \<Rightarrow> (False, h, f')
      | (None, f') \<Rightarrow> (True, h\<lparr>h_pos := off\<rparr>, f'))"

definition overwrite :: "nat \<Rightarrow> bytes \<Rightarrow> bytes \<Rightarrow> bytes" where
  "overwrite pos d c =
     (if d = [] then c
      else take pos c @ replicate (pos - length c) 0 @ d @ drop (pos + length d) c)"

definition write_all :: "handle \<Rightarrow> bytes \<Rightarrow> fs \<Rightarrow> bool \<times> handle \<times> fs" where
  "write_all h d f =
     (let (ok, w, f') = (case next_fault f of (None, f') \<Rightarrow> (True, d, f')
                         | (Some n, f') \<Rightarrow> (False, take n d, f'))
      in (ok, h\<lparr>h_pos := h_pos h + length w\<rparr>, update_reg (h_path h) (overwrite (h_pos h) w) f'))"

text \<open>
  \<open>fs::rename\<close> of a regular file onto a name that is free or names a regular file. The
  receiver only ever renames the regular file it has open, so renaming a directory is left out:
  it is an error here.
\<close>

definition rename_file :: "bytes \<Rightarrow> bytes \<Rightarrow> fs \<Rightarrow> bool \<times> fs" where
  "rename_file from to f =
     (case next_fault f of (Some _, f') \<Rightarrow> (False, f')
      | (None, f') \<Rightarrow>
         (case nodes f' (resolve from) of
            Some (Reg c) \<Rightarrow>
              if dir_form from \<or> dir_form to \<or> resolve to = [] \<or> \<not> is_dir f' (butlast (resolve to))
                 \<or> nodes f' (resolve to) = Some Dir
              then (False, f')
              else (True, put_node (resolve to) (Some (Reg c)) (put_node (resolve from) None f'))
          | _ \<Rightarrow> (False, f')))"

definition path_exists :: "bytes \<Rightarrow> fs \<Rightarrow> bool" where
  "path_exists p f =
     (case nodes f (resolve p) of
        None \<Rightarrow> resolve p = []
      | Some Dir \<Rightarrow> True
      | Some (Reg _) \<Rightarrow> \<not> dir_form p)"

section \<open>Facts\<close>

text \<open>
  Frame: a call leaves every name alone except the ones it is about. \<open>same_except P f g\<close>: the
  trees agree on every name outside \<open>P\<close>.
\<close>

definition same_except :: "(bytes list \<Rightarrow> bool) \<Rightarrow> fs \<Rightarrow> fs \<Rightarrow> bool" where
  "same_except P f g \<longleftrightarrow> (\<forall>p. \<not> P p \<longrightarrow> nodes g p = nodes f p)"

lemma same_except_refl [simp, intro]: "same_except P f f"
  by (simp add: same_except_def)

lemma same_except_trans [trans]:
  "same_except P f g \<Longrightarrow> same_except P g h \<Longrightarrow> same_except P f h"
  by (simp add: same_except_def)

lemma same_exceptD: "same_except P f g \<Longrightarrow> \<not> P p \<Longrightarrow> nodes g p = nodes f p"
  by (simp add: same_except_def)

lemma same_except_mono: "same_except P f g \<Longrightarrow> (\<And>p. P p \<Longrightarrow> Q p) \<Longrightarrow> same_except Q f g"
  by (auto simp: same_except_def)

lemma same_except_put [simp]: "P p \<Longrightarrow> same_except P f (put_node p n g) = same_except P f g"
  by (auto simp: same_except_def put_node_def)

lemma nodes_put_node [simp]: "nodes (put_node p n f) q = (if q = p then n else nodes f q)"
  by (simp add: put_node_def)

lemma nodes_next_fault [simp]: "nodes (snd (next_fault f)) = nodes f"
  by (simp add: next_fault_def split: list.splits)

lemma next_fault_nodes: "next_fault f = (x, f') \<Longrightarrow> nodes f' = nodes f"
  using nodes_next_fault [of f] by simp

lemma next_fault_same: "next_fault f = (x, f') \<Longrightarrow> same_except P g f' = same_except P g f"
  by (simp add: same_except_def next_fault_nodes)

lemma same_except_update_reg [simp]:
  "P p \<Longrightarrow> same_except P f (update_reg p g h) = same_except P f h"
  by (simp add: update_reg_def split: option.splits node.splits)

lemma nodes_update_reg_other [simp]: "q \<noteq> p \<Longrightarrow> nodes (update_reg p g f) q = nodes f q"
  by (simp add: update_reg_def split: option.splits node.splits)

lemma remove_file_frame [frame]:
  "P (resolve p) \<Longrightarrow> same_except P f (snd (remove_file p f))"
  by (auto simp: remove_file_def next_fault_same split: prod.splits option.splits node.splits)

lemma make_dirs_frame:
  "(\<And>d. d \<in> set ds \<Longrightarrow> nodes f d \<noteq> Some Dir \<Longrightarrow> P d) \<Longrightarrow> same_except P f (snd (make_dirs ds f))"
proof (induction ds f rule: make_dirs.induct)
  case (2 d ds f)
  show ?case
  proof (cases "nodes f d")
    case None
    have "P d" using "2.prems" [of d] None by simp
    moreover have "same_except P (put_node d (Some Dir) f) (snd (make_dirs ds (put_node d (Some Dir) f)))"
      using None "2.prems" by (intro "2.IH") (auto split: if_splits)
    ultimately show ?thesis
      using None same_except_trans [of P f "put_node d (Some Dir) f"] by simp
  next
    case (Some n)
    with 2 show ?thesis by (cases n) auto
  qed
qed simp

lemma create_dir_all_frame [frame]:
  assumes "\<And>d. d \<in> set (proper_prefixes p) \<Longrightarrow> nodes f d \<noteq> Some Dir \<Longrightarrow> P d"
  shows "same_except P f (snd (create_dir_all p f))"
proof -
  obtain x f' where nf: "next_fault f = (x, f')" by force
  have "same_except P f' (snd (make_dirs ds f'))" if "set ds \<subseteq> set (proper_prefixes p)" for ds
    using assms that next_fault_nodes [OF nf] by (intro make_dirs_frame) auto
  from this [of "proper_prefixes p"] this [of "take n (proper_prefixes p)" for n] nf
  show ?thesis
    by (cases x) (auto simp: create_dir_all_def same_except_def next_fault_nodes dest: in_set_takeD)
qed

end
