(* ===== verification/Receiver.thy ===== *)
theory Receiver
  imports Packet Btree Fs
begin

text \<open>
  The receiver's file transfer (\<open>diode_receive/src/main.rs\<close>, lines 97 to 588): the state of a
  transfer, the chunk checks, the batch buffers, and the operations that open, finalise and finish
  a file. The Reed-Solomon decoder comes from the \<open>reed-solomon-simd\<close> crate and is a parameter,
  a record of its four calls; the MD5 digest is a parameter as in \<open>Proto\<close>. What is
  logged is in \<open>Worker_Log\<close>; the filter applied to what it quotes is here.
\<close>

section \<open>Log filter\<close>

definition is_ascii_graphic :: "bytes \<Rightarrow> bool" where
  "is_ascii_graphic c \<longleftrightarrow> length c = 1 \<and> 0x21 \<le> hd c \<and> hd c \<le> 0x7E"

definition log_safe :: "bytes \<Rightarrow> bytes" where
  "log_safe s = concat (filter (\<lambda>c. is_ascii_graphic c \<or> c = [0x20] \<or> c = [0x09]) (str_chars s))"

definition BUFFER_BYTE_LIMIT :: nat where
  "BUFFER_BYTE_LIMIT = 8 * 1024 * 1024"

lemmas [const_defs] = BUFFER_BYTE_LIMIT_def

section \<open>State\<close>

record receive_state =
  bytes_transferred :: nat
  file_path :: "bytes option"
  file_size :: nat
  parity_per_batch :: nat
  path_hash :: "bytes option"
  current_batch :: nat
  data_buffer :: "bytes btree"
  parity_buffer :: "bytes btree"
  bytes_buffered :: nat
  failed :: bool
  output_file :: "handle option"

definition new_receive_state :: receive_state where
  "new_receive_state =
     \<lparr>bytes_transferred = 0, file_path = None, file_size = 0, parity_per_batch = 0,
      path_hash = None, current_batch = 0, data_buffer = [], parity_buffer = [],
      bytes_buffered = 0, failed = False, output_file = None\<rparr>"

record stats =
  files_transferred :: nat
  files_failed :: nat
  total_transferred :: nat

definition new_stats :: stats where
  "new_stats = \<lparr>files_transferred = 0, files_failed = 0, total_transferred = 0\<rparr>"

section \<open>Chunks and batches\<close>

definition is_chunk_valid :: "(bytes \<Rightarrow> bytes) \<Rightarrow> packet \<Rightarrow> receive_state \<Rightarrow> nat \<Rightarrow> bool" where
  "is_chunk_valid md5 p st t =
     (if (case path_hash st of None \<Rightarrow> False | Some ph \<Rightarrow> pkt_path_hash p \<noteq> ph) then False
      else if t = PKG_TYPE_DATA \<and> \<not> (1 \<le> length (pkt_data p) \<and> length (pkt_data p) \<le> CHUNK_SIZE)
      then False
      else if t = PKG_TYPE_PARITY \<and> length (pkt_data p) \<noteq> SHARD_SIZE then False
      else md5_hex md5 (pkt_data p) = pkt_data_hash p)"

definition batch_for_data :: "nat \<Rightarrow> nat" where
  "batch_for_data n = n div BATCH_DATA_CHUNKS"

definition batch_for_parity :: "nat \<Rightarrow> nat" where
  "batch_for_parity n = n div BATCH_PARITY_CHUNKS"

definition batch_data_size :: "nat \<Rightarrow> nat \<Rightarrow> nat" where
  "batch_data_size batch_idx fsize =
     (let total_chunks = div_ceil fsize CHUNK_SIZE;
          start = mul64 batch_idx BATCH_DATA_CHUNKS
      in if start \<ge> total_chunks then 0 else min (total_chunks - start) BATCH_DATA_CHUNKS)"

definition buffer_data :: "receive_state \<Rightarrow> stats \<Rightarrow> packet \<Rightarrow> receive_state \<times> stats" where
  "buffer_data st ss p =
     (if bt_get (data_buffer st) (count p) \<noteq> None then (st, ss)
      else if sat_add64 (bytes_buffered st) (length (pkt_data p)) > BUFFER_BYTE_LIMIT
      then (st\<lparr>failed := True\<rparr>, ss)
      else (st\<lparr>bytes_buffered := sat_add64 (bytes_buffered st) (length (pkt_data p)),
              bytes_transferred := sat_add64 (bytes_transferred st) (length (pkt_data p)),
              data_buffer := bt_insert (count p) (pkt_data p) (data_buffer st)\<rparr>,
            ss\<lparr>total_transferred := sat_add64 (total_transferred ss) (length (pkt_data p))\<rparr>))"

definition buffer_parity :: "receive_state \<Rightarrow> packet \<Rightarrow> nat \<Rightarrow> receive_state" where
  "buffer_parity st p idx_in_batch =
     (if bt_get (parity_buffer st) idx_in_batch \<noteq> None then st
      else if sat_add64 (bytes_buffered st) (length (pkt_data p)) > BUFFER_BYTE_LIMIT
      then st\<lparr>failed := True\<rparr>
      else st\<lparr>bytes_buffered := sat_add64 (bytes_buffered st) (length (pkt_data p)),
             parity_buffer := bt_insert idx_in_batch (pkt_data p) (parity_buffer st)\<rparr>)"

definition reset_transfer :: "stats \<Rightarrow> receive_state \<Rightarrow> bool \<Rightarrow> receive_state \<times> stats" where
  "reset_transfer ss st success =
     (new_receive_state,
      case file_path st of
        None \<Rightarrow> ss
      | Some _ \<Rightarrow> if success then ss\<lparr>files_transferred := add64 (files_transferred ss) 1\<rparr>
                  else ss\<lparr>files_failed := add64 (files_failed ss) 1\<rparr>)"

section \<open>Files of a transfer\<close>

definition failed_name :: "bytes \<Rightarrow> bytes" where
  "failed_name rel = rel @ ascii ''.failed''"

definition partial_name :: "bytes \<Rightarrow> bytes" where
  "partial_name rel = rel @ ascii ''.partial''"

definition create_parent :: "bytes \<Rightarrow> fs \<Rightarrow> bool \<times> fs" where
  "create_parent p f = (case parent_dir p of None \<Rightarrow> (True, f) | Some d \<Rightarrow> create_dir_all d f)"

definition mark_failure :: "bytes \<Rightarrow> bytes \<Rightarrow> fs \<Rightarrow> fs" where
  "mark_failure out rel_path f =
     (let f = snd (remove_file (path_join out rel_path) f);
          failed_path = path_join out (failed_name rel_path);
          f = snd (create_parent failed_path f)
      in snd (open_write False failed_path f))"

definition partial_path :: "bytes \<Rightarrow> bytes \<Rightarrow> bytes" where
  "partial_path out rel_path = path_join out (partial_name rel_path)"

definition open_output_file :: "bytes \<Rightarrow> bytes \<Rightarrow> nat \<Rightarrow> fs \<Rightarrow> handle option \<times> fs" where
  "open_output_file out rel_path fsize f =
     (let full = partial_path out rel_path; (made, f) = create_parent full f
      in if \<not> made then (None, f)
         else case open_write True full f of
           (None, f) \<Rightarrow> (None, f)
         | (Some h, f) \<Rightarrow>
             if fsize > 0
             then (case set_len h fsize f of (True, f) \<Rightarrow> (Some h, f) | (False, f) \<Rightarrow> (None, f))
             else (Some h, f))"

section \<open>Reconstructing and writing a batch\<close>

text \<open>
  The calls of the \<open>reed-solomon-simd\<close> decoder the receiver makes; \<open>None\<close> is an error of
  the crate. \<open>dec_decode\<close> gives the restored original shards with their indices.
\<close>

record 'd fec_decoder =
  dec_new :: "nat \<Rightarrow> nat \<Rightarrow> nat \<Rightarrow> 'd option"
  dec_add_original :: "'d \<Rightarrow> nat \<Rightarrow> bytes \<Rightarrow> 'd option"
  dec_add_recovery :: "'d \<Rightarrow> nat \<Rightarrow> bytes \<Rightarrow> 'd option"
  dec_decode :: "'d \<Rightarrow> (nat \<times> bytes) list option"

text \<open>The error cases of \<open>finalize_current_batch\<close>, which the code tells apart by message.\<close>

datatype finalize_error =
  FecDisabled | Insufficient | DecoderNew | AddOriginal nat | AddRecovery nat | DecodeFailed
  | NoOutputFile | SeekFailed | ChunkTooShort nat | RestoredTooShort nat | StillMissing nat
  | WriteFailed

definition pad_shard :: "bytes \<Rightarrow> bytes" where
  "pad_shard d = take SHARD_SIZE d @ replicate (SHARD_SIZE - min (length d) SHARD_SIZE) 0"

fun add_originals ::
  "'d fec_decoder \<Rightarrow> nat \<Rightarrow> nat \<Rightarrow> (nat \<times> bytes) list \<Rightarrow> 'd \<Rightarrow> finalize_error + 'd" where
  "add_originals fec data_size start [] d = Inr d"
| "add_originals fec data_size start ((abs_idx, data) # es) d =
     (let idx_in_batch = abs_idx - start
      in if idx_in_batch \<ge> data_size then add_originals fec data_size start es d
         else case dec_add_original fec d idx_in_batch (pad_shard data) of
                None \<Rightarrow> Inl (AddOriginal idx_in_batch)
              | Some d \<Rightarrow> add_originals fec data_size start es d)"

fun add_recoveries ::
  "'d fec_decoder \<Rightarrow> nat \<Rightarrow> (nat \<times> bytes) list \<Rightarrow> 'd \<Rightarrow> finalize_error + 'd" where
  "add_recoveries fec ppb [] d = Inr d"
| "add_recoveries fec ppb ((idx, data) # es) d =
     (if idx \<ge> ppb \<or> length data < SHARD_SIZE then add_recoveries fec ppb es d
      else case dec_add_recovery fec d idx (take SHARD_SIZE data) of
             None \<Rightarrow> Inl (AddRecovery idx)
           | Some d \<Rightarrow> add_recoveries fec ppb es d)"

definition restore_missing ::
  "'d fec_decoder \<Rightarrow> receive_state \<Rightarrow> nat \<Rightarrow> nat \<Rightarrow> finalize_error + bytes btree" where
  "restore_missing fec st data_size batch_start =
     (let ppb = parity_per_batch st;
          data_received = length (data_buffer st);
          parity_received = length (parity_buffer st)
      in if data_received \<ge> data_size then Inr []
         else if ppb = 0 then Inl FecDisabled
         else if data_received + parity_received < data_size then Inl Insufficient
         else case dec_new fec data_size ppb SHARD_SIZE of
           None \<Rightarrow> Inl DecoderNew
         | Some d \<Rightarrow>
             (case add_originals fec data_size batch_start (data_buffer st) d of
                Inl e \<Rightarrow> Inl e
              | Inr d \<Rightarrow>
                  (case add_recoveries fec ppb (parity_buffer st) d of
                     Inl e \<Rightarrow> Inl e
                   | Inr d \<Rightarrow>
                       (case dec_decode fec d of
                          None \<Rightarrow> Inl DecodeFailed
                        | Some restored \<Rightarrow> Inr (bt_collect restored)))))"

text \<open>The bytes written for chunk \<open>i\<close> of the batch.\<close>

definition select_chunk ::
  "bytes btree \<Rightarrow> bytes btree \<Rightarrow> nat \<Rightarrow> nat \<Rightarrow> nat \<Rightarrow> nat \<Rightarrow> finalize_error + bytes" where
  "select_chunk buffer restored batch_start total_chunks last_len i =
     (let abs_idx = batch_start + i;
          expected_len = (if batch_start + i + 1 = total_chunks then last_len else CHUNK_SIZE)
      in case bt_get buffer abs_idx of
           Some data \<Rightarrow>
             if length data < expected_len then Inl (ChunkTooShort abs_idx)
             else Inr (take expected_len data)
         | None \<Rightarrow>
             (case bt_get restored i of
                Some shard \<Rightarrow>
                  if length shard < expected_len then Inl (RestoredTooShort abs_idx)
                  else Inr (take expected_len shard)
              | None \<Rightarrow> Inl (StillMissing abs_idx)))"

fun write_chunks ::
  "(nat \<Rightarrow> finalize_error + bytes) \<Rightarrow> nat list \<Rightarrow> handle \<Rightarrow> fs
     \<Rightarrow> (finalize_error + unit) \<times> handle \<times> fs" where
  "write_chunks chunk_of [] h f = (Inr (), h, f)"
| "write_chunks chunk_of (i # is) h f =
     (case chunk_of i of
        Inl e \<Rightarrow> (Inl e, h, f)
      | Inr chunk \<Rightarrow>
          (case write_all h chunk f of
             (False, h, f) \<Rightarrow> (Inl WriteFailed, h, f)
           | (True, h, f) \<Rightarrow> write_chunks chunk_of is h f))"

definition clear_buffers :: "receive_state \<Rightarrow> receive_state" where
  "clear_buffers st = st\<lparr>data_buffer := [], parity_buffer := [], bytes_buffered := 0\<rparr>"

definition finalize_current_batch ::
  "'d fec_decoder \<Rightarrow> receive_state \<Rightarrow> fs \<Rightarrow> (finalize_error + unit) \<times> receive_state \<times> fs" where
  "finalize_current_batch fec st f =
     (let data_size = batch_data_size (current_batch st) (file_size st)
      in if data_size = 0 then (Inr (), clear_buffers st, f)
         else
           let total_chunks = div_ceil (file_size st) CHUNK_SIZE;
               remainder = file_size st mod CHUNK_SIZE;
               last_len = (if remainder = 0 then CHUNK_SIZE else remainder);
               batch_start = mul64 (current_batch st) BATCH_DATA_CHUNKS
           in case restore_missing fec st data_size batch_start of
                Inl e \<Rightarrow> (Inl e, st, f)
              | Inr restored \<Rightarrow>
                  (case output_file st of
                     None \<Rightarrow> (Inl NoOutputFile, st, f)
                   | Some h \<Rightarrow>
                       (case seek_start h (mul64 batch_start CHUNK_SIZE) f of
                          (False, h, f) \<Rightarrow> (Inl SeekFailed, st\<lparr>output_file := Some h\<rparr>, f)
                        | (True, h, f) \<Rightarrow>
                            let (r, h, f) =
                              write_chunks
                                (select_chunk (data_buffer st) restored batch_start total_chunks last_len)
                                [0..<data_size] h f;
                                st = st\<lparr>output_file := Some h\<rparr>
                            in (case r of
                                  Inl e \<Rightarrow> (Inl e, st, f)
                                | Inr _ \<Rightarrow> (Inr (), clear_buffers st, f)))))"

text \<open>Finalising touches only the buffers, when it succeeds, and the write position.\<close>

lemma finalize_current_batch_shape:
  assumes "finalize_current_batch fec st f = (r, st', f')"
  obtains h where "st' = st\<lparr>output_file := h\<rparr>" "r \<noteq> Inr ()"
    | h where "st' = clear_buffers (st\<lparr>output_file := h\<rparr>)" "r = Inr ()"
proof (cases "batch_data_size (current_batch st) (file_size st) = 0")
  case True
  with assms that(2) [of "output_file st"] show ?thesis
    by (simp add: finalize_current_batch_def)
next
  case False
  note eq = assms [unfolded finalize_current_batch_def, simplified False Let_def if_False]
  have "r \<noteq> Inr () \<and> (\<exists>h. st' = st\<lparr>output_file := h\<rparr>)
      \<or> r = Inr () \<and> (\<exists>h. st' = clear_buffers (st\<lparr>output_file := h\<rparr>))"
  proof (cases "restore_missing fec st (batch_data_size (current_batch st) (file_size st))
      (mul64 (current_batch st) BATCH_DATA_CHUNKS)")
    case (Inl e)
    with eq have "r = Inl e" "st' = st\<lparr>output_file := output_file st\<rparr>" by auto
    then show ?thesis by blast
  next
    case (Inr restored)
    with eq show ?thesis
      by (cases "output_file st") (auto split: prod.splits bool.splits sum.splits
          intro: exI [of _ "None"])
  qed
  then show ?thesis using that by auto
qed

lemma finalize_current_batch_same:
  assumes "finalize_current_batch fec st f = (r, st', f')"
  shows "current_batch st' = current_batch st" "failed st' = failed st"
    "file_path st' = file_path st" "file_size st' = file_size st" "path_hash st' = path_hash st"
    "parity_per_batch st' = parity_per_batch st" "bytes_transferred st' = bytes_transferred st"
  by (rule finalize_current_batch_shape [OF assms]; simp add: clear_buffers_def)+

text \<open>The loop of \<open>advance_to_batch\<close>; below the target, adding one cannot wrap.\<close>

function advance_to_batch ::
  "'d fec_decoder \<Rightarrow> nat \<Rightarrow> receive_state \<Rightarrow> fs \<Rightarrow> receive_state \<times> fs" where
  "advance_to_batch fec target st f =
     (if \<not> failed st \<and> current_batch st < target
      then (case finalize_current_batch fec st f of
              (Inl e, st', f') \<Rightarrow> (st'\<lparr>failed := True\<rparr>, f')
            | (Inr _, st', f') \<Rightarrow>
                advance_to_batch fec target (st'\<lparr>current_batch := current_batch st' + 1\<rparr>) f')
      else (st, f))"
  by pat_completeness auto
termination
  by (relation "measure (\<lambda>(fec, target, st, f). target - current_batch st)")
    (auto dest!: sym [of _ "finalize_current_batch _ _ _"] finalize_current_batch_same(1))

declare advance_to_batch.simps [simp del]

end
