(* ===== verification/Worker.thy ===== *)
theory Worker
  imports Receiver
begin

text \<open>
  The receiver's packet worker (\<open>diode_receive/src/main.rs\<close>): \<open>new_file\<close>, \<open>finish_file\<close> and
  the loop of the worker thread in \<open>main\<close>, one step per datagram, over the state the thread
  shares: the transfer, the statistics, the files, and the queue to the datagram forwarder.
\<close>

section \<open>State and environment\<close>

text \<open>
  \<open>rx_state_poisoned\<close> and \<open>rx_stats_poisoned\<close> are the poison flags of the two mutexes: set
  when a thread panics while it holds the guard, and never cleared by dropping a guard.
\<close>

record rx =
  rx_state :: receive_state
  rx_stats :: stats
  rx_fs :: fs
  rx_udp :: "packet list"
  rx_state_poisoned :: bool
  rx_stats_poisoned :: bool

record 'd rx_env =
  env_md5 :: "bytes \<Rightarrow> bytes"
  env_fec :: "'d fec_decoder"
  env_out :: bytes
  env_udp :: bool

text \<open>The state in which \<open>main\<close> starts the worker.\<close>

definition initial_rx :: "fs \<Rightarrow> rx" where
  "initial_rx f =
     \<lparr>rx_state = new_receive_state, rx_stats = new_stats, rx_fs = f, rx_udp = [],
      rx_state_poisoned = False, rx_stats_poisoned = False\<rparr>"

definition reset_rx :: "bool \<Rightarrow> rx \<Rightarrow> rx" where
  "reset_rx success w =
     (let (st, ss) = reset_transfer (rx_stats w) (rx_state w) success
      in w\<lparr>rx_state := st, rx_stats := ss\<rparr>)"

definition count_failure :: "rx \<Rightarrow> rx" where
  "count_failure w =
     w\<lparr>rx_stats := (rx_stats w)\<lparr>files_failed := add64 (files_failed (rx_stats w)) 1\<rparr>\<rparr>"

section \<open>Starting a file\<close>

text \<open>The middle part of \<open>new_file\<close>: give up the transfer that is still in progress.\<close>

definition abandon_previous :: "bytes \<Rightarrow> rx \<Rightarrow> rx" where
  "abandon_previous out w =
     (case file_path (rx_state w) of
        None \<Rightarrow> w
      | Some prev \<Rightarrow>
          (let f = snd (remove_file (partial_path out prev) (rx_fs w));
               f = mark_failure out prev f
           in reset_rx False (w\<lparr>rx_state := (rx_state w)\<lparr>output_file := None\<rparr>, rx_fs := f\<rparr>)))"

text \<open>The last part: remove what an earlier transfer of the name left, and open the new output.\<close>

definition begin_transfer :: "bytes \<Rightarrow> bytes \<Rightarrow> nat \<Rightarrow> bytes \<Rightarrow> nat \<Rightarrow> rx \<Rightarrow> rx" where
  "begin_transfer out path fsize hash ppb w =
     (let f = snd (remove_file (path_join out path) (rx_fs w));
          f = snd (remove_file (partial_path out path) f);
          f = snd (remove_file (path_join out (failed_name path)) f)
      in case open_output_file out path fsize f of
           (None, f) \<Rightarrow> (count_failure w)\<lparr>rx_fs := mark_failure out path f\<rparr>
         | (Some h, f) \<Rightarrow>
             w\<lparr>rx_state := (rx_state w)\<lparr>file_path := Some path, path_hash := Some hash,
                 file_size := fsize, parity_per_batch := ppb, current_batch := 0,
                 output_file := Some h\<rparr>,
               rx_fs := f\<rparr>)"

definition new_file :: "bytes \<Rightarrow> bytes \<Rightarrow> nat \<Rightarrow> bytes \<Rightarrow> nat \<Rightarrow> rx \<Rightarrow> rx" where
  "new_file out path fsize hash ppb w =
     (if file_path (rx_state w) = Some path then w
      else let w = abandon_previous out w
           in if \<not> is_safe_rel_path path then reset_rx False (count_failure w)
              else if 0 \<in> set path then reset_rx False (count_failure w)
              else begin_transfer out path fsize hash ppb w)"

section \<open>Finishing a file\<close>

text \<open>
  What \<open>finish_file\<close> does when the transfer failed, when the rename failed, and otherwise. The
  digest of the finished file only goes to the log (\<open>digest_log\<close> of \<open>Worker_Log\<close>).
\<close>

definition finish_failed :: "bytes \<Rightarrow> bytes \<Rightarrow> rx \<Rightarrow> rx" where
  "finish_failed out rel_path w =
     (let f = snd (remove_file (partial_path out rel_path) (rx_fs w));
          f = mark_failure out rel_path f
      in reset_rx False (w\<lparr>rx_fs := f\<rparr>))"

definition publish :: "bytes \<Rightarrow> bytes \<Rightarrow> rx \<Rightarrow> rx" where
  "publish out rel_path w =
     (case rename_file (partial_path out rel_path) (path_join out rel_path) (rx_fs w) of
        (False, f) \<Rightarrow> finish_failed out rel_path (w\<lparr>rx_fs := f\<rparr>)
      | (True, f) \<Rightarrow>
          (let failed_path = path_join out (failed_name rel_path);
               f = (if path_exists failed_path f then snd (remove_file failed_path f) else f)
           in reset_rx True (w\<lparr>rx_fs := f\<rparr>)))"

text \<open>The first part of \<open>finish_file\<close>: finalise the batch being collected, close the output.\<close>

definition finalize_last :: "'d fec_decoder \<Rightarrow> rx \<Rightarrow> rx" where
  "finalize_last fec w =
     (let (st, f) =
        (if failed (rx_state w) then (rx_state w, rx_fs w)
         else case finalize_current_batch fec (rx_state w) (rx_fs w) of
                (Inl e, st, f) \<Rightarrow> (st\<lparr>failed := True\<rparr>, f)
              | (Inr _, st, f) \<Rightarrow> (st, f))
      in w\<lparr>rx_state := st\<lparr>output_file := None\<rparr>, rx_fs := f\<rparr>)"

definition finish_file :: "'d rx_env \<Rightarrow> rx \<Rightarrow> rx" where
  "finish_file env w =
     (case file_path (rx_state w) of
        None \<Rightarrow> w
      | Some rel_path \<Rightarrow>
          (let w = finalize_last (env_fec env) w
           in if failed (rx_state w) then finish_failed (env_out env) rel_path w
              else publish (env_out env) rel_path w))"

section \<open>The worker loop\<close>

definition handle_start :: "'d rx_env \<Rightarrow> packet \<Rightarrow> rx \<Rightarrow> rx" where
  "handle_start env p w =
     (let path = from_utf8_lossy (pkt_data p);
          ppb = (case decode_parity_field (pkt_data_hash p) of None \<Rightarrow> 0 | Some n \<Rightarrow> n)
      in new_file (env_out env) path (count p) (pkt_path_hash p) ppb w)"

text \<open>Move to a later batch if the packet belongs to one.\<close>

definition advance_rx :: "'d rx_env \<Rightarrow> nat \<Rightarrow> rx \<Rightarrow> rx" where
  "advance_rx env batch w =
     (if batch > current_batch (rx_state w)
      then let (st, f) = advance_to_batch (env_fec env) batch (rx_state w) (rx_fs w)
           in w\<lparr>rx_state := st, rx_fs := f\<rparr>
      else w)"

definition handle_data :: "'d rx_env \<Rightarrow> packet \<Rightarrow> rx \<Rightarrow> rx" where
  "handle_data env p w =
     (if \<not> failed (rx_state w) \<and> is_chunk_valid (env_md5 env) p (rx_state w) PKG_TYPE_DATA
      then let batch = batch_for_data (count p); w = advance_rx env batch w
           in if \<not> failed (rx_state w) \<and> batch = current_batch (rx_state w)
              then let (st, ss) = buffer_data (rx_state w) (rx_stats w) p
                   in w\<lparr>rx_state := st, rx_stats := ss\<rparr>
              else w
      else w)"

definition handle_parity :: "'d rx_env \<Rightarrow> packet \<Rightarrow> rx \<Rightarrow> rx" where
  "handle_parity env p w =
     (if \<not> failed (rx_state w) \<and> is_chunk_valid (env_md5 env) p (rx_state w) PKG_TYPE_PARITY
      then let batch = batch_for_parity (count p); w = advance_rx env batch w
           in if \<not> failed (rx_state w) \<and> batch = current_batch (rx_state w)
              then w\<lparr>rx_state :=
                     buffer_parity (rx_state w) p (count p mod BATCH_PARITY_CHUNKS)\<rparr>
              else w
      else w)"

definition handle_udp :: "packet \<Rightarrow> rx \<Rightarrow> rx" where
  "handle_udp p w =
     w\<lparr>rx_stats := (rx_stats w)\<lparr>total_transferred :=
          add64 (total_transferred (rx_stats w)) (length (pkt_data p))\<rparr>,
       rx_udp := rx_udp w @ [p]\<rparr>"

definition handle_packet :: "'d rx_env \<Rightarrow> packet \<Rightarrow> rx \<Rightarrow> rx" where
  "handle_packet env p w =
     (let receiving = (file_path (rx_state w) \<noteq> None) in
      if pkg_type p = PKG_TYPE_START then handle_start env p w
      else if pkg_type p = PKG_TYPE_DATA \<and> receiving then handle_data env p w
      else if pkg_type p = PKG_TYPE_PARITY \<and> receiving then handle_parity env p w
      else if pkg_type p = PKG_TYPE_END \<and> receiving then finish_file env w
      else if pkg_type p = PKG_TYPE_UDP \<and> env_udp env then handle_udp p w
      else w)"

text \<open>
  Acquiring the state lock. On a poisoned lock the transfer in progress is dropped and its
  partial file removed; dropping the recovered guard and locking again leaves the flag as it is,
  and the second \<open>lock\<close> takes the \<open>into_inner\<close> branch.
\<close>

definition acquire_state :: "'d rx_env \<Rightarrow> rx \<Rightarrow> rx" where
  "acquire_state env w =
     (if rx_state_poisoned w
      then w\<lparr>rx_fs := (case file_path (rx_state w) of
                 None \<Rightarrow> rx_fs w
               | Some p \<Rightarrow> snd (remove_file (partial_path (env_out env) p) (rx_fs w))),
             rx_state := new_receive_state\<rparr>
      else w)"

text \<open>One round of the worker loop; acquiring a poisoned statistics lock changes nothing.\<close>

definition worker_step :: "'d rx_env \<Rightarrow> rx \<Rightarrow> bytes \<Rightarrow> rx" where
  "worker_step env w raw =
     (case decode_packet raw of
        None \<Rightarrow> w
      | Some p \<Rightarrow> handle_packet env p (acquire_state env w))"

definition worker_run :: "'d rx_env \<Rightarrow> rx \<Rightarrow> bytes list \<Rightarrow> rx" where
  "worker_run env w raws = foldl (worker_step env) w raws"

end
