(* ===== verification/Display.thy ===== *)
theory Display
  imports Worker F64
begin

text \<open>
  The status display on a serial line (\<open>Display\<close> of \<open>diode_receive/src/main.rs\<close>, compiled in with the
  feature \<open>arduino\<close>): the two lines it writes, its rate limit, and the worker loop that updates it.
  Instants are nanoseconds. A write to the port may fail or stop partway, which the code ignores: a
  schedule says what each does. The locks are taken with \<open>unwrap\<close>, so a poisoned one ends the worker.
\<close>

section \<open>Formatting\<close>

text \<open>\<open>{:>w}\<close>, \<open>{:<w.w}\<close> of ASCII strings, \<open>{}\<close> of a signed number and \<open>{:.1}\<close>, which rounds the exact
  value half to even.\<close>

definition pad_left :: "nat \<Rightarrow> bytes \<Rightarrow> bytes" where
  "pad_left w s = replicate (w - length s) 0x20 @ s"

definition fit :: "nat \<Rightarrow> bytes \<Rightarrow> bytes" where
  "fit w s = take w s @ replicate (w - length s) 0x20"

definition fmt_int :: "int \<Rightarrow> bytes" where
  "fmt_int k = (if k < 0 then ascii ''-'' @ fmt_dec (nat (- k)) else fmt_dec (nat k))"

definition fmt_tenths :: "nat \<Rightarrow> bytes" where
  "fmt_tenths n = fmt_dec (n div 10) @ ascii ''.'' @ fmt_dec (n mod 10)"

fun fmt_fixed1 :: "f64 \<Rightarrow> bytes" where
  "fmt_fixed1 (Finite x) =
     (if x < 0 then ascii ''-'' @ fmt_tenths (nat (round_half_even (- x * 10)))
      else fmt_tenths (nat (round_half_even (x * 10))))"
| "fmt_fixed1 Infinity = ascii ''inf''"
| "fmt_fixed1 NegInfinity = ascii ''-inf''"
| "fmt_fixed1 NaN = ascii ''NaN''"

section \<open>The display\<close>

definition MIN_INTERVAL :: int where
  "MIN_INTERVAL = 250 * 1000000"

text \<open>
  \<open>port\<close>: for every update its instant, whether it was forced, and the bytes the port took.
  \<open>cuts\<close>: what the next calls of \<open>write_all\<close> do, \<open>None\<close> to write everything, \<open>Some n\<close> to give up
  with an error after \<open>n\<close> bytes; past its end nothing fails.
\<close>

record display =
  last_update :: int
  port :: "(int \<times> bool \<times> bytes) list"
  cuts :: "nat option list"

fun serial_write :: "nat option list \<Rightarrow> bytes \<Rightarrow> bytes \<times> nat option list" where
  "serial_write [] bs = (bs, [])"
| "serial_write (None # cs) bs = (bs, cs)"
| "serial_write (Some n # cs) bs = (take n bs, cs)"

text \<open>Several calls one after the other, whatever becomes of each.\<close>

fun serial_writes :: "nat option list \<Rightarrow> bytes list \<Rightarrow> bytes \<times> nat option list" where
  "serial_writes cs [] = ([], cs)"
| "serial_writes cs (bs # bss) =
     (let (got, cs) = serial_write cs bs; (rest, cs) = serial_writes cs bss in (got @ rest, cs))"

text \<open>\<open>Display::new\<close>, with whether the port could be opened and the clock after clearing it.\<close>

definition new_display :: "nat option list \<Rightarrow> bool \<Rightarrow> int \<Rightarrow> display option" where
  "new_display cs opened now =
     (if opened
      then let (got, cs) = serial_writes cs [[13] @ replicate 16 0x20, [10] @ replicate 16 0x20]
           in Some \<lparr>last_update = now - MIN_INTERVAL, port = [(now, True, got)], cuts = cs\<rparr>
      else None)"

definition progress_of :: "receive_state \<Rightarrow> int" where
  "progress_of st =
     (if file_size st = 0 then 100
      else f64_as_i32 (f64_mul (f64_div (f64_of_nat (bytes_transferred st)) (f64_of_nat (file_size st)))
        (f64_of_nat 100)))"

definition display_lines :: "stats \<Rightarrow> receive_state \<Rightarrow> bytes \<times> bytes" where
  "display_lines ss st =
     (let data_mb = f64_div (f64_div (f64_of_nat (total_transferred ss)) (f64_of_nat 1024)) (f64_of_nat 1024);
          (state_str, progress_str) =
            (case file_path st of
               Some _ \<Rightarrow> (ascii ''Rx   '', ascii '' '' @ pad_left 3 (fmt_int (progress_of st)) @ ascii ''%'')
             | None \<Rightarrow> (ascii ''Wait '', ascii ''     ''));
          line1_raw = state_str @ pad_left 3 (fmt_dec (files_transferred ss)) @ ascii ''F ''
            @ pad_left 2 (fmt_dec (files_failed ss)) @ ascii ''E'';
          line2_raw = pad_left 5 (fmt_fixed1 data_mb) @ ascii ''MB'' @ progress_str
      in (fit 16 line1_raw, fit 16 line2_raw))"

definition display_update :: "int \<Rightarrow> stats \<Rightarrow> receive_state \<Rightarrow> bool \<Rightarrow> display \<Rightarrow> display" where
  "display_update now ss st force d =
     (if \<not> force \<and> max 0 (now - last_update d) < MIN_INTERVAL then d
      else
        let (line1, line2) = display_lines ss st;
            (got, cs) = serial_writes (cuts d) [[13], line1, [10], line2]
        in d\<lparr>last_update := now, port := port d @ [(now, force, got)], cuts := cs\<rparr>)"

section \<open>The worker loop with a display\<close>

text \<open>Which packets are followed by an update, and which of these are forced.\<close>

definition forces :: "packet \<Rightarrow> bool" where
  "forces p \<longleftrightarrow> pkg_type p = PKG_TYPE_START \<or> pkg_type p = PKG_TYPE_END"

definition updates :: "packet \<Rightarrow> bool" where
  "updates p \<longleftrightarrow> forces p \<or> count p mod 1000 = 0"

text \<open>
  The end of a round, and whether the worker lives on. With a display, both locks are taken before
  the update looks at the clock. If one is poisoned, the worker panics and its thread ends; the
  guard of the statistics is dropped in the panic, which poisons that lock too.
\<close>

definition display_packet :: "int \<Rightarrow> packet \<Rightarrow> rx \<Rightarrow> display option \<Rightarrow> rx \<times> display option \<times> bool" where
  "display_packet now p w d =
     (case d of
        None \<Rightarrow> (w, None, True)
      | Some d \<Rightarrow>
          if \<not> updates p then (w, Some d, True)
          else if rx_stats_poisoned w \<or> rx_state_poisoned w
          then (w\<lparr>rx_stats_poisoned := True\<rparr>, Some d, False)
          else (w, Some (display_update now (rx_stats w) (rx_state w) (forces p) d), True))"

definition display_step ::
  "'d rx_env \<Rightarrow> rx \<times> display option \<times> bool \<Rightarrow> int \<times> bytes \<Rightarrow> rx \<times> display option \<times> bool" where
  "display_step env = (\<lambda>(w, d, alive) (now, raw).
     if \<not> alive then (w, d, alive)
     else
       let w' = worker_step env w raw
       in case decode_packet raw of None \<Rightarrow> (w', d, True) | Some p \<Rightarrow> display_packet now p w' d)"

text \<open>The worker thread, with the first update, which \<open>main\<close> forces before it starts the thread.\<close>

definition display_run ::
  "'d rx_env \<Rightarrow> rx \<Rightarrow> display option \<Rightarrow> (int \<times> bytes) list \<Rightarrow> rx \<times> display option \<times> bool" where
  "display_run env w d xs = foldl (display_step env) (w, d, True) xs"

definition first_update :: "int \<Rightarrow> rx \<Rightarrow> display option \<Rightarrow> display option" where
  "first_update now w d = map_option (display_update now (rx_stats w) (rx_state w) True) d"

section \<open>Facts\<close>

definition lcd_char :: "byte \<Rightarrow> bool" where
  "lcd_char b \<longleftrightarrow> 0x20 \<le> b \<and> b \<le> 0x7E"

text \<open>Carriage return, sixteen characters, line feed, sixteen characters.\<close>

definition frame_ok :: "bytes \<Rightarrow> bool" where
  "frame_ok bs \<longleftrightarrow> (\<exists>l1 l2. bs = [13] @ l1 @ [10] @ l2 \<and> length l1 = 16 \<and> length l2 = 16
     \<and> list_all lcd_char l1 \<and> list_all lcd_char l2)"

lemma lcd_digits: "list_all is_digit s \<Longrightarrow> list_all lcd_char s"
  by (auto simp: list_all_iff is_digit_def lcd_char_def word_le_nat_alt)

lemma lcd_dec [simp]: "list_all lcd_char (fmt_dec n)"
  by (rule lcd_digits [OF fmt_dec_digits])

lemma lcd_int [simp]: "list_all lcd_char (fmt_int k)"
  by (simp add: fmt_int_def) (simp add: lcd_char_def)

lemma lcd_tenths [simp]: "list_all lcd_char (fmt_tenths n)"
  by (simp add: fmt_tenths_def) (simp add: lcd_char_def)

lemma lcd_fixed1 [simp]: "list_all lcd_char (fmt_fixed1 x)"
  by (cases x) (simp_all add: lcd_char_def)

lemma lcd_pad [simp]: "list_all lcd_char (pad_left w s) = list_all lcd_char s"
  by (simp add: pad_left_def) (simp add: lcd_char_def list_all_iff)

lemma lcd_fit: "list_all lcd_char s \<Longrightarrow> list_all lcd_char (fit w s)"
  by (auto simp: fit_def list_all_iff lcd_char_def dest: in_set_takeD)

lemma length_fit [simp]: "length (fit w s) = w"
  by (simp add: fit_def)

text \<open>The same with each of the four writes cut somewhere.\<close>

definition frame_part :: "bytes \<Rightarrow> bool" where
  "frame_part bs \<longleftrightarrow> (\<exists>a l1 b l2. bs = a @ l1 @ b @ l2 \<and> prefix a [13] \<and> prefix b [10]
     \<and> length l1 \<le> 16 \<and> length l2 \<le> 16 \<and> list_all lcd_char l1 \<and> list_all lcd_char l2)"

lemma display_lines_ok:
  assumes "display_lines ss st = (l1, l2)"
  shows "length l1 = 16" "length l2 = 16" "list_all lcd_char l1" "list_all lcd_char l2"
proof -
  show "length l1 = 16" "length l2 = 16"
    using assms by (auto simp: display_lines_def Let_def split: option.splits)
  show "list_all lcd_char l1" "list_all lcd_char l2"
    using assms by (auto simp: display_lines_def Let_def split: option.splits intro!: lcd_fit; simp add: lcd_char_def)+
qed

lemma serial_write_prefix: "serial_write cs bs = (got, cs') \<Longrightarrow> prefix got bs"
  by (induction cs bs rule: serial_write.induct) (auto simp: take_is_prefix)

lemma serial_write_whole:
  "list_all (\<lambda>c. c = None) cs \<Longrightarrow> fst (serial_write cs bs) = bs \<and> list_all (\<lambda>c. c = None) (snd (serial_write cs bs))"
  by (induction cs bs rule: serial_write.induct) auto

lemma prefix_lcd: "prefix l l' \<Longrightarrow> list_all lcd_char l' \<Longrightarrow> list_all lcd_char l"
  by (auto simp: prefix_def)

lemma frame_writes:
  assumes "display_lines ss st = (l1, l2)" and "serial_writes cs [[13], l1, [10], l2] = (got, cs')"
  shows "frame_part got"
    and "list_all (\<lambda>c. c = None) cs \<Longrightarrow> frame_ok got \<and> list_all (\<lambda>c. c = None) cs'"
proof -
  obtain a cs1 where a: "serial_write cs [13] = (a, cs1)" by force
  obtain m cs2 where m: "serial_write cs1 l1 = (m, cs2)" by force
  obtain b cs3 where b: "serial_write cs2 [10] = (b, cs3)" by force
  obtain n cs4 where n: "serial_write cs3 l2 = (n, cs4)" by force
  have got: "got = a @ m @ b @ n" "cs' = cs4" using assms(2) by (simp_all add: a m b n)
  note l = display_lines_ok [OF assms(1)]
  note pre = serial_write_prefix [OF a] serial_write_prefix [OF m] serial_write_prefix [OF b] serial_write_prefix [OF n]
  show "frame_part got"
    unfolding frame_part_def got
    using pre l prefix_length_le [OF pre(2)] prefix_length_le [OF pre(4)] prefix_lcd [OF pre(2)] prefix_lcd [OF pre(4)]
    by (intro exI [of _ a] exI [of _ m] exI [of _ b] exI [of _ n]) simp
  show "frame_ok got \<and> list_all (\<lambda>c. c = None) cs'" if "list_all (\<lambda>c. c = None) cs"
    using serial_write_whole [OF that, of "[13]"] serial_write_whole [of cs1 l1] serial_write_whole [of cs2 "[10]"]
      serial_write_whole [of cs3 l2] l
    by (auto simp: frame_ok_def got a m b n)
qed

end
