(* ===== verification/Udp.thy ===== *)
theory Udp
  imports Packet
begin

text \<open>
  The receiver's datagram forwarder (\<open>forward_udp_packets\<close> of \<open>diode_receive/src/main.rs\<close>): one
  step per packet taken from the queue of the worker. Time is in nanoseconds; a step comes with the
  two clock readings it may take, the one of \<open>elapsed\<close> and the one of \<open>Instant::now\<close>.
\<close>

section \<open>State\<close>

definition UDP_FLOW_TIMEOUT :: nat where
  "UDP_FLOW_TIMEOUT = 2 * 10 ^ 9"

text \<open>
  \<open>udp_sent\<close> are the datagrams handed to the socket, in order; an error of that call is only
  logged. \<open>last_activity\<close> is meaningful while a flow is in progress.
\<close>

record udp_state =
  current_id :: "bytes option"
  full_packet :: bytes
  previous_count :: nat
  expected_size :: nat
  last_activity :: nat
  udp_sent :: "bytes list"

definition new_udp_state :: "nat \<Rightarrow> udp_state" where
  "new_udp_state now =
     \<lparr>current_id = None, full_packet = [], previous_count = 0, expected_size = 0, last_activity = now,
      udp_sent = []\<rparr>"

definition udp_reset :: "udp_state \<Rightarrow> udp_state" where
  "udp_reset s = s\<lparr>current_id := None, full_packet := [], previous_count := 0, expected_size := 0\<rparr>"

section \<open>The step\<close>

text \<open>Sending the reassembled datagram.\<close>

definition udp_forward :: "udp_state \<Rightarrow> udp_state" where
  "udp_forward s = udp_reset (s\<lparr>udp_sent := udp_sent s @ [full_packet s]\<rparr>)"

definition forward_if_full :: "udp_state \<Rightarrow> udp_state" where
  "forward_if_full s = (if length (full_packet s) = expected_size s then udp_forward s else s)"

text \<open>The size field of every packet of a flow, and the first 8 bytes of its id.\<close>

definition declared_size :: "packet \<Rightarrow> nat option" where
  "declared_size p =
     (case from_utf8 (pkt_path_hash p) of None \<Rightarrow> None | Some s \<Rightarrow> parse_uint u64_max s)"

definition flow_id :: "packet \<Rightarrow> bytes" where
  "flow_id p = take 8 (pkt_data_hash p)"

record udp_input =
  in_packet :: packet
  in_elapsed_at :: nat
  in_now :: nat

text \<open>A fragment with number 0.\<close>

definition first_fragment :: "udp_input \<Rightarrow> nat \<Rightarrow> udp_state \<Rightarrow> udp_state" where
  "first_fragment i declared s =
     (let p = in_packet i; pid = flow_id p in
      if declared = 0 \<or> declared > UDP_MAX_FORWARD_BYTES then s
      else if pkt_data p = [] \<or> length (pkt_data p) > CHUNK_SIZE \<or> length (pkt_data p) > declared then s
      else if (case current_id s of None \<Rightarrow> False
               | Some cur \<Rightarrow> cur \<noteq> pid \<and> \<not> in_elapsed_at i - last_activity s > UDP_FLOW_TIMEOUT)
      then s
      else
        let s = udp_reset s;
            s = s\<lparr>current_id := Some pid, expected_size := declared,
                  full_packet := full_packet s @ pkt_data p, last_activity := in_now i\<rparr>
        in forward_if_full s)"

text \<open>Any other fragment.\<close>

definition next_fragment :: "udp_input \<Rightarrow> nat \<Rightarrow> udp_state \<Rightarrow> udp_state" where
  "next_fragment i declared s =
     (let p = in_packet i in
      if current_id s \<noteq> Some (flow_id p) \<or> count p \<noteq> add64 (previous_count s) 1 then s
      else if declared \<noteq> expected_size s then s
      else
        let remaining = expected_size s - length (full_packet s)
        in if pkt_data p = [] \<or> length (pkt_data p) > CHUNK_SIZE \<or> length (pkt_data p) > remaining
           then udp_reset s
           else forward_if_full
             (s\<lparr>full_packet := full_packet s @ pkt_data p, previous_count := count p,
                last_activity := in_now i\<rparr>))"

definition udp_step :: "udp_state \<Rightarrow> udp_input \<Rightarrow> udp_state" where
  "udp_step s i =
     (case declared_size (in_packet i) of
        None \<Rightarrow> s
      | Some declared \<Rightarrow>
          if count (in_packet i) = 0 then first_fragment i declared s else next_fragment i declared s)"

definition udp_run :: "udp_state \<Rightarrow> udp_input list \<Rightarrow> udp_state" where
  "udp_run s is = foldl udp_step s is"

section \<open>Invariant\<close>

text \<open>
  Between flows every trace of the last one is gone; in a flow at least one byte and fewer than
  the declared size are held, which is at most the cap.
\<close>

definition udp_inv :: "udp_state \<Rightarrow> bool" where
  "udp_inv s \<longleftrightarrow>
     (case current_id s of
        None \<Rightarrow> full_packet s = [] \<and> previous_count s = 0 \<and> expected_size s = 0
      | Some _ \<Rightarrow> 0 < length (full_packet s) \<and> length (full_packet s) < expected_size s
          \<and> expected_size s \<le> UDP_MAX_FORWARD_BYTES)
     \<and> list_all (\<lambda>d. d \<noteq> [] \<and> length d \<le> UDP_MAX_FORWARD_BYTES) (udp_sent s)"

lemma udp_inv_new [simp]: "udp_inv (new_udp_state now)"
  by (simp add: udp_inv_def new_udp_state_def)

lemma udp_inv_reset: "udp_inv s \<Longrightarrow> udp_inv (udp_reset s)"
  by (simp add: udp_inv_def udp_reset_def)

lemma udp_inv_flow: "udp_inv s \<Longrightarrow> current_id s = Some x \<Longrightarrow>
    0 < length (full_packet s) \<and> length (full_packet s) < expected_size s
    \<and> expected_size s \<le> UDP_MAX_FORWARD_BYTES"
  by (simp add: udp_inv_def)

text \<open>A state that holds a fragment just taken is either complete, and forwarded, or a flow.\<close>

lemma udp_inv_forward:
  assumes "list_all (\<lambda>d. d \<noteq> [] \<and> length d \<le> UDP_MAX_FORWARD_BYTES) (udp_sent s)"
    and "current_id s = Some x" and "0 < length (full_packet s)"
    and "length (full_packet s) \<le> expected_size s" and "expected_size s \<le> UDP_MAX_FORWARD_BYTES"
  shows "udp_inv (forward_if_full s)"
  using assms by (auto simp: udp_inv_def forward_if_full_def udp_forward_def udp_reset_def)

lemma first_fragment_inv:
  assumes "udp_inv s"
  shows "udp_inv (first_fragment i declared s)"
proof -
  let ?p = "in_packet i"
  let ?s = "(udp_reset s)\<lparr>current_id := Some (flow_id ?p), expected_size := declared,
    full_packet := pkt_data ?p, last_activity := in_now i\<rparr>"
  have "first_fragment i declared s = s \<or> first_fragment i declared s = forward_if_full ?s
      \<and> pkt_data ?p \<noteq> [] \<and> length (pkt_data ?p) \<le> declared \<and> declared \<le> UDP_MAX_FORWARD_BYTES"
    by (simp add: first_fragment_def Let_def udp_reset_def)
  moreover have "udp_inv (forward_if_full ?s)"
    if "pkt_data ?p \<noteq> []" "length (pkt_data ?p) \<le> declared" "declared \<le> UDP_MAX_FORWARD_BYTES"
    using assms that by (intro udp_inv_forward) (simp_all add: udp_inv_def udp_reset_def)
  ultimately show ?thesis using assms by auto
qed

lemma next_fragment_inv:
  assumes "udp_inv s"
  shows "udp_inv (next_fragment i declared s)"
proof -
  let ?p = "in_packet i"
  let ?s = "s\<lparr>full_packet := full_packet s @ pkt_data ?p, previous_count := count ?p, last_activity := in_now i\<rparr>"
  have "next_fragment i declared s \<in> {s, udp_reset s} \<or> next_fragment i declared s = forward_if_full ?s
      \<and> current_id s = Some (flow_id ?p) \<and> length (pkt_data ?p) \<le> expected_size s - length (full_packet s)"
    by (simp add: next_fragment_def Let_def)
  moreover have "udp_inv (forward_if_full ?s)"
    if "current_id s = Some (flow_id ?p)" "length (pkt_data ?p) \<le> expected_size s - length (full_packet s)"
    using assms that udp_inv_flow [OF assms that(1)]
    by (intro udp_inv_forward [where x = "flow_id ?p"]) (auto simp: udp_inv_def)
  ultimately show ?thesis using assms udp_inv_reset by auto
qed

lemma udp_step_inv: "udp_inv s \<Longrightarrow> udp_inv (udp_step s i)"
  by (simp add: udp_step_def first_fragment_inv next_fragment_inv split: option.split)

interpretation forwarder: machine udp_step udp_inv
  by unfold_locales (rule udp_step_inv)

lemma udp_run_inv: "udp_inv s \<Longrightarrow> udp_inv (udp_run s is)"
  unfolding udp_run_def by (rule forwarder.run_inv)

end
