(* ===== verification/Start.thy ===== *)
theory Start
  imports Scan Bitrate Display Udp
begin

text \<open>
  The two programs from their arguments on (\<open>main\<close> of \<open>diode_send/src/main.rs\<close> and of
  \<open>diode_receive/src/main.rs\<close>): the arguments and their defaults, the calls at the start with
  their order and what each failure does, and what the threads then run. The answers of the
  operating system and the resolver are inputs.
\<close>

section \<open>Socket buffers\<close>

text \<open>What the tuning of a buffer logs, from the results of \<open>setsockopt\<close> and \<open>getsockopt\<close>.\<close>

datatype tune_msg = Set_Failed int | Granted int int | Get_Failed

record tune_answers =
  set_rc :: int
  get_rc :: int
  got :: int

definition tune_sndbuf :: "int \<Rightarrow> tune_answers \<Rightarrow> tune_msg list" where
  "tune_sndbuf want a =
     (if set_rc a \<noteq> 0 then [Set_Failed want] else [])
     @ (if get_rc a = 0 then [Granted want (got a)] else [Get_Failed])"

definition tune_rcvbuf :: "int \<Rightarrow> tune_answers \<Rightarrow> tune_msg list" where
  "tune_rcvbuf want a =
     (if set_rc a \<noteq> 0 then [Set_Failed want] else [])
     @ (if get_rc a = 0 then [Granted want (got a)] else [Get_Failed])"

section \<open>The sender\<close>

record sender_args =
  target_subnet :: bytes
  target_port :: nat
  s_directory :: bytes
  udp_port :: "nat option"
  udp_host :: bytes
  target_bitrate_mbps :: f64
  enobufs_max_backoff_ms :: nat
  sndbuf :: int

text \<open>The arguments when only the directory is given.\<close>

definition sender_defaults :: "bytes \<Rightarrow> sender_args" where
  "sender_defaults directory =
     \<lparr>target_subnet = ascii ''10.125.125.255'', target_port = 5005, s_directory = directory,
      udp_port = None, udp_host = ascii ''127.0.0.1'', target_bitrate_mbps = Finite 90,
      enobufs_max_backoff_ms = 250, sndbuf = 2 * 1024 * 1024\<rparr>"

text \<open>\<open>so_addrs\<close> is the answer of the resolver for a text \<open>host:port\<close>.\<close>

record 'a sender_os =
  so_create_dir :: bool
  so_bind :: bool
  so_tune :: tune_answers
  so_broadcast :: bool
  so_addrs :: "bytes \<Rightarrow> 'a list option"
  so_clone :: bool

datatype start_error =
  Cannot_Create | Cannot_Bind | Cannot_Broadcast | Cannot_Resolve | Cannot_Clone

text \<open>The first address, or the error \<open>no addresses\<close>.\<close>

definition resolve_target :: "(bytes \<Rightarrow> 'a list option) \<Rightarrow> bytes \<Rightarrow> 'a option" where
  "resolve_target addrs addr =
     (case addrs addr of None \<Rightarrow> None | Some [] \<Rightarrow> None | Some (a # _) \<Rightarrow> Some a)"

record 'a sender_cfg =
  cfg_pacer :: pacer
  cfg_max_backoff :: nat
  cfg_target :: 'a
  cfg_source_dir :: bytes
  cfg_forwards :: bool
  cfg_log :: "tune_msg list"

definition sender_start :: "sender_args \<Rightarrow> 'a sender_os \<Rightarrow> start_error + 'a sender_cfg" where
  "sender_start args os =
     (if \<not> so_create_dir os then Inl Cannot_Create
      else if \<not> so_bind os then Inl Cannot_Bind
      else
        let tuned = tune_sndbuf (sndbuf args) (so_tune os) in
        if \<not> so_broadcast os then Inl Cannot_Broadcast
        else
          let pc = from_bitrate_mbps (target_bitrate_mbps args);
              target_str = target_subnet args @ ascii '':'' @ fmt_dec (target_port args)
          in case resolve_target (so_addrs os) target_str of
               None \<Rightarrow> Inl Cannot_Resolve
             | Some target \<Rightarrow>
                 if udp_port args \<noteq> None \<and> \<not> so_clone os then Inl Cannot_Clone
                 else Inr \<lparr>cfg_pacer = pc, cfg_max_backoff = enobufs_max_backoff_ms args,
                   cfg_target = target, cfg_source_dir = s_directory args,
                   cfg_forwards = (udp_port args \<noteq> None), cfg_log = tuned\<rparr>)"

text \<open>The endless loop of \<open>main\<close>, for as many rounds as the list has; each comes with what the scan finds.\<close>

fun sender_rounds ::
  "(bytes \<Rightarrow> bytes) \<Rightarrow> 'e fec_encoder \<Rightarrow> 'a sender_cfg \<Rightarrow> (scan_env \<times> source_node) list \<Rightarrow> tx \<Rightarrow> tx option" where
  "sender_rounds md5 enc cfg [] t = Some t"
| "sender_rounds md5 enc cfg ((env, tree) # rounds) t =
     (case send_files md5 enc (cfg_max_backoff cfg) env (cfg_source_dir cfg) tree t of
        None \<Rightarrow> None
      | Some t \<Rightarrow> sender_rounds md5 enc cfg rounds t)"

section \<open>The receiver\<close>

record receiver_args =
  bind_subnet :: bytes
  bind_port :: nat
  r_directory :: bytes
  arduino :: "bytes option"
  udp_target_port :: "nat option"
  udp_target_ip :: bytes
  rcvbuf :: int

definition receiver_defaults :: "bytes \<Rightarrow> receiver_args" where
  "receiver_defaults directory =
     \<lparr>bind_subnet = ascii ''10.125.125.255'', bind_port = 5005, r_directory = directory,
      arduino = None, udp_target_port = None, udp_target_ip = ascii ''127.0.0.1'',
      rcvbuf = 8 * 1024 * 1024\<rparr>"

text \<open>\<open>ro_serial\<close>: whether a serial device opens, the clock after that, and what its writes will do.\<close>

record receiver_os =
  ro_bind :: bool
  ro_tune :: tune_answers
  ro_clone :: bool
  ro_serial :: "bytes \<Rightarrow> bool \<times> int \<times> nat option list"
  ro_now :: int

text \<open>
  Up to the start of the worker thread; a failed \<open>set_broadcast\<close> is ignored, a socket that cannot
  be cloned is a panic. The crates come in through \<open>md5\<close> and \<open>fec\<close>.
\<close>

definition receiver_start ::
  "(bytes \<Rightarrow> bytes) \<Rightarrow> 'd fec_decoder \<Rightarrow> receiver_args \<Rightarrow> receiver_os \<Rightarrow> fs
     \<Rightarrow> start_error + ('d rx_env \<times> rx \<times> display option \<times> tune_msg list)" where
  "receiver_start md5 fec args os f =
     (case create_dir_all (resolve (r_directory args)) f of
        (False, f) \<Rightarrow> Inl Cannot_Create
      | (True, f) \<Rightarrow>
          if \<not> ro_bind os then Inl Cannot_Bind
          else
            let tuned = tune_rcvbuf (rcvbuf args) (ro_tune os) in
            if \<not> ro_clone os then Inl Cannot_Clone
            else
              let env = \<lparr>env_md5 = md5, env_fec = fec, env_out = r_directory args,
                    env_udp = (udp_target_port args \<noteq> None)\<rparr>;
                  w = initial_rx f;
                  display = (case arduino args of
                      None \<Rightarrow> None
                    | Some device \<Rightarrow> (case ro_serial os device of (opened, now, cs) \<Rightarrow> new_display cs opened now))
              in Inr (env, w, first_update (ro_now os) w display, tuned))"

text \<open>Where the datagram forwarder sends to; it ends at once if its socket cannot be bound.\<close>

definition forwarder_target :: "receiver_args \<Rightarrow> bool \<Rightarrow> bytes option" where
  "forwarder_target args bound =
     (if \<not> bound then None
      else case udp_target_port args of
             None \<Rightarrow> None
           | Some p \<Rightarrow> Some (udp_target_ip args @ ascii '':'' @ fmt_dec p))"

section \<open>The listening threads\<close>

text \<open>
  What \<open>recv_from\<close> gives, with whether the other end of the queue is still there: the queue holds
  each datagram, cut to the buffer; errors are logged and the thread goes on.
\<close>

datatype recv = Received bytes | Recv_Error

fun listen :: "(recv \<times> bool) list \<Rightarrow> bytes list" where
  "listen [] = []"
| "listen ((Received d, alive) # es) = (if alive then take 65535 d # listen es else [])"
| "listen ((Recv_Error, alive) # es) = listen es"

text \<open>The listener of the sender, which first binds its own socket.\<close>

definition listen_udp :: "bool \<Rightarrow> (recv \<times> bool) list \<Rightarrow> bytes list" where
  "listen_udp bound es = (if bound then listen es else [])"

end
