(* ===== verification/Batch.thy ===== *)
theory Batch
  imports Receiver Chunks
begin

text \<open>
  Finalising a batch: no product of the code wraps, every write stays inside the output file, and
  the file keeps its declared size. The lengths written are those of \<open>Chunks\<close>.
\<close>

section \<open>Exact arithmetic\<close>

text \<open>Batches in bounds: below \<open>10 ^ 8\<close> no product of the code wraps.\<close>

lemma batch_start_exact:
  "b \<le> 10 ^ 8 \<Longrightarrow> mul64 b BATCH_DATA_CHUNKS = b * BATCH_DATA_CHUNKS"
  by (simp add: BATCH_DATA_CHUNKS_def)

lemma batch_offset_exact:
  "b \<le> 10 ^ 8 \<Longrightarrow>
    mul64 (b * BATCH_DATA_CHUNKS) CHUNK_SIZE = b * BATCH_DATA_CHUNKS * CHUNK_SIZE"
  by (simp add: BATCH_DATA_CHUNKS_def CHUNK_SIZE_def)

lemma batch_data_size_eq:
  "b \<le> 10 ^ 8 \<Longrightarrow> batch_data_size b fsize =
     min (total_chunks fsize - b * BATCH_DATA_CHUNKS) BATCH_DATA_CHUNKS"
  by (simp add: batch_data_size_def batch_start_exact total_chunks_def Let_def)

section \<open>Writing\<close>

lemma length_overwrite: "pos + length d \<le> length c \<Longrightarrow> length (overwrite pos d c) = length c"
  by (simp add: overwrite_def)

lemma length_resize [simp]: "length (resize n c) = n"
  by (simp add: resize_def)

text \<open>Writing inside a file, whether or not the write fails half-way.\<close>

lemma write_all_inside:
  assumes "nodes f (h_path h) = Some (Reg c)" and "h_pos h + length d \<le> length c"
    and "write_all h d f = (ok, h', f')"
  obtains c' where "nodes f' = (nodes f)(h_path h \<mapsto> Reg c')" and "length c' = length c"
    and "h_path h' = h_path h"
    and "ok \<Longrightarrow> c' = overwrite (h_pos h) d c \<and> h_pos h' = h_pos h + length d"
proof -
  obtain x g where nf: "next_fault f = (x, g)" by force
  have g: "nodes g (h_path h) = Some (Reg c)"
    using assms(1) next_fault_nodes [OF nf] by simp
  define w where "w = (case x of None \<Rightarrow> d | Some n \<Rightarrow> take n d)"
  have w: "length w \<le> length d" by (simp add: w_def split: option.split)
  have "ok \<longleftrightarrow> x = None" and h': "h' = h\<lparr>h_pos := h_pos h + length w\<rparr>"
    and f': "f' = update_reg (h_path h) (overwrite (h_pos h) w) g"
    using assms(3) nf by (auto simp: write_all_def w_def split: option.splits)
  moreover from f' g have "nodes f' = (nodes f)(h_path h \<mapsto> Reg (overwrite (h_pos h) w c))"
    using next_fault_nodes [OF nf] by (auto simp: update_reg_def)
  moreover have "length (overwrite (h_pos h) w c) = length c"
    using assms(2) w by (intro length_overwrite) simp
  ultimately show ?thesis
    by (intro that [of "overwrite (h_pos h) w c"]) (auto simp: w_def)
qed

text \<open>Writing a list of chunks whose lengths fit.\<close>

lemma write_chunks_inside:
  assumes "nodes f (h_path h) = Some (Reg c)"
    and "\<And>i d. i \<in> set is \<Longrightarrow> chunk_of i = Inr d \<Longrightarrow> length d = len i"
    and "h_pos h + sum_list (map len is) \<le> length c"
    and "write_chunks chunk_of is h f = (r, h', f')"
  shows "\<exists>c'. nodes f' = (nodes f)(h_path h \<mapsto> Reg c') \<and> length c' = length c \<and> h_path h' = h_path h"
  using assms
proof (induction "is" arbitrary: h f c)
  case Nil
  then show ?case by (intro exI [of _ c]) (simp add: fun_upd_idem)
next
  case (Cons i "is")
  show ?case
  proof (cases "chunk_of i")
    case (Inl e)
    with Cons.prems show ?thesis by (intro exI [of _ c]) (simp add: fun_upd_idem)
  next
    case (Inr d)
    obtain ok k g where w: "write_all h d f = (ok, k, g)" by (rule prod_cases3)
    have len: "length d = len i" using Cons.prems(2) [of i d] Inr by simp
    then have fits: "h_pos h + length d \<le> length c" using Cons.prems(3) by simp
    obtain b where b: "nodes g = (nodes f)(h_path h \<mapsto> Reg b)" "length b = length c"
      "h_path k = h_path h" "ok \<Longrightarrow> h_pos k = h_pos h + length d"
      by (rule write_all_inside [OF Cons.prems(1) fits w]) blast
    show ?thesis
    proof (cases ok)
      case False
      with Inr w b Cons.prems(4) show ?thesis by auto
    next
      case True
      have "\<exists>c'. nodes f' = (nodes g)(h_path k \<mapsto> Reg c') \<and> length c' = length b \<and> h_path h' = h_path k"
      proof (rule Cons.IH)
        show "nodes g (h_path k) = Some (Reg b)" using b by simp
        show "h_pos k + sum_list (map len is) \<le> length b" using Cons.prems(3) b True len by simp
        show "write_chunks chunk_of is k g = (r, h', f')" using Cons.prems(4) Inr w True by simp
      qed (use Cons.prems(2) in auto)
      with b show ?thesis by auto
    qed
  qed
qed

lemma sum_chunk_len:
  "chunk_pos fsize s + sum_list (map (\<lambda>i. chunk_len fsize (s + i)) [0..<n]) = chunk_pos fsize (s + n)"
  by (induction n) (simp_all add: chunk_pos_Suc)

lemma length_select_chunk:
  assumes "s + i < total_chunks fsize"
    and "select_chunk buf restored s (total_chunks fsize) (last_chunk_len fsize) i = Inr d"
  shows "length d = chunk_len fsize (s + i)"
  using assms(2) expected_len_eq [OF assms(1)]
  by (auto simp: select_chunk_def Let_def min_def split: option.splits if_splits)

section \<open>Finalising, with exact arithmetic\<close>

text \<open>
  On the batches the receiver reaches no product wraps; this is the operation with the wrap-around
  removed.
\<close>

lemma finalize_current_batch_eq:
  assumes "current_batch st \<le> 10 ^ 8"
  shows "finalize_current_batch fec st f =
    (let s = current_batch st * BATCH_DATA_CHUNKS;
         n = min (total_chunks (file_size st) - s) BATCH_DATA_CHUNKS
     in if n = 0 then (Inr (), clear_buffers st, f)
        else case restore_missing fec st n s of
          Inl e \<Rightarrow> (Inl e, st, f)
        | Inr restored \<Rightarrow>
            (case output_file st of
               None \<Rightarrow> (Inl NoOutputFile, st, f)
             | Some h \<Rightarrow>
                 (case seek_start h (s * CHUNK_SIZE) f of
                    (False, h, f) \<Rightarrow> (Inl SeekFailed, st\<lparr>output_file := Some h\<rparr>, f)
                  | (True, h, f) \<Rightarrow>
                      let (r, h, f) =
                        write_chunks
                          (select_chunk (data_buffer st) restored s (total_chunks (file_size st))
                            (last_chunk_len (file_size st)))
                          [0..<n] h f;
                          st = st\<lparr>output_file := Some h\<rparr>
                      in (case r of
                            Inl e \<Rightarrow> (Inl e, st, f)
                          | Inr _ \<Rightarrow> (Inr (), clear_buffers st, f)))))"
  unfolding finalize_current_batch_def batch_data_size_eq [OF assms] batch_start_exact [OF assms]
    batch_offset_exact [OF assms] total_chunks_def [symmetric] last_chunk_len_def [symmetric] Let_def
  by (rule refl)

text \<open>
  Finalising keeps the output a file of the declared size, whatever was buffered and whatever
  failed, and changes no other file.
\<close>

lemma finalize_keeps_size:
  assumes "current_batch st \<le> 10 ^ 8"
    and "output_file st = Some h" and "nodes f (h_path h) = Some (Reg c)"
    and "length c = file_size st"
    and "finalize_current_batch fec st f = (r, st', f')"
  shows "\<exists>c' h'. nodes f' = (nodes f)(h_path h \<mapsto> Reg c') \<and> length c' = length c
    \<and> output_file st' = Some h' \<and> h_path h' = h_path h"
proof -
  let ?s = "current_batch st * BATCH_DATA_CHUNKS"
  let ?n = "min (total_chunks (file_size st) - ?s) BATCH_DATA_CHUNKS"
  have same: ?thesis if "nodes f' = nodes f" "output_file st' = Some h'" "h_path h' = h_path h" for h'
    using that assms(3) by (intro exI [of _ c] exI [of _ h']) (simp add: fun_upd_idem)
  note eq = assms(5) [unfolded finalize_current_batch_eq [OF assms(1)] Let_def assms(2) option.case]
  show ?thesis
  proof (cases "?n = 0")
    case True
    with eq assms(2) show ?thesis by (intro same [of h]) (auto simp: clear_buffers_def)
  next
    case n: False
    show ?thesis
    proof (cases "restore_missing fec st ?n ?s")
      case (Inl e)
      with eq n assms(2) show ?thesis by (intro same [of h]) auto
    next
      case (Inr restored)
      let ?ch = "select_chunk (data_buffer st) restored ?s (total_chunks (file_size st))
        (last_chunk_len (file_size st))"
      obtain ok k g where sk: "seek_start h (?s * CHUNK_SIZE) f = (ok, k, g)" by (rule prod_cases3)
      then have k: "h_path k = h_path h" and g: "nodes g = nodes f"
        and pos: "ok \<Longrightarrow> h_pos k = ?s * CHUNK_SIZE"
        by (auto simp: seek_start_def next_fault_nodes split: prod.splits option.splits)
      obtain r' k' g' where w: "write_chunks ?ch [0..<?n] k g = (r', k', g')" by (rule prod_cases3)
      show ?thesis
      proof (cases ok)
        case False
        with eq n Inr sk g k show ?thesis by (intro same [of k]) auto
      next
        case True
        have "?s < total_chunks (file_size st)" using n by simp
        then have "h_pos k + sum_list (map (\<lambda>i. chunk_len (file_size st) (?s + i)) [0..<?n]) \<le> length c"
          using sum_chunk_len [of "file_size st" ?s ?n] pos [OF True] assms(4)
          by (simp add: chunk_pos_less chunk_pos_le)
        then have "\<exists>c'. nodes g' = (nodes g)(h_path k \<mapsto> Reg c') \<and> length c' = length c
            \<and> h_path k' = h_path k"
          using w assms(3) g k length_select_chunk
          by (intro write_chunks_inside [of g k c "[0..<?n]" ?ch]) auto
        with True eq n Inr sk w g k show ?thesis
          by (auto simp: clear_buffers_def split: sum.splits)
      qed
    qed
  qed
qed

end
