(* ===== verification/Receiver_Inv.thy ===== *)
theory Receiver_Inv
  imports Batch
begin

text \<open>
  The invariant of a transfer's buffers (\<open>st_inv\<close>) and that buffering, finalising and advancing
  keep it: the byte counter is exact, a batch holds at most its own chunks and shards, and the
  memory cap of the code is never reached, so the only way a transfer fails is a batch that cannot
  be written.
\<close>

section \<open>The invariant\<close>

definition st_inv :: "receive_state \<Rightarrow> bool" where
  "st_inv st \<longleftrightarrow>
     bt_inv (data_buffer st) \<and> bt_inv (parity_buffer st)
     \<and> bytes_buffered st = bt.weight length (data_buffer st) + bt.weight length (parity_buffer st)
     \<and> (\<forall>k v. bt_get (data_buffer st) k = Some v
            \<longrightarrow> batch_for_data k = current_batch st \<and> 1 \<le> length v \<and> length v \<le> CHUNK_SIZE)
     \<and> (\<forall>k v. bt_get (parity_buffer st) k = Some v
            \<longrightarrow> k < BATCH_PARITY_CHUNKS \<and> length v = SHARD_SIZE)
     \<and> file_size st < 10 ^ 10 \<and> current_batch st \<le> 10 ^ 8"

text \<open>The most bytes a batch can hold.\<close>

definition batch_bytes :: nat where
  "batch_bytes = CHUNK_SIZE * BATCH_DATA_CHUNKS + SHARD_SIZE * BATCH_PARITY_CHUNKS"

lemma st_inv_new [simp]: "st_inv new_receive_state"
  by (simp add: st_inv_def new_receive_state_def bt.invar_emp bt.weight_emp bt.get_emp)

lemma weight_bound:
  assumes "bt_inv m" and "dom (bt_get m) \<subseteq> A" and "finite A" and "card A \<le> n"
    and "\<And>k v. bt_get m k = Some v \<Longrightarrow> length v \<le> (L::nat)"
  shows "bt.weight length m \<le> L * n"
proof -
  have "bt.weight length m = (\<Sum>k\<in>dom (bt_get m). length (the (bt_get m k)))"
    using assms(1) by (rule bt.weight_sum)
  also have "\<dots> \<le> (\<Sum>k\<in>dom (bt_get m). L)"
    using assms(5) by (intro sum_mono) auto
  also have "\<dots> = L * card (dom (bt_get m))" by simp
  also have "\<dots> \<le> L * n"
    using card_mono [OF assms(3,2)] assms(4) by (intro mult_le_mono2) linarith
  finally show ?thesis .
qed

lemma batch_keys: "{k. batch_for_data k = b} = {b * BATCH_DATA_CHUNKS..<Suc b * BATCH_DATA_CHUNKS}"
  by (auto simp: batch_for_data_def BATCH_DATA_CHUNKS_def)

lemma st_inv_buffered: "st_inv st \<Longrightarrow> bytes_buffered st \<le> batch_bytes"
proof -
  assume st: "st_inv st"
  let ?A = "{k. batch_for_data k = current_batch st}"
  have "finite ?A" "card ?A \<le> BATCH_DATA_CHUNKS" by (simp_all add: batch_keys)
  then have "bt.weight length (data_buffer st) \<le> CHUNK_SIZE * BATCH_DATA_CHUNKS"
    using st by (intro weight_bound [of _ ?A]) (auto simp: st_inv_def)
  moreover have "bt.weight length (parity_buffer st) \<le> SHARD_SIZE * BATCH_PARITY_CHUNKS"
    using st by (intro weight_bound [of _ "{..<BATCH_PARITY_CHUNKS}"]) (auto simp: st_inv_def)
  ultimately show ?thesis using st by (simp add: st_inv_def batch_bytes_def)
qed

section \<open>Buffering\<close>

text \<open>Under the invariant the memory cap does not bind, and the counters do not saturate.\<close>

lemma below_limit:
  "st_inv st \<Longrightarrow> n \<le> SHARD_SIZE \<Longrightarrow> sat_add64 (bytes_buffered st) n = bytes_buffered st + n
    \<and> bytes_buffered st + n \<le> BUFFER_BYTE_LIMIT"
  using st_inv_buffered [of st]
  by (auto simp: batch_bytes_def const_defs u64_max_def sat_add64_def)

lemma buffer_data_eq:
  assumes "st_inv st" and "length (pkt_data p) \<le> CHUNK_SIZE"
  shows "fst (buffer_data st ss p) =
    (if bt_get (data_buffer st) (count p) \<noteq> None then st
     else st\<lparr>bytes_buffered := bytes_buffered st + length (pkt_data p),
            bytes_transferred := sat_add64 (bytes_transferred st) (length (pkt_data p)),
            data_buffer := bt_insert (count p) (pkt_data p) (data_buffer st)\<rparr>)"
proof -
  have "length (pkt_data p) \<le> SHARD_SIZE" using assms(2) by (simp add: CHUNK_SIZE_def SHARD_SIZE_def)
  from below_limit [OF assms(1) this] show ?thesis by (simp add: buffer_data_def not_less)
qed

lemma buffer_parity_eq:
  assumes "st_inv st" and "length (pkt_data p) = SHARD_SIZE"
  shows "buffer_parity st p i =
    (if bt_get (parity_buffer st) i \<noteq> None then st
     else st\<lparr>bytes_buffered := bytes_buffered st + SHARD_SIZE,
            parity_buffer := bt_insert i (pkt_data p) (parity_buffer st)\<rparr>)"
  using below_limit [OF assms(1), of SHARD_SIZE] assms(2) by (simp add: buffer_parity_def not_less)

lemma buffer_data_inv:
  assumes "st_inv st" and "1 \<le> length (pkt_data p)" "length (pkt_data p) \<le> CHUNK_SIZE"
    and "batch_for_data (count p) = current_batch st"
  shows "st_inv (fst (buffer_data st ss p))"
  using assms
  by (auto simp: buffer_data_eq st_inv_def bt_inv_insert bt_get_insert bt.weight_ins_fresh
      split: if_splits)

lemma buffer_parity_inv:
  assumes "st_inv st" and "length (pkt_data p) = SHARD_SIZE" and "i < BATCH_PARITY_CHUNKS"
  shows "st_inv (buffer_parity st p i)"
  using assms
  by (auto simp: buffer_parity_eq st_inv_def bt_inv_insert bt_get_insert bt.weight_ins_fresh
      split: if_splits)

section \<open>Finalising and advancing\<close>

lemma st_inv_clear_buffers [simp]: "st_inv st \<Longrightarrow> st_inv (clear_buffers st)"
  by (simp add: st_inv_def clear_buffers_def bt.invar_emp bt.weight_emp bt.get_emp)

lemma st_inv_output [simp]: "st_inv (st\<lparr>output_file := h\<rparr>) = st_inv st"
  and st_inv_failed [simp]: "st_inv (st\<lparr>failed := b\<rparr>) = st_inv st"
  by (simp_all add: st_inv_def)

lemma finalize_inv:
  assumes "st_inv st" and "finalize_current_batch fec st f = (r, st', f')"
  shows "st_inv st'"
  by (rule finalize_current_batch_shape [OF assms(2)]) (use assms(1) in simp_all)

lemma finalize_clears:
  assumes "finalize_current_batch fec st f = (Inr u, st', f')"
  shows "data_buffer st' = []" "parity_buffer st' = []" "bytes_buffered st' = 0"
  by (rule finalize_current_batch_shape [OF assms]; simp add: clear_buffers_def)+

text \<open>A batch without buffered chunks can become any later batch.\<close>

lemma st_inv_next_batch:
  "st_inv st \<Longrightarrow> data_buffer st = [] \<Longrightarrow> b \<le> 10 ^ 8 \<Longrightarrow> st_inv (st\<lparr>current_batch := b\<rparr>)"
  by (simp add: st_inv_def bt.get_emp)

text \<open>A loop rule for \<open>advance_to_batch\<close>: \<open>I\<close> holds before every round, \<open>Q\<close> at the end.\<close>

lemma advance_rule:
  assumes "I st f"
    and "\<And>st f e st' f'. I st f \<Longrightarrow> \<not> failed st \<Longrightarrow> current_batch st < target
      \<Longrightarrow> finalize_current_batch fec st f = (Inl e, st', f') \<Longrightarrow> Q (st'\<lparr>failed := True\<rparr>) f'"
    and "\<And>st f u st' f'. I st f \<Longrightarrow> \<not> failed st \<Longrightarrow> current_batch st < target
      \<Longrightarrow> finalize_current_batch fec st f = (Inr u, st', f')
      \<Longrightarrow> I (st'\<lparr>current_batch := current_batch st' + 1\<rparr>) f'"
    and "\<And>st f. I st f \<Longrightarrow> failed st \<or> target \<le> current_batch st \<Longrightarrow> Q st f"
    and "advance_to_batch fec target st f = (st', f')"
  shows "Q st' f'"
  using assms(1,5)
proof (induction fec \<equiv> fec target \<equiv> target st f rule: advance_to_batch.induct)
  case (1 st f)
  note unfold = advance_to_batch.simps [of fec target st f]
  show ?case
  proof (cases "\<not> failed st \<and> current_batch st < target")
    case True
    obtain r sa fa where fin: "finalize_current_batch fec st f = (r, sa, fa)" by (rule prod_cases3)
    show ?thesis
    proof (cases r)
      case (Inl e)
      with True fin "1.prems" assms(2) show ?thesis unfolding unfold by auto
    next
      case (Inr u)
      with True fin "1.prems" show ?thesis
        using "1.hyps" [OF True fin [symmetric] Inr refl] assms(3) [OF "1.prems"(1) _ _ fin [unfolded Inr]]
        unfolding unfold by auto
    qed
  next
    case False
    with "1.prems" assms(4) show ?thesis unfolding unfold by auto
  qed
qed

lemma advance_inv:
  assumes "st_inv st" and "target \<le> 10 ^ 8" and "advance_to_batch fec target st f = (st', f')"
  shows "st_inv st'"
proof (rule advance_rule [where I = "\<lambda>st f. st_inv st" and Q = "\<lambda>st f. st_inv st", OF assms(1) _ _ _ assms(3)])
  fix st f u st' f'
  assume st: "st_inv st" "current_batch st < target"
    and fin: "finalize_current_batch fec st f = (Inr u, st', f')"
  show "st_inv (st'\<lparr>current_batch := current_batch st' + 1\<rparr>)"
    using finalize_inv [OF st(1) fin] finalize_clears [OF fin] finalize_current_batch_same(1) [OF fin]
      st(2) assms(2) by (intro st_inv_next_batch) auto
qed (auto dest: finalize_inv)

end
