(* ===== verification/Contain.thy ===== *)
theory Contain
  imports Receiver
begin

text \<open>
  Containment: the file operations of a transfer change nothing outside the output directory.
  \<open>stays out f g\<close> says that, if the output directory exists in \<open>f\<close>, then \<open>g\<close> differs from
  \<open>f\<close> only strictly below it; the relation is reflexive and transitive, so a handler stays in
  the directory when each of its calls does.
\<close>

definition below :: "bytes \<Rightarrow> bytes list \<Rightarrow> bool" where
  "below out q \<longleftrightarrow> strict_prefix (resolve out) q"

definition out_ok :: "bytes \<Rightarrow> fs \<Rightarrow> bool" where
  "out_ok out f \<longleftrightarrow> list_all (\<lambda>d. nodes f d = Some Dir) (proper_prefixes (resolve out))"

definition stays :: "bytes \<Rightarrow> fs \<Rightarrow> fs \<Rightarrow> bool" where
  "stays out f g \<longleftrightarrow> (out_ok out f \<longrightarrow> same_except (below out) f g)"

lemma proper_prefixes_iff: "d \<in> set (proper_prefixes p) \<longleftrightarrow> d \<noteq> [] \<and> prefix d p"
proof
  assume "d \<in> set (proper_prefixes p)"
  then obtain k where "1 \<le> k" "k \<le> length p" "d = take k p"
    by (auto simp: proper_prefixes_def)
  then show "d \<noteq> [] \<and> prefix d p" by (auto simp: take_is_prefix)
next
  assume d: "d \<noteq> [] \<and> prefix d p"
  then have "d = take (length d) p" by (auto simp: prefix_def)
  moreover have "length d \<in> set [1..<Suc (length p)]"
    using d prefix_length_le [of d p] by (cases d) auto
  ultimately show "d \<in> set (proper_prefixes p)" unfolding proper_prefixes_def by auto
qed

lemma below_join: "plain rel \<Longrightarrow> below out (resolve (path_join out rel))"
  by (simp add: below_def resolve_join strict_prefix_def)

lemma not_below_prefix: "prefix d (resolve out) \<Longrightarrow> \<not> below out d"
  by (simp add: below_def prefix_order.leD)

lemma out_ok_same: "out_ok out f \<Longrightarrow> same_except (below out) f g \<Longrightarrow> out_ok out g"
  using same_exceptD [of "below out" f g] not_below_prefix [of _ out]
  by (simp add: out_ok_def list_all_iff proper_prefixes_iff)

lemma stays_refl [simp, intro]: "stays out f f"
  by (simp add: stays_def)

lemma stays_trans [trans]: "stays out f g \<Longrightarrow> stays out g h \<Longrightarrow> stays out f h"
  using out_ok_same same_except_trans unfolding stays_def by blast

lemma stays_same: "same_except (below out) f g \<Longrightarrow> stays out f g"
  by (simp add: stays_def)

lemma stays_out_ok: "stays out f g \<Longrightarrow> out_ok out f \<Longrightarrow> out_ok out g"
  using out_ok_same unfolding stays_def by blast

section \<open>Single calls\<close>

lemma stays_remove_file: "plain rel \<Longrightarrow> stays out f (snd (remove_file (path_join out rel) f))"
  by (intro stays_same remove_file_frame below_join)

lemma open_write_frame [frame]:
  "P (resolve p) \<Longrightarrow> same_except P f (snd (open_write trunc p f))"
  by (auto simp: open_write_def Let_def next_fault_same split: prod.splits option.splits node.splits)

lemma set_len_frame [frame]: "P (h_path h) \<Longrightarrow> same_except P f (snd (set_len h n f))"
  by (auto simp: set_len_def next_fault_same split: prod.splits option.splits)

lemma rename_file_frame [frame]:
  "P (resolve p) \<Longrightarrow> P (resolve q) \<Longrightarrow> same_except P f (snd (rename_file p q f))"
  by (auto simp: rename_file_def next_fault_same split: prod.splits option.splits node.splits)

lemma stays_create_parent:
  assumes "plain rel" and "is_suffix t"
  shows "stays out f (snd (create_parent (path_join out (rel @ t)) f))"
  unfolding stays_def create_parent_def parent_dir_suffix [OF assms] option.case
proof (intro impI create_dir_all_frame)
  fix d assume out: "out_ok out f"
    and d: "d \<in> set (proper_prefixes (resolve out @ butlast (names (rel @ t))))"
      "nodes f d \<noteq> Some Dir"
  then have "\<not> prefix d (resolve out)" and "prefix d (resolve out @ butlast (names (rel @ t)))"
    by (auto simp: out_ok_def list_all_iff proper_prefixes_iff)
  then show "below out d" by (auto simp: below_def prefix_append strict_prefix_def)
qed

section \<open>The operations of a transfer\<close>

lemma suffixes [simp]: "is_suffix (ascii ''.failed'')" "is_suffix (ascii ''.partial'')"
  by (simp_all add: is_suffix_def slash_def)

lemma plain_partial [simp]: "plain rel \<Longrightarrow> plain (partial_name rel)"
  and plain_failed [simp]: "plain rel \<Longrightarrow> plain (failed_name rel)"
  by (simp_all only: partial_name_def failed_name_def plain_suffix suffixes)

lemma below_partial: "plain rel \<Longrightarrow> below out (resolve (partial_path out rel))"
  by (simp add: partial_path_def below_join)

lemma stays_partial_removed:
  "plain rel \<Longrightarrow> stays out f (snd (remove_file (partial_path out rel) f))"
  by (simp add: partial_path_def stays_remove_file)

lemma stays_mark_failure: "plain rel \<Longrightarrow> stays out f (mark_failure out rel f)"
proof -
  assume rel: "plain rel"
  let ?f1 = "snd (remove_file (path_join out rel) f)"
  let ?p = "path_join out (failed_name rel)"
  have "stays out f ?f1" using rel by (rule stays_remove_file)
  also have "stays out ?f1 (snd (create_parent ?p ?f1))"
    unfolding failed_name_def using rel suffixes(1) by (rule stays_create_parent)
  also have "stays out \<dots> (mark_failure out rel f)"
    unfolding mark_failure_def Let_def using rel by (intro stays_same open_write_frame below_join) simp
  finally show ?thesis .
qed

lemma open_write_handle: "open_write trunc p f = (Some h, g) \<Longrightarrow> h = \<lparr>h_path = resolve p, h_pos = 0\<rparr>"
  by (auto simp: open_write_def Let_def split: prod.splits option.splits node.splits if_splits)

lemma stays_open_output_file:
  assumes "plain rel"
  shows "stays out f (snd (open_output_file out rel n f))"
proof -
  let ?p = "partial_path out rel"
  obtain made f1 where cp: "create_parent ?p f = (made, f1)" by force
  obtain oh f2 where ow: "open_write True ?p f1 = (oh, f2)" by force
  have s1: "stays out f f1"
    using stays_create_parent [OF assms suffixes(2), of out f] cp
    by (simp add: partial_path_def partial_name_def)
  have s2: "stays out f1 f2"
    using stays_same [OF open_write_frame, of out ?p f1 True] below_partial [OF assms] ow by simp
  have s3: "stays out f2 (snd (set_len h n f2))" if "oh = Some h" for h
    using ow that below_partial [OF assms] open_write_handle [of True ?p f1 h f2]
    by (intro stays_same set_len_frame) simp
  show ?thesis
    using s1 stays_trans [OF s1 s2] stays_trans [OF stays_trans [OF s1 s2] s3] cp ow
    by (cases oh) (auto simp: open_output_file_def Let_def split: prod.splits bool.splits)
qed

end
