(* ===== verification/Worker_Inv.thy ===== *)
theory Worker_Inv
  imports Worker Receiver_Inv Contain
begin

text \<open>
  The invariant of the packet worker and its preservation by every handler: between transfers the
  state is the initial one; during a transfer the path is safe, the output is open on the partial
  file, and that file exists with exactly the declared size. With it, every handler stays inside
  the output directory, and a packet of a running transfer changes the partial file only.
\<close>

section \<open>The invariant\<close>

definition tr_open :: "bytes \<Rightarrow> bytes \<Rightarrow> receive_state \<Rightarrow> fs \<Rightarrow> bool" where
  "tr_open out p st f \<longleftrightarrow>
     file_path st = Some p \<and> is_safe_rel_path p \<and> 0 \<notin> set p \<and> st_inv st
     \<and> (\<exists>h c. output_file st = Some h \<and> h_path h = resolve (partial_path out p)
            \<and> nodes f (h_path h) = Some (Reg c) \<and> length c = file_size st)"

definition rx_inv :: "'d rx_env \<Rightarrow> rx \<Rightarrow> bool" where
  "rx_inv env w \<longleftrightarrow>
     (case file_path (rx_state w) of
        None \<Rightarrow> rx_state w = new_receive_state
      | Some p \<Rightarrow> tr_open (env_out env) p (rx_state w) (rx_fs w))"

definition only_partial :: "bytes \<Rightarrow> bytes \<Rightarrow> fs \<Rightarrow> fs \<Rightarrow> bool" where
  "only_partial out p f g \<longleftrightarrow> same_except (\<lambda>q. q = resolve (partial_path out p)) f g"

lemma tr_open_path: "tr_open out p st f \<Longrightarrow> file_path st = Some p \<and> plain p"
  by (simp add: tr_open_def is_safe_plain)

lemma tr_open_st_inv: "tr_open out p st f \<Longrightarrow> st_inv st"
  by (simp add: tr_open_def)

lemma rx_inv_idle: "rx_state w = new_receive_state \<Longrightarrow> rx_inv env w"
  by (simp add: rx_inv_def new_receive_state_def)

lemma rx_inv_open: "tr_open (env_out env) p (rx_state w) (rx_fs w) \<Longrightarrow> rx_inv env w"
  by (simp add: rx_inv_def tr_open_path)

lemma rx_inv_receiving:
  "rx_inv env w \<Longrightarrow> file_path (rx_state w) = Some p \<Longrightarrow> tr_open (env_out env) p (rx_state w) (rx_fs w)"
  by (simp add: rx_inv_def)

lemma only_partial_stays: "plain p \<Longrightarrow> only_partial out p f g \<Longrightarrow> stays out f g"
  unfolding only_partial_def by (intro stays_same) (auto intro: same_except_mono below_partial)

lemma only_partial_refl [simp]: "only_partial out p f f"
  by (simp add: only_partial_def)

lemma only_partial_trans [trans]:
  "only_partial out p f g \<Longrightarrow> only_partial out p g h \<Longrightarrow> only_partial out p f h"
  unfolding only_partial_def by (rule same_except_trans)

section \<open>Batches\<close>

lemma finalize_open:
  assumes "tr_open out p st f" and "finalize_current_batch fec st f = (r, st', f')"
  shows "tr_open out p st' f' \<and> only_partial out p f f'"
proof -
  obtain h c where h: "output_file st = Some h" "h_path h = resolve (partial_path out p)"
    "nodes f (h_path h) = Some (Reg c)" "length c = file_size st"
    using assms(1) by (auto simp: tr_open_def)
  have "current_batch st \<le> 10 ^ 8" using assms(1) by (simp add: tr_open_def st_inv_def)
  from finalize_keeps_size [OF this h(1,3,4) assms(2)]
  obtain c' h' where h': "nodes f' = (nodes f)(h_path h \<mapsto> Reg c')" "length c' = length c"
    "output_file st' = Some h'" "h_path h' = h_path h" by blast
  have "tr_open out p st' f'"
    using assms(1) finalize_inv [OF _ assms(2)] finalize_current_batch_same [OF assms(2)] h h'
    by (auto simp: tr_open_def)
  moreover have "only_partial out p f f'"
    using h(2) h'(1) by (simp add: only_partial_def same_except_def)
  ultimately show ?thesis ..
qed

lemma tr_open_failed [simp]: "tr_open out p (st\<lparr>failed := b\<rparr>) f = tr_open out p st f"
  by (simp add: tr_open_def)

lemma tr_open_next_batch:
  "tr_open out p st f \<Longrightarrow> data_buffer st = [] \<Longrightarrow> b \<le> 10 ^ 8 \<Longrightarrow> tr_open out p (st\<lparr>current_batch := b\<rparr>) f"
  by (auto simp: tr_open_def intro: st_inv_next_batch)

lemma advance_open:
  assumes "tr_open out p st f" and "target \<le> 10 ^ 8"
    and "advance_to_batch fec target st f = (st', f')"
  shows "tr_open out p st' f' \<and> only_partial out p f f'"
proof (rule advance_rule [where I = "\<lambda>s g. tr_open out p s g \<and> only_partial out p f g"
      and Q = "\<lambda>s g. tr_open out p s g \<and> only_partial out p f g", OF _ _ _ _ assms(3)])
  show "tr_open out p st f \<and> only_partial out p f f" using assms(1) by simp
next
  fix s g e s' g'
  assume I: "tr_open out p s g \<and> only_partial out p f g"
    and fin: "finalize_current_batch fec s g = (Inl e, s', g')"
  show "tr_open out p (s'\<lparr>failed := True\<rparr>) g' \<and> only_partial out p f g'"
    using I finalize_open [OF _ fin, of out p] by (auto intro: only_partial_trans)
next
  fix s g u s' g'
  assume I: "tr_open out p s g \<and> only_partial out p f g" and less: "current_batch s < target"
    and fin: "finalize_current_batch fec s g = (Inr u, s', g')"
  have "current_batch s' + 1 \<le> 10 ^ 8"
    using less assms(2) finalize_current_batch_same(1) [OF fin] by simp
  then show "tr_open out p (s'\<lparr>current_batch := current_batch s' + 1\<rparr>) g' \<and> only_partial out p f g'"
    using I finalize_open [OF _ fin] finalize_clears(1) [OF fin] tr_open_next_batch
    by (blast intro: only_partial_trans)
qed simp

section \<open>Handlers of a running transfer\<close>

lemma tr_open_cong:
  assumes "tr_open out p st f" and "st_inv st'" and "file_path st' = file_path st"
    and "output_file st' = output_file st" and "file_size st' = file_size st"
  shows "tr_open out p st' f"
  using assms by (simp add: tr_open_def)

lemma buffer_data_same:
  "fst (buffer_data st ss p) = st' \<Longrightarrow> file_path st' = file_path st \<and> output_file st' = output_file st
    \<and> file_size st' = file_size st \<and> current_batch st' = current_batch st"
  by (auto simp: buffer_data_def)

lemma buffer_parity_same:
  "file_path (buffer_parity st p i) = file_path st \<and> output_file (buffer_parity st p i) = output_file st
    \<and> file_size (buffer_parity st p i) = file_size st
    \<and> current_batch (buffer_parity st p i) = current_batch st"
  by (auto simp: buffer_parity_def)

lemma advance_rx_open:
  assumes "tr_open (env_out env) p (rx_state w) (rx_fs w)" and "b \<le> 10 ^ 8"
  shows "tr_open (env_out env) p (rx_state (advance_rx env b w)) (rx_fs (advance_rx env b w))
    \<and> only_partial (env_out env) p (rx_fs w) (rx_fs (advance_rx env b w))"
  using assms advance_open [OF assms, of "env_fec env"]
  by (auto simp: advance_rx_def split: prod.split)

lemma batch_bounds:
  "n < 10 ^ 10 \<Longrightarrow> batch_for_data n \<le> 10 ^ 8" "n < 10 ^ 10 \<Longrightarrow> batch_for_parity n \<le> 10 ^ 8"
  by (auto simp: batch_for_data_def batch_for_parity_def BATCH_DATA_CHUNKS_def BATCH_PARITY_CHUNKS_def)

lemma handle_data_open:
  assumes "tr_open (env_out env) p (rx_state w) (rx_fs w)" and "count pk < 10 ^ 10"
  shows "tr_open (env_out env) p (rx_state (handle_data env pk w)) (rx_fs (handle_data env pk w))
    \<and> only_partial (env_out env) p (rx_fs w) (rx_fs (handle_data env pk w))"
proof (cases "\<not> failed (rx_state w) \<and> is_chunk_valid (env_md5 env) pk (rx_state w) PKG_TYPE_DATA")
  case True
  let ?w = "advance_rx env (batch_for_data (count pk)) w"
  have w: "tr_open (env_out env) p (rx_state ?w) (rx_fs ?w)"
    "only_partial (env_out env) p (rx_fs w) (rx_fs ?w)"
    using advance_rx_open [OF assms(1) batch_bounds(1) [OF assms(2)]] by auto
  have len: "1 \<le> length (pkt_data pk)" "length (pkt_data pk) \<le> CHUNK_SIZE"
    using True by (auto simp: is_chunk_valid_def PKG_TYPE_DATA_def split: if_splits)
  have "tr_open (env_out env) p (fst (buffer_data (rx_state ?w) (rx_stats ?w) pk)) (rx_fs ?w)"
    if "batch_for_data (count pk) = current_batch (rx_state ?w)"
    using w(1) tr_open_st_inv [OF w(1)] len that buffer_data_same [OF refl]
    by (intro tr_open_cong [OF w(1)] buffer_data_inv) auto
  with w True show ?thesis
    by (auto simp: handle_data_def Let_def split: prod.split)
next
  case False
  then have "handle_data env pk w = w" unfolding handle_data_def by (simp only: if_False)
  with assms(1) show ?thesis by simp
qed

lemma handle_parity_open:
  assumes "tr_open (env_out env) p (rx_state w) (rx_fs w)" and "count pk < 10 ^ 10"
  shows "tr_open (env_out env) p (rx_state (handle_parity env pk w)) (rx_fs (handle_parity env pk w))
    \<and> only_partial (env_out env) p (rx_fs w) (rx_fs (handle_parity env pk w))"
proof (cases "\<not> failed (rx_state w) \<and> is_chunk_valid (env_md5 env) pk (rx_state w) PKG_TYPE_PARITY")
  case True
  let ?w = "advance_rx env (batch_for_parity (count pk)) w"
  let ?st = "buffer_parity (rx_state ?w) pk (count pk mod BATCH_PARITY_CHUNKS)"
  have w: "tr_open (env_out env) p (rx_state ?w) (rx_fs ?w)"
    "only_partial (env_out env) p (rx_fs w) (rx_fs ?w)"
    using advance_rx_open [OF assms(1) batch_bounds(2) [OF assms(2)]] by auto
  have len: "length (pkt_data pk) = SHARD_SIZE"
    using True by (auto simp: is_chunk_valid_def PKG_TYPE_PARITY_def PKG_TYPE_DATA_def split: if_splits)
  have "tr_open (env_out env) p ?st (rx_fs ?w)"
    using w(1) tr_open_st_inv [OF w(1)] len buffer_parity_same
    by (intro tr_open_cong [OF w(1)] buffer_parity_inv) (auto simp: BATCH_PARITY_CHUNKS_def)
  with w True show ?thesis by (auto simp: handle_parity_def Let_def)
next
  case False
  then have "handle_parity env pk w = w" unfolding handle_parity_def by (simp only: if_False)
  with assms(1) show ?thesis by simp
qed

section \<open>Starting a file\<close>

lemma open_write_trunc:
  assumes "open_write True q f = (Some h, g)"
  shows "h = \<lparr>h_path = resolve q, h_pos = 0\<rparr>" and "nodes g (resolve q) = Some (Reg [])"
  using assms
  by (auto simp: open_write_def Let_def split: prod.splits option.splits node.splits if_splits)

lemma open_output_file_Some:
  assumes "open_output_file out rel n f = (Some h, g)"
  shows "h = \<lparr>h_path = resolve (partial_path out rel), h_pos = 0\<rparr>
    \<and> (\<exists>c. nodes g (h_path h) = Some (Reg c) \<and> length c = n)"
proof -
  let ?p = "partial_path out rel"
  obtain made f1 where cp: "create_parent ?p f = (made, f1)" by force
  obtain oh f2 where ow: "open_write True ?p f1 = (oh, f2)" by force
  from assms cp ow obtain k where k: "oh = Some k"
    by (cases oh) (auto simp: open_output_file_def Let_def split: if_splits)
  obtain ok f3 where sl: "set_len k n f2 = (ok, f3)" by force
  note opened = open_write_trunc [OF ow [unfolded k]]
  have res: "(if n > 0 then if ok then (Some k, f3) else (None, f3) else (Some k, f2)) = (Some h, g)"
    using assms cp ow k sl
    by (auto simp: open_output_file_def Let_def split: if_splits bool.splits)
  have "nodes f3 (resolve ?p) = Some (Reg (resize n []))" if ok
    using sl that opened
    by (auto simp: set_len_def update_reg_def next_fault_nodes split: prod.splits option.splits)
  with res opened show ?thesis by (auto split: if_splits)
qed

lemma reset_rx_simps [simp]:
  "rx_state (reset_rx b w) = new_receive_state" "rx_fs (reset_rx b w) = rx_fs w"
  "rx_udp (reset_rx b w) = rx_udp w" "rx_state_poisoned (reset_rx b w) = rx_state_poisoned w"
  "rx_stats (reset_rx b w) = snd (reset_transfer (rx_stats w) (rx_state w) b)"
  by (simp_all add: reset_rx_def reset_transfer_def)

lemma count_failure_simps [simp]:
  "rx_state (count_failure w) = rx_state w" "rx_fs (count_failure w) = rx_fs w"
  "rx_state_poisoned (count_failure w) = rx_state_poisoned w"
  by (simp_all add: count_failure_def)

lemma idle_file_path [simp]: "file_path new_receive_state = None"
  by (simp add: new_receive_state_def)

lemma abandon_previous_idle:
  assumes "rx_inv env w"
  shows "rx_state (abandon_previous (env_out env) w) = new_receive_state"
    and "stays (env_out env) (rx_fs w) (rx_fs (abandon_previous (env_out env) w))"
proof -
  show "rx_state (abandon_previous (env_out env) w) = new_receive_state"
    using assms by (simp add: abandon_previous_def rx_inv_def Let_def split: option.split option.splits)
  show "stays (env_out env) (rx_fs w) (rx_fs (abandon_previous (env_out env) w))"
  proof (cases "file_path (rx_state w)")
    case (Some p)
    then have p: "plain p" using assms rx_inv_receiving tr_open_path by blast
    with stays_trans [OF stays_partial_removed stays_mark_failure, OF p p] Some show ?thesis
      by (simp add: abandon_previous_def Let_def)
  qed (simp add: abandon_previous_def)
qed

lemma begin_transfer_inv:
  assumes "rx_state w = new_receive_state" and "is_safe_rel_path path" and "0 \<notin> set path"
    and "fsize < 10 ^ 10"
  shows "rx_inv env (begin_transfer (env_out env) path fsize hash ppb w)
    \<and> stays (env_out env) (rx_fs w) (rx_fs (begin_transfer (env_out env) path fsize hash ppb w))"
proof -
  let ?out = "env_out env"
  have pl: "plain path" using assms(2) by (simp add: is_safe_plain)
  let ?f1 = "snd (remove_file (path_join ?out path) (rx_fs w))"
  let ?f2 = "snd (remove_file (partial_path ?out path) ?f1)"
  let ?f3 = "snd (remove_file (path_join ?out (failed_name path)) ?f2)"
  obtain oh g where op: "open_output_file ?out path fsize ?f3 = (oh, g)" by force
  have "stays ?out (rx_fs w) ?f1" using pl by (rule stays_remove_file)
  also have "stays ?out ?f1 ?f2" using pl by (rule stays_partial_removed)
  also have "stays ?out ?f2 ?f3" using pl by (intro stays_remove_file) simp
  also have "stays ?out ?f3 g" using stays_open_output_file [OF pl] op by (metis snd_conv)
  finally have g: "stays ?out (rx_fs w) g" .
  show ?thesis
  proof (cases oh)
    case None
    then show ?thesis
      using op assms(1) stays_trans [OF g stays_mark_failure [OF pl]]
      by (simp add: begin_transfer_def Let_def rx_inv_idle)
  next
    case (Some h)
    note h = open_output_file_Some [OF op [unfolded Some]]
    have "st_inv ((rx_state w)\<lparr>file_path := Some path, path_hash := Some hash, file_size := fsize,
        parity_per_batch := ppb, current_batch := 0, output_file := Some h\<rparr>)"
      using assms(1,4)
      by (simp add: st_inv_def new_receive_state_def bt.invar_emp bt.weight_emp bt.get_emp)
    then show ?thesis
      using op Some h g assms(1,2,3)
      by (auto simp: begin_transfer_def Let_def tr_open_def intro!: rx_inv_open)
  qed
qed

lemma new_file_inv:
  assumes "rx_inv env w" and "fsize < 10 ^ 10"
  shows "rx_inv env (new_file (env_out env) path fsize hash ppb w)
    \<and> stays (env_out env) (rx_fs w) (rx_fs (new_file (env_out env) path fsize hash ppb w))"
proof (cases "file_path (rx_state w) = Some path")
  case False
  note idle = abandon_previous_idle [OF assms(1)]
  show ?thesis
  proof (cases "is_safe_rel_path path \<and> 0 \<notin> set path")
    case True
    with False begin_transfer_inv [OF idle(1) _ _ assms(2), where path = path]
      stays_trans [OF idle(2)] show ?thesis by (auto simp: new_file_def Let_def)
  next
    case bad: False
    with False have "new_file (env_out env) path fsize hash ppb w
        = reset_rx False (count_failure (abandon_previous (env_out env) w))"
      by (auto simp: new_file_def Let_def)
    with idle(2) show ?thesis by (simp add: rx_inv_idle)
  qed
qed (use assms in \<open>simp add: new_file_def\<close>)

section \<open>Finishing a file\<close>

lemma finish_failed_inv:
  assumes "plain p"
  shows "rx_state (finish_failed out p w) = new_receive_state"
    and "stays out (rx_fs w) (rx_fs (finish_failed out p w))"
  using stays_trans [OF stays_partial_removed stays_mark_failure, OF assms assms]
  by (simp_all add: finish_failed_def Let_def)

lemma publish_inv:
  assumes "plain p"
  shows "rx_state (publish out p w) = new_receive_state"
    and "stays out (rx_fs w) (rx_fs (publish out p w))"
proof -
  obtain ok f where rn: "rename_file (partial_path out p) (path_join out p) (rx_fs w) = (ok, f)" by force
  show "rx_state (publish out p w) = new_receive_state"
    using rn finish_failed_inv(1) [OF assms] by (simp add: publish_def Let_def split: bool.split)
  have f: "stays out (rx_fs w) f"
    using stays_same [OF rename_file_frame, OF below_partial below_join, OF assms assms] rn
    by (metis snd_conv)
  have "stays out f (snd (remove_file (path_join out (failed_name p)) f))"
    using assms by (intro stays_remove_file) simp
  then show "stays out (rx_fs w) (rx_fs (publish out p w))"
    using rn f stays_trans [OF f] finish_failed_inv(2) [OF assms, of out "w\<lparr>rx_fs := f\<rparr>"]
    by (simp add: publish_def Let_def split: bool.split)
qed

lemma finalize_last_open:
  assumes "tr_open out p (rx_state w) (rx_fs w)"
  shows "file_path (rx_state (finalize_last fec w)) = Some p"
    and "only_partial out p (rx_fs w) (rx_fs (finalize_last fec w))"
proof -
  obtain r st f where fin: "finalize_current_batch fec (rx_state w) (rx_fs w) = (r, st, f)"
    by (rule prod_cases3)
  show "file_path (rx_state (finalize_last fec w)) = Some p"
    using fin tr_open_path [OF assms] finalize_current_batch_same(3) [OF fin]
    by (auto simp: finalize_last_def split: sum.split)
  show "only_partial out p (rx_fs w) (rx_fs (finalize_last fec w))"
    using fin finalize_open [OF assms fin] by (auto simp: finalize_last_def split: sum.split)
qed

lemma finish_file_inv:
  assumes "rx_inv env w"
  shows "rx_inv env (finish_file env w) \<and> stays (env_out env) (rx_fs w) (rx_fs (finish_file env w))"
proof (cases "file_path (rx_state w)")
  case (Some p)
  note op = rx_inv_receiving [OF assms Some]
  have p: "plain p" using op tr_open_path by blast
  let ?w = "finalize_last (env_fec env) w"
  have "stays (env_out env) (rx_fs w) (rx_fs ?w)"
    by (rule only_partial_stays [OF p finalize_last_open(2) [OF op]])
  from stays_trans [OF this finish_failed_inv(2) [OF p]] stays_trans [OF this publish_inv(2) [OF p]]
  show ?thesis
    using Some finish_failed_inv(1) [OF p] publish_inv(1) [OF p]
    by (auto simp: finish_file_def Let_def intro: rx_inv_idle)
qed (use assms in \<open>simp add: finish_file_def\<close>)

section \<open>The step\<close>

lemma acquire_state_inv:
  assumes "rx_inv env w"
  shows "rx_inv env (acquire_state env w) \<and> stays (env_out env) (rx_fs w) (rx_fs (acquire_state env w))"
proof (cases "rx_state_poisoned w")
  case True
  have "plain p" if "file_path (rx_state w) = Some p" for p
    using rx_inv_receiving [OF assms that] tr_open_path by blast
  with True show ?thesis
    by (auto simp: acquire_state_def stays_partial_removed intro: rx_inv_idle split: option.split)
qed (use assms in \<open>simp add: acquire_state_def\<close>)

text \<open>What every handler guarantees: the invariant, and that it stays in the output directory.\<close>

definition step_ok :: "'d rx_env \<Rightarrow> rx \<Rightarrow> rx \<Rightarrow> bool" where
  "step_ok env w v \<longleftrightarrow> rx_inv env v \<and> stays (env_out env) (rx_fs w) (rx_fs v)"

lemma handle_start_ok: "rx_inv env w \<Longrightarrow> count pk < 10 ^ 10 \<Longrightarrow> step_ok env w (handle_start env pk w)"
  unfolding step_ok_def handle_start_def Let_def by (rule new_file_inv)

lemma finish_file_ok: "rx_inv env w \<Longrightarrow> step_ok env w (finish_file env w)"
  unfolding step_ok_def by (rule finish_file_inv)

lemma handle_udp_ok: "rx_inv env w \<Longrightarrow> step_ok env w (handle_udp pk w)"
  by (cases "file_path (rx_state w)") (simp_all add: step_ok_def handle_udp_def rx_inv_def)

lemma open_ok:
  assumes "rx_inv env w" and "file_path (rx_state w) = Some p"
    and "tr_open (env_out env) p (rx_state v) (rx_fs v) \<and> only_partial (env_out env) p (rx_fs w) (rx_fs v)"
  shows "step_ok env w v"
  using assms tr_open_path [of "env_out env" p] rx_inv_open only_partial_stays
  unfolding step_ok_def by blast

lemma handle_packet_ok:
  assumes "rx_inv env w" and "count pk < 10 ^ 10"
  shows "step_ok env w (handle_packet env pk w)"
proof -
  have "step_ok env w (handle_data env pk w) \<and> step_ok env w (handle_parity env pk w)"
    if p: "file_path (rx_state w) = Some p" for p
    using open_ok [OF assms(1) p] rx_inv_receiving [OF assms(1) p] assms(2)
      handle_data_open [of env p w pk] handle_parity_open [of env p w pk] by blast
  moreover have "step_ok env w w" using assms(1) by (simp add: step_ok_def)
  ultimately show ?thesis
    using handle_start_ok [OF assms] finish_file_ok [OF assms(1)] handle_udp_ok [OF assms(1)]
    unfolding handle_packet_def Let_def by (auto split: if_split)
qed

lemma handle_packet_inv:
  "rx_inv env w \<Longrightarrow> count pk < 10 ^ 10 \<Longrightarrow> rx_inv env (handle_packet env pk w)
    \<and> stays (env_out env) (rx_fs w) (rx_fs (handle_packet env pk w))"
  using handle_packet_ok unfolding step_ok_def .

lemma worker_step_inv:
  assumes "rx_inv env w"
  shows "rx_inv env (worker_step env w raw) \<and> stays (env_out env) (rx_fs w) (rx_fs (worker_step env w raw))"
proof (cases "decode_packet raw")
  case (Some pk)
  note a = acquire_state_inv [OF assms]
  show ?thesis
    using handle_packet_inv [OF conjunct1 [OF a] decode_packet_Some(3) [OF Some]] stays_trans a Some
    by (auto simp: worker_step_def)
qed (use assms in \<open>simp add: worker_step_def\<close>)

text \<open>The packet worker is a machine in the sense of the interface, for every environment.\<close>

interpretation worker: machine "worker_step env" "rx_inv env" for env
  by unfold_locales (use worker_step_inv in blast)

lemma initial_rx_inv: "rx_inv env (initial_rx f)"
  by (rule rx_inv_idle) (simp add: initial_rx_def)

lemma worker_run_inv: "rx_inv env w \<Longrightarrow> rx_inv env (worker_run env w raws)"
  unfolding worker_run_def by (rule worker.run_inv)

lemma worker_run_stays: "rx_inv env w \<Longrightarrow> stays (env_out env) (rx_fs w) (rx_fs (worker_run env w raws))"
  unfolding worker_run_def
  by (rule worker.run_rel [where R = "\<lambda>w v. stays (env_out env) (rx_fs w) (rx_fs v)"])
    (auto intro: stays_trans conjunct2 [OF worker_step_inv])

end
