(* ===== verification/Fs_Clean.thy ===== *)
theory Fs_Clean
  imports Contain Batch
begin

text \<open>
  The file calls when the environment injects no failure: what each leaves in the tree. Used for
  the functional theorems, the failures having been covered by the invariants.
\<close>

definition clean :: "fs \<Rightarrow> bool" where
  "clean f \<longleftrightarrow> faults f = []"

lemma next_fault_clean [simp]: "clean f \<Longrightarrow> next_fault f = (None, f)"
  by (simp add: clean_def next_fault_def)

lemma clean_put_node [simp]: "clean (put_node p n f) = clean f"
  by (simp add: clean_def put_node_def)

lemma clean_update_reg [simp]: "clean (update_reg p g f) = clean f"
  by (simp add: clean_def update_reg_def put_node_def split: option.split node.split)

lemma remove_file_clean:
  assumes "clean f"
  shows "clean (snd (remove_file p f))"
    and "nodes (snd (remove_file p f)) q =
      (if q = resolve p \<and> \<not> dir_form p \<and> (\<exists>c. nodes f q = Some (Reg c)) then None else nodes f q)"
  using assms by (auto simp: remove_file_def split: option.split node.split)

lemma make_dirs_clean:
  "clean f \<Longrightarrow> (\<And>d. d \<in> set ds \<Longrightarrow> nodes f d = None \<or> nodes f d = Some Dir) \<Longrightarrow>
    \<exists>g. make_dirs ds f = (True, g) \<and> clean g
      \<and> nodes g = (\<lambda>q. if q \<in> set ds then Some Dir else nodes f q)"
proof (induction ds f rule: make_dirs.induct)
  case (2 d ds f)
  note dirs = "2.prems"(2)
  show ?case
  proof (cases "nodes f d")
    case None
    have "clean (put_node d (Some Dir) f)" using "2.prems"(1) by simp
    moreover have "nodes (put_node d (Some Dir) f) x = None \<or> nodes (put_node d (Some Dir) f) x = Some Dir"
      if "x \<in> set ds" for x using dirs [of x] that by simp
    ultimately obtain g where "make_dirs ds (put_node d (Some Dir) f) = (True, g)" "clean g"
      "nodes g = (\<lambda>q. if q \<in> set ds then Some Dir else nodes (put_node d (Some Dir) f) q)"
      using "2.IH"(1) [OF None] by blast
    with None show ?thesis by (auto simp: fun_eq_iff)
  next
    case (Some x)
    with dirs [of d] have x: "x = Dir" by auto
    obtain g where "make_dirs ds f = (True, g)" "clean g"
      "nodes g = (\<lambda>q. if q \<in> set ds then Some Dir else nodes f q)"
      using "2.IH"(2) [OF Some x "2.prems"(1)] dirs by auto
    with Some x show ?thesis by (auto simp: fun_eq_iff)
  qed
qed simp

lemma create_parent_clean:
  assumes "clean f" and "plain rel" and "is_suffix t"
    and "\<And>d. d \<noteq> [] \<Longrightarrow> prefix d (resolve out @ butlast (names (rel @ t)))
      \<Longrightarrow> nodes f d = None \<or> nodes f d = Some Dir"
  shows "\<exists>g. create_parent (path_join out (rel @ t)) f = (True, g) \<and> clean g
    \<and> nodes g = (\<lambda>q. if q \<noteq> [] \<and> prefix q (resolve out @ butlast (names (rel @ t)))
                     then Some Dir else nodes f q)"
  using make_dirs_clean [OF assms(1), of "proper_prefixes (resolve out @ butlast (names (rel @ t)))"] assms(4)
  by (simp add: create_parent_def parent_dir_suffix [OF assms(2,3)] create_dir_all_def assms(1)
      proper_prefixes_iff)

section \<open>Names of the files of a transfer\<close>

lemma file_form_plain: "file_form rel \<Longrightarrow> plain rel"
  by (simp add: file_form_def)

text \<open>Where the three files of a transfer are, for a path that can name a file.\<close>

definition final_at :: "bytes \<Rightarrow> bytes \<Rightarrow> bytes list" where
  "final_at out rel = resolve (path_join out rel)"

definition partial_at :: "bytes \<Rightarrow> bytes \<Rightarrow> bytes list" where
  "partial_at out rel = resolve (partial_path out rel)"

definition failed_at :: "bytes \<Rightarrow> bytes \<Rightarrow> bytes list" where
  "failed_at out rel = resolve (path_join out (failed_name rel))"

definition parent_at :: "bytes \<Rightarrow> bytes \<Rightarrow> bytes list" where
  "parent_at out rel = resolve out @ butlast (names rel)"

lemma files_at:
  assumes "file_form rel"
  shows "final_at out rel = parent_at out rel @ [last (names rel)]"
    and "partial_at out rel = parent_at out rel @ [last (names rel) @ ascii ''.partial'']"
    and "failed_at out rel = parent_at out rel @ [last (names rel) @ ascii ''.failed'']"
proof -
  note p = file_form_plain [OF assms]
  show "final_at out rel = parent_at out rel @ [last (names rel)]"
    using p by (simp add: final_at_def parent_at_def resolve_join)
  show "partial_at out rel = parent_at out rel @ [last (names rel) @ ascii ''.partial'']"
    using names_suffix [OF assms suffixes(2)] plain_partial [OF p]
    by (simp add: partial_at_def partial_path_def partial_name_def parent_at_def resolve_join del: ascii_Cons)
  show "failed_at out rel = parent_at out rel @ [last (names rel) @ ascii ''.failed'']"
    using names_suffix [OF assms suffixes(1)] plain_failed [OF p]
    by (simp add: failed_at_def failed_name_def parent_at_def resolve_join del: ascii_Cons)
qed

lemma files_distinct:
  assumes "plain rel"
  shows "final_at out rel \<noteq> partial_at out rel" "final_at out rel \<noteq> failed_at out rel"
    "partial_at out rel \<noteq> failed_at out rel"
  using names_suffix_neq [OF assms suffixes(1)] names_suffix_neq [OF assms suffixes(2)]
    names_suffixes_neq [OF assms suffixes(2,1)] plain_partial [OF assms] plain_failed [OF assms] assms
  by (simp_all add: final_at_def partial_at_def failed_at_def partial_path_def resolve_join
      partial_name_def failed_name_def del: ascii_Cons) (simp_all add: of_char_def)

lemma files_not_parent:
  assumes "file_form rel" and "prefix q (parent_at out rel)"
  shows "q \<noteq> final_at out rel" "q \<noteq> partial_at out rel" "q \<noteq> failed_at out rel"
  using assms(2) by (auto simp: files_at [OF assms(1)] dest: prefix_length_le)

lemma dir_form_join:
  assumes "plain rel"
  shows "dir_form (path_join out rel) = dir_form rel"
proof -
  consider "out = []" | b where "out = b @ [slash]" | "out \<noteq> []" "last out \<noteq> slash"
    by (metis append_butlast_last_id)
  then show ?thesis
    using plain_not_rooted [OF assms]
    by cases (simp_all add: path_join_def dir_form_def split_slash_append_slash)
qed

lemma dir_form_suffix: "is_suffix t \<Longrightarrow> \<not> dir_form (rel @ t)"
  using split_slash_append_word [of t rel]
  by (auto simp: is_suffix_def dir_form_def dot_def dotdot_def dest: arg_cong [of _ _ length])

lemma dir_forms [simp]:
  assumes "file_form rel"
  shows "\<not> dir_form (path_join out rel)" "\<not> dir_form (partial_path out rel)"
    "\<not> dir_form (path_join out (failed_name rel))"
proof -
  note p = file_form_plain [OF assms]
  show "\<not> dir_form (path_join out rel)" using assms p by (simp add: dir_form_join file_form_def)
  show "\<not> dir_form (partial_path out rel)"
    using dir_form_join [OF plain_partial [OF p]] dir_form_suffix [OF suffixes(2)]
    by (simp only: partial_path_def partial_name_def simp_thms)
  show "\<not> dir_form (path_join out (failed_name rel))"
    using dir_form_join [OF plain_failed [OF p]] dir_form_suffix [OF suffixes(1)]
    by (simp only: failed_name_def simp_thms)
qed

end
