(* ===== verification/Worker_Facts.thy ===== *)
theory Worker_Facts
  imports Worker_Inv Fs_Clean
begin

text \<open>
  Facts about runs of the packet worker from its start: the buffers stay bounded, and a transfer
  that ends is either published with the declared size or counted as failed. The properties they
  lead to are in \<open>Worker_Props\<close>.
\<close>

section \<open>Runs\<close>

text \<open>The state of the worker after a sequence of datagrams, from its start.\<close>

definition worker_state :: "'d rx_env \<Rightarrow> fs \<Rightarrow> bytes list \<Rightarrow> rx" where
  "worker_state env f raws = worker_run env (initial_rx f) raws"

lemma worker_state_inv: "rx_inv env (worker_state env f raws)"
  unfolding worker_state_def by (rule worker_run_inv [OF initial_rx_inv])

lemma rx_inv_st_inv: "rx_inv env w \<Longrightarrow> st_inv (rx_state w)"
  by (auto simp: rx_inv_def tr_open_def split: option.splits)

lemma counts_bounded:
  assumes "st_inv st"
  shows "length (data_buffer st) \<le> BATCH_DATA_CHUNKS" "length (parity_buffer st) \<le> BATCH_PARITY_CHUNKS"
proof -
  have "dom (bt_get (data_buffer st)) \<subseteq> {k. batch_for_data k = current_batch st}"
    "dom (bt_get (parity_buffer st)) \<subseteq> {..<BATCH_PARITY_CHUNKS}"
    using assms by (auto simp: st_inv_def)
  from card_mono [OF _ this(1)] card_mono [OF _ this(2)]
  show "length (data_buffer st) \<le> BATCH_DATA_CHUNKS" "length (parity_buffer st) \<le> BATCH_PARITY_CHUNKS"
    using assms bt.length_entries [of "data_buffer st"] bt.length_entries [of "parity_buffer st"]
    by (simp_all add: st_inv_def batch_keys)
qed

section \<open>The outcome of a transfer\<close>

text \<open>No regular file is new at a name, nor changed.\<close>

definition unpublished :: "bytes list \<Rightarrow> fs \<Rightarrow> fs \<Rightarrow> bool" where
  "unpublished q f g \<longleftrightarrow> (\<forall>c. nodes g q = Some (Reg c) \<longrightarrow> nodes f q = Some (Reg c))"

lemma unpublished_same: "nodes g q = nodes f q \<Longrightarrow> unpublished q f g"
  by (simp add: unpublished_def)

lemma unpublished_trans [trans]: "unpublished q f g \<Longrightarrow> unpublished q g h \<Longrightarrow> unpublished q f h"
  by (simp add: unpublished_def)

lemma unpublished_remove_file: "unpublished q f (snd (remove_file p f))"
  by (auto simp: unpublished_def remove_file_def next_fault_nodes split: prod.splits option.splits
      node.splits if_splits)

lemma unpublished_make_dirs: "unpublished q f (snd (make_dirs ds f))"
proof (induction ds f rule: make_dirs.induct)
  case (2 d ds f)
  have "unpublished q f (put_node d (Some Dir) f)" by (simp add: unpublished_def)
  with 2 show ?case by (auto split: option.split node.split intro: unpublished_trans simp: unpublished_same)
qed (simp add: unpublished_same)

lemma unpublished_create_parent: "unpublished q f (snd (create_parent p f))"
proof -
  obtain x f' where nf: "next_fault f = (x, f')" by force
  have "unpublished q f (snd (make_dirs ds f'))" for ds
    using unpublished_trans [OF unpublished_same unpublished_make_dirs] next_fault_nodes [OF nf] by metis
  with nf show ?thesis
    by (auto simp: create_parent_def create_dir_all_def unpublished_same split: option.split)
qed

lemma unpublished_mark_failure:
  assumes "plain rel"
  shows "unpublished (final_at out rel) f (mark_failure out rel f)"
proof -
  let ?p = "path_join out (failed_name rel)"
  let ?g = "snd (create_parent ?p (snd (remove_file (path_join out rel) f)))"
  have "same_except (\<lambda>q. q = failed_at out rel) ?g (snd (open_write False ?p ?g))"
    by (rule open_write_frame) (simp add: failed_at_def)
  then have "nodes (mark_failure out rel f) (final_at out rel) = nodes ?g (final_at out rel)"
    using files_distinct(2) [OF assms, of out] by (simp add: mark_failure_def Let_def same_except_def)
  then have "unpublished (final_at out rel) ?g (mark_failure out rel f)" by (rule unpublished_same)
  with unpublished_trans [OF unpublished_remove_file unpublished_create_parent]
  show ?thesis by (rule unpublished_trans)
qed

lemma reset_stats:
  assumes "file_path (rx_state w) = Some p"
  shows "rx_stats (reset_rx True w) =
      (rx_stats w)\<lparr>files_transferred := add64 (files_transferred (rx_stats w)) 1\<rparr>"
    and "rx_stats (reset_rx False w) =
      (rx_stats w)\<lparr>files_failed := add64 (files_failed (rx_stats w)) 1\<rparr>"
  using assms by (simp_all add: reset_transfer_def)

text \<open>The two ways a transfer ends, from the state before the END packet to the one after it.\<close>

definition ended_failed :: "bytes \<Rightarrow> bytes \<Rightarrow> rx \<Rightarrow> rx \<Rightarrow> bool" where
  "ended_failed out p w v \<longleftrightarrow>
     rx_stats v = (rx_stats w)\<lparr>files_failed := add64 (files_failed (rx_stats w)) 1\<rparr>
     \<and> unpublished (final_at out p) (rx_fs w) (rx_fs v)"

definition ended_published :: "bytes \<Rightarrow> bytes \<Rightarrow> nat \<Rightarrow> rx \<Rightarrow> rx \<Rightarrow> bool" where
  "ended_published out p n w v \<longleftrightarrow>
     rx_stats v = (rx_stats w)\<lparr>files_transferred := add64 (files_transferred (rx_stats w)) 1\<rparr>
     \<and> nodes (rx_fs v) (partial_at out p) = None
     \<and> (\<exists>c. nodes (rx_fs v) (final_at out p) = Some (Reg c) \<and> length c = n)"

lemma finish_failed_ended:
  assumes "plain p" and "file_path (rx_state w) = Some p"
  shows "ended_failed out p w (finish_failed out p w)"
  using unpublished_trans [OF unpublished_remove_file unpublished_mark_failure [OF assms(1)]] assms(2)
  by (simp add: finish_failed_def Let_def ended_failed_def reset_transfer_def)

lemma rename_file_True:
  assumes "rename_file p q f = (True, g)"
  obtains c where "nodes f (resolve p) = Some (Reg c)"
    and "nodes g = (nodes f)(resolve p := None, resolve q \<mapsto> Reg c)"
  using assms next_fault_nodes [of f]
  by (auto simp: rename_file_def fun_eq_iff split: prod.splits option.splits node.splits if_splits)

lemma publish_ended:
  assumes "plain p" and "file_path (rx_state w) = Some p"
    and "nodes (rx_fs w) (partial_at out p) = Some (Reg c)"
  shows "ended_failed out p w (publish out p w) \<or> ended_published out p (length c) w (publish out p w)"
proof -
  obtain ok f where rn: "rename_file (partial_path out p) (path_join out p) (rx_fs w) = (ok, f)" by force
  note d = files_distinct [OF assms(1), of out]
  show ?thesis
  proof (cases ok)
    case False
    have "nodes f = nodes (rx_fs w)"
      using rn False next_fault_nodes [of "rx_fs w"]
      by (auto simp: rename_file_def split: prod.splits option.splits node.splits if_splits)
    then have "unpublished (final_at out p) (rx_fs w) f" by (simp add: unpublished_same)
    with finish_failed_ended [OF assms(1), of "w\<lparr>rx_fs := f\<rparr>" out] rn False assms(2)
    show ?thesis by (auto simp: publish_def ended_failed_def intro: unpublished_trans)
  next
    case True
    let ?fp = "path_join out (failed_name p)"
    have "nodes f = (nodes (rx_fs w))(partial_at out p := None, final_at out p \<mapsto> Reg c)"
      using rn True assms(3) by (auto elim!: rename_file_True simp: partial_at_def final_at_def)
    moreover have "same_except (\<lambda>q. q = failed_at out p) f (snd (remove_file ?fp f))"
      by (rule remove_file_frame) (simp add: failed_at_def)
    ultimately show ?thesis
      using rn True assms(2) d d [symmetric]
      by (simp add: publish_def Let_def ended_published_def reset_transfer_def same_except_def)
  qed
qed

lemma finalize_last_partial:
  assumes "tr_open out p (rx_state w) (rx_fs w)"
  shows "\<exists>c. nodes (rx_fs (finalize_last fec w)) (partial_at out p) = Some (Reg c)
    \<and> length c = file_size (rx_state w)"
    and "rx_stats (finalize_last fec w) = rx_stats w"
proof -
  obtain r st f where fin: "finalize_current_batch fec (rx_state w) (rx_fs w) = (r, st, f)"
    by (rule prod_cases3)
  have "tr_open out p st f" using finalize_open [OF assms fin] by blast
  with fin assms show "\<exists>c. nodes (rx_fs (finalize_last fec w)) (partial_at out p) = Some (Reg c)
      \<and> length c = file_size (rx_state w)" "rx_stats (finalize_last fec w) = rx_stats w"
    using finalize_current_batch_same(4) [OF fin]
    by (auto simp: finalize_last_def tr_open_def partial_at_def split: sum.split)
qed

lemma finish_file_ended:
  assumes "rx_inv env w" and "file_path (rx_state w) = Some p"
  shows "ended_failed (env_out env) p w (finish_file env w)
    \<or> ended_published (env_out env) p (file_size (rx_state w)) w (finish_file env w)"
proof -
  note op = rx_inv_receiving [OF assms]
  have p: "plain p" using op tr_open_path by blast
  let ?v = "finalize_last (env_fec env) w"
  obtain c where c: "nodes (rx_fs ?v) (partial_at (env_out env) p) = Some (Reg c)"
    "length c = file_size (rx_state w)" "rx_stats ?v = rx_stats w"
    using finalize_last_partial [OF op] by blast
  note path = finalize_last_open(1) [OF op, of "env_fec env"]
  have "nodes (rx_fs ?v) (final_at (env_out env) p) = nodes (rx_fs w) (final_at (env_out env) p)"
    using finalize_last_open(2) [OF op, of "env_fec env"] files_distinct(1) [OF p, of "env_out env"]
    by (simp add: only_partial_def same_except_def partial_at_def)
  then show ?thesis
    using publish_ended [OF p path c(1)] finish_failed_ended [OF p path] assms(2) c(2,3)
    by (auto simp: finish_file_def Let_def ended_failed_def ended_published_def unpublished_def)
qed

section \<open>Duplicates\<close>

lemma advance_reaches:
  assumes "advance_to_batch fec b st f = (st', f')"
  shows "failed st' \<or> b \<le> current_batch st'"
proof (rule advance_rule [where I = "\<lambda>_ _. True" and Q = "\<lambda>st _. failed st \<or> b \<le> current_batch st",
      OF _ _ _ _ assms], goal_cases)
  case 2
  show ?case by simp
next
  case 4
  then show ?case by simp
qed (rule TrueI)+

lemma advance_rx_reaches: "failed (rx_state (advance_rx env b w)) \<or> b \<le> current_batch (rx_state (advance_rx env b w))"
  using advance_reaches [of "env_fec env" b "rx_state w" "rx_fs w"]
  by (auto simp: advance_rx_def split: prod.split)

text \<open>Why a packet that has been handled changes nothing when it is handled again.\<close>

definition handled :: "(receive_state \<Rightarrow> bytes btree) \<Rightarrow> nat \<Rightarrow> nat \<Rightarrow> receive_state \<Rightarrow> bool" where
  "handled buf b k st \<longleftrightarrow>
     failed st \<or> b < current_batch st \<or> b = current_batch st \<and> bt_get (buf st) k \<noteq> None"

lemma handled_cases:
  assumes "handled buf b k st"
  obtains "failed st" | "\<not> current_batch st < b" "b \<noteq> current_batch st"
    | "\<not> current_batch st < b" "bt_get (buf st) k \<noteq> None"
  using assms unfolding handled_def by fastforce

lemma advance_rx_no: "\<not> current_batch (rx_state v) < b \<Longrightarrow> advance_rx env b v = v"
  by (simp add: advance_rx_def)

lemma handle_data_handled:
  assumes "handled data_buffer (batch_for_data (count pk)) (count pk) (rx_state v)"
  shows "handle_data env pk v = v"
  using assms
proof (cases rule: handled_cases)
  case 3
  have "buffer_data (rx_state v) (rx_stats v) pk = (rx_state v, rx_stats v)"
    using 3(2) by (simp add: buffer_data_def)
  with 3(1) show ?thesis by (simp add: handle_data_def advance_rx_no Let_def)
qed (simp_all add: handle_data_def advance_rx_no Let_def)

lemma handle_parity_handled:
  assumes "handled parity_buffer (batch_for_parity (count pk)) (count pk mod BATCH_PARITY_CHUNKS) (rx_state v)"
  shows "handle_parity env pk v = v"
  using assms
proof (cases rule: handled_cases)
  case 3
  have "buffer_parity (rx_state v) pk (count pk mod BATCH_PARITY_CHUNKS) = rx_state v"
    using 3(2) by (simp add: buffer_parity_def)
  with 3(1) show ?thesis by (simp add: handle_parity_def advance_rx_no Let_def)
qed (simp_all add: handle_parity_def advance_rx_no Let_def)

lemma handle_data_settles:
  assumes "tr_open (env_out env) p (rx_state w) (rx_fs w)" and "count pk < 10 ^ 10"
  shows "failed (rx_state w) \<or> \<not> is_chunk_valid (env_md5 env) pk (rx_state w) PKG_TYPE_DATA
    \<or> handled data_buffer (batch_for_data (count pk)) (count pk) (rx_state (handle_data env pk w))"
proof (cases "\<not> failed (rx_state w) \<and> is_chunk_valid (env_md5 env) pk (rx_state w) PKG_TYPE_DATA")
  case True
  let ?b = "batch_for_data (count pk)"
  let ?w = "advance_rx env ?b w"
  have st: "st_inv (rx_state ?w)"
    using advance_rx_open [OF assms(1) batch_bounds(1) [OF assms(2)]] tr_open_st_inv by blast
  have len: "length (pkt_data pk) \<le> CHUNK_SIZE"
    using True by (auto simp: is_chunk_valid_def PKG_TYPE_DATA_def split: if_splits)
  obtain st' ss' where bd: "buffer_data (rx_state ?w) (rx_stats ?w) pk = (st', ss')" by force
  have eq: "handle_data env pk w = (if \<not> failed (rx_state ?w) \<and> ?b = current_batch (rx_state ?w)
      then ?w\<lparr>rx_state := st', rx_stats := ss'\<rparr> else ?w)"
    using True bd by (simp add: handle_data_def Let_def)
  have "handled data_buffer ?b (count pk) (rx_state (handle_data env pk w))"
  proof (cases "\<not> failed (rx_state ?w) \<and> ?b = current_batch (rx_state ?w)")
    case True
    then show ?thesis
      using buffer_data_eq [OF st len, of "rx_stats ?w"] bd st
      by (auto simp: eq handled_def st_inv_def bt_get_insert split: if_splits)
  next
    case False
    then show ?thesis using advance_rx_reaches [of env ?b w] by (auto simp: eq handled_def)
  qed
  then show ?thesis by simp
qed blast

lemma handle_parity_settles:
  assumes "tr_open (env_out env) p (rx_state w) (rx_fs w)" and "count pk < 10 ^ 10"
  shows "failed (rx_state w) \<or> \<not> is_chunk_valid (env_md5 env) pk (rx_state w) PKG_TYPE_PARITY
    \<or> handled parity_buffer (batch_for_parity (count pk)) (count pk mod BATCH_PARITY_CHUNKS) (rx_state (handle_parity env pk w))"
proof (cases "\<not> failed (rx_state w) \<and> is_chunk_valid (env_md5 env) pk (rx_state w) PKG_TYPE_PARITY")
  case True
  let ?b = "batch_for_parity (count pk)" and ?i = "count pk mod BATCH_PARITY_CHUNKS"
  let ?w = "advance_rx env ?b w"
  have st: "st_inv (rx_state ?w)"
    using advance_rx_open [OF assms(1) batch_bounds(2) [OF assms(2)]] tr_open_st_inv by blast
  have len: "length (pkt_data pk) = SHARD_SIZE"
    using True by (auto simp: is_chunk_valid_def PKG_TYPE_PARITY_def PKG_TYPE_DATA_def split: if_splits)
  have eq: "handle_parity env pk w = (if \<not> failed (rx_state ?w) \<and> ?b = current_batch (rx_state ?w)
      then ?w\<lparr>rx_state := buffer_parity (rx_state ?w) pk ?i\<rparr> else ?w)"
    using True by (simp add: handle_parity_def Let_def)
  have "handled parity_buffer ?b ?i (rx_state (handle_parity env pk w))"
  proof (cases "\<not> failed (rx_state ?w) \<and> ?b = current_batch (rx_state ?w)")
    case True
    then show ?thesis
      using buffer_parity_eq [OF st len, of ?i] st
      by (auto simp: eq handled_def st_inv_def bt_get_insert)
  next
    case False
    then show ?thesis using advance_rx_reaches [of env ?b w] by (auto simp: eq handled_def)
  qed
  then show ?thesis by simp
qed blast

section \<open>The declared size\<close>

lemma advance_size:
  assumes "advance_to_batch fec b st f = (st', f')"
  shows "file_size st' = file_size st"
proof (rule advance_rule [where I = "\<lambda>s _. file_size s = file_size st" and Q = "\<lambda>s _. file_size s = file_size st",
      OF _ _ _ _ assms], goal_cases)
  case (2 s f e s' f')
  with finalize_current_batch_same(4) [OF 2(4)] show ?case by simp
next
  case (3 s f u s' f')
  with finalize_current_batch_same(4) [OF 3(4)] show ?case by simp
qed simp_all

lemma advance_rx_size: "file_size (rx_state (advance_rx env b w)) = file_size (rx_state w)"
  by (auto simp: advance_rx_def advance_size split: prod.split)

lemma handle_data_size: "file_size (rx_state (handle_data env pk w)) = file_size (rx_state w)"
proof -
  let ?v = "advance_rx env (batch_for_data (count pk)) w"
  obtain st ss where bd: "buffer_data (rx_state ?v) (rx_stats ?v) pk = (st, ss)" by force
  then have "file_size st = file_size (rx_state ?v)"
    using buffer_data_same [of "rx_state ?v" "rx_stats ?v" pk st] by simp
  with bd show ?thesis by (simp add: handle_data_def Let_def advance_rx_size)
qed

lemma handle_parity_size: "file_size (rx_state (handle_parity env pk w)) = file_size (rx_state w)"
  using buffer_parity_same by (simp add: handle_parity_def Let_def advance_rx_size)

end
