(* ===== verification/Opening.thy ===== *)
theory Opening
  imports Worker_Facts Sender_Wire
begin

text \<open>
  A transfer as the receiver sees it when the environment injects no failure: what START sets up,
  what each packet of the sender's wire adds, what finalising a batch writes, what END publishes.
\<close>

section \<open>Starting\<close>

definition fs_ready :: "bytes \<Rightarrow> bytes \<Rightarrow> fs \<Rightarrow> bool" where
  "fs_ready out rel f \<longleftrightarrow>
     clean f
     \<and> list_all (\<lambda>d. nodes f d = None \<or> nodes f d = Some Dir) (proper_prefixes (parent_at out rel))
     \<and> nodes f (final_at out rel) \<noteq> Some Dir \<and> nodes f (partial_at out rel) \<noteq> Some Dir"

lemma open_write_clean:
  assumes "clean f" and "resolve p \<noteq> []" and "\<not> dir_form p" and "is_dir f (butlast (resolve p))"
    and "nodes f (resolve p) \<noteq> Some Dir"
  shows "\<exists>g. open_write True p f = (Some \<lparr>h_path = resolve p, h_pos = 0\<rparr>, g) \<and> clean g
    \<and> nodes g = (nodes f)(resolve p \<mapsto> Reg [])"
  using assms by (auto simp: open_write_def Let_def fun_eq_iff split: option.split node.split)

lemma set_len_clean: "clean f \<Longrightarrow> set_len h n f = (True, update_reg (h_path h) (resize n) f)"
  by (simp add: set_len_def)

lemma nodes_update_reg: "nodes f p = Some (Reg c) \<Longrightarrow> nodes (update_reg p g f) = (nodes f)(p \<mapsto> Reg (g c))"
  by (simp add: update_reg_def fun_eq_iff)

lemma open_output_file_clean:
  assumes "clean f" and "file_form rel"
    and "\<And>d. d \<noteq> [] \<Longrightarrow> prefix d (parent_at out rel) \<Longrightarrow> nodes f d = None \<or> nodes f d = Some Dir"
    and "nodes f (partial_at out rel) \<noteq> Some Dir"
  shows "\<exists>g. open_output_file out rel n f = (Some \<lparr>h_path = partial_at out rel, h_pos = 0\<rparr>, g) \<and> clean g
    \<and> nodes g = (\<lambda>q. if q = partial_at out rel then Some (Reg (replicate n 0))
                    else if q \<noteq> [] \<and> prefix q (parent_at out rel) then Some Dir else nodes f q)"
proof -
  let ?p = "partial_path out rel" and ?q = "partial_at out rel"
  note pl = file_form_plain [OF assms(2)]
  have par: "resolve out @ butlast (names (partial_name rel)) = parent_at out rel"
    using names_suffix [OF assms(2) suffixes(2)] by (simp add: parent_at_def partial_name_def del: ascii_Cons)
  obtain f1 where f1: "create_parent ?p f = (True, f1)" "clean f1"
    "nodes f1 = (\<lambda>q. if q \<noteq> [] \<and> prefix q (parent_at out rel) then Some Dir else nodes f q)"
    using create_parent_clean [OF assms(1) pl suffixes(2), of out] assms(3)
    unfolding partial_path_def partial_name_def [symmetric] par by auto
  have q: "?q = parent_at out rel @ [last (names rel) @ ascii ''.partial'']" by (rule files_at [OF assms(2)])
  have "is_dir f1 (butlast ?q)" "nodes f1 ?q \<noteq> Some Dir" "?q \<noteq> []"
    using f1(3) assms(4) files_not_parent(2) [OF assms(2)] by (auto simp: q is_dir_def simp del: ascii_Cons)
  with open_write_clean [OF f1(2), of ?p] assms(2) obtain f2 where
    f2: "open_write True ?p f1 = (Some \<lparr>h_path = ?q, h_pos = 0\<rparr>, f2)" "clean f2"
    "nodes f2 = (nodes f1)(?q \<mapsto> Reg [])"
    by (auto simp: partial_at_def)
  show ?thesis
  proof (cases "n > 0")
    case True
    have "nodes (update_reg ?q (resize n) f2) = (nodes f2)(?q \<mapsto> Reg (resize n []))"
      using f2(3) by (intro nodes_update_reg) simp
    with True f1 f2 show ?thesis
      by (simp add: open_output_file_def Let_def set_len_clean fun_eq_iff resize_def)
  next
    case False
    with f1 f2 show ?thesis by (auto simp: open_output_file_def Let_def fun_eq_iff)
  qed
qed

text \<open>The tree while a transfer is open: the partial file, and nothing published yet.\<close>

definition fs_open :: "bytes \<Rightarrow> bytes \<Rightarrow> bytes \<Rightarrow> fs \<Rightarrow> bool" where
  "fs_open out rel c f \<longleftrightarrow>
     clean f \<and> nodes f (partial_at out rel) = Some (Reg c) \<and> nodes f (final_at out rel) = None
     \<and> (\<forall>d. d \<noteq> [] \<longrightarrow> prefix d (parent_at out rel) \<longrightarrow> nodes f d = Some Dir)"

definition opened :: "bytes \<Rightarrow> nat \<Rightarrow> bytes \<Rightarrow> nat \<Rightarrow> handle \<Rightarrow> receive_state" where
  "opened rel n hash ppb h =
     new_receive_state\<lparr>file_path := Some rel, path_hash := Some hash, file_size := n,
       parity_per_batch := ppb, current_batch := 0, output_file := Some h\<rparr>"

text \<open>A transfer leaves every name alone but its three files, and makes their parents directories.\<close>

definition keeps :: "bytes \<Rightarrow> bytes \<Rightarrow> fs \<Rightarrow> fs \<Rightarrow> bool" where
  "keeps out rel f g \<longleftrightarrow> (\<forall>q. q \<notin> {final_at out rel, partial_at out rel, failed_at out rel} \<longrightarrow>
     nodes g q = (if q \<noteq> [] \<and> prefix q (parent_at out rel) then Some Dir else nodes f q))"

lemma begin_transfer_clean:
  assumes "rx_state w = new_receive_state" and "file_form rel" and "fs_ready out rel (rx_fs w)"
  shows "\<exists>g. begin_transfer out rel n hash ppb w =
      w\<lparr>rx_state := opened rel n hash ppb \<lparr>h_path = partial_at out rel, h_pos = 0\<rparr>, rx_fs := g\<rparr>
    \<and> fs_open out rel (replicate n 0) g
    \<and> (nodes (rx_fs w) (failed_at out rel) \<noteq> Some Dir \<longrightarrow> nodes g (failed_at out rel) \<noteq> Some Dir)
    \<and> keeps out rel (rx_fs w) g"
proof -
  let ?f0 = "rx_fs w"
  let ?f1 = "snd (remove_file (path_join out rel) ?f0)"
  let ?f2 = "snd (remove_file (partial_path out rel) ?f1)"
  let ?f3 = "snd (remove_file (path_join out (failed_name rel)) ?f2)"
  have c0: "clean ?f0" and par: "\<And>d. d \<noteq> [] \<Longrightarrow> prefix d (parent_at out rel) \<Longrightarrow> nodes ?f0 d = None \<or> nodes ?f0 d = Some Dir"
    and fin: "nodes ?f0 (final_at out rel) \<noteq> Some Dir" and pt: "nodes ?f0 (partial_at out rel) \<noteq> Some Dir"
    using assms(3) by (auto simp: fs_ready_def list_all_iff proper_prefixes_iff)
  note c1 = remove_file_clean(1) [OF c0, of "path_join out rel"]
  note c2 = remove_file_clean(1) [OF c1, of "partial_path out rel"]
  note c3 = remove_file_clean(1) [OF c2, of "path_join out (failed_name rel)"]
  note n1 = remove_file_clean(2) [OF c0, of "path_join out rel"]
  note n2 = remove_file_clean(2) [OF c1, of "partial_path out rel"]
  note n3 = remove_file_clean(2) [OF c2, of "path_join out (failed_name rel)"]
  have sub: "nodes ?f3 q = None \<or> nodes ?f3 q = nodes ?f0 q" for q by (simp add: n1 n2 n3)
  have fin3: "nodes ?f3 (final_at out rel) = None"
  proof -
    have "nodes ?f1 (final_at out rel) = None"
      using fin assms(2) by (cases "nodes ?f0 (final_at out rel)") (auto simp: n1 final_at_def intro: node.exhaust)
    then show ?thesis by (simp add: n2 n3)
  qed
  obtain g where g: "open_output_file out rel n ?f3 = (Some \<lparr>h_path = partial_at out rel, h_pos = 0\<rparr>, g)"
    "clean g" "nodes g = (\<lambda>q. if q = partial_at out rel then Some (Reg (replicate n 0))
                    else if q \<noteq> [] \<and> prefix q (parent_at out rel) then Some Dir else nodes ?f3 q)"
  proof -
    have "nodes ?f3 d = None \<or> nodes ?f3 d = Some Dir" if "d \<noteq> []" "prefix d (parent_at out rel)" for d
      using par [OF that] sub [of d] by auto
    moreover have "nodes ?f3 (partial_at out rel) \<noteq> Some Dir" using sub [of "partial_at out rel"] pt by auto
    ultimately show ?thesis using open_output_file_clean [OF c3 assms(2), of out n] that by blast
  qed
  have "fs_open out rel (replicate n 0) g"
    using g(2,3) fin3 files_not_parent [OF assms(2)] files_distinct(1) [OF file_form_plain [OF assms(2)]]
    by (auto simp: fs_open_def)
  moreover have "nodes ?f0 (failed_at out rel) \<noteq> Some Dir \<longrightarrow> nodes g (failed_at out rel) \<noteq> Some Dir"
    using sub [of "failed_at out rel"] files_not_parent(3) [OF assms(2), of _ out]
      files_distinct(3) [OF file_form_plain [OF assms(2)], of out] by (auto simp: g(3))
  moreover have "keeps out rel ?f0 g"
  proof -
    have "nodes ?f3 q = nodes ?f0 q" if "q \<notin> {final_at out rel, partial_at out rel, failed_at out rel}" for q
      using that by (simp add: n1 n2 n3 final_at_def partial_at_def failed_at_def)
    then show ?thesis by (auto simp: keeps_def g(3))
  qed
  ultimately show ?thesis
    using g(1) assms(1) by (auto simp: begin_transfer_def Let_def opened_def)
qed

section \<open>Giving up\<close>

lemma open_write_keep_clean:
  assumes "clean f" and "resolve p \<noteq> []" and "\<not> dir_form p" and "is_dir f (butlast (resolve p))"
    and "nodes f (resolve p) \<noteq> Some Dir"
  shows "\<exists>c. nodes (snd (open_write False p f)) = (nodes f)(resolve p \<mapsto> Reg c)"
proof (cases "nodes f (resolve p)")
  case None
  with assms show ?thesis by (auto simp: open_write_def Let_def fun_eq_iff)
next
  case (Some n)
  with assms obtain c where "n = Reg c" by (cases n) auto
  with Some assms show ?thesis by (intro exI [of _ c]) (auto simp: open_write_def Let_def fun_eq_iff)
qed

lemma mark_failure_clean:
  assumes "clean f" and "file_form rel"
    and "\<And>d. d \<noteq> [] \<Longrightarrow> prefix d (parent_at out rel) \<Longrightarrow> nodes f d = Some Dir"
    and "nodes f (failed_at out rel) \<noteq> Some Dir"
  shows "\<exists>c. nodes (mark_failure out rel f) (failed_at out rel) = Some (Reg c)"
    and "q \<noteq> failed_at out rel \<Longrightarrow> q \<noteq> final_at out rel \<Longrightarrow> nodes (mark_failure out rel f) q = nodes f q"
    and "nodes f (final_at out rel) = None \<Longrightarrow> nodes (mark_failure out rel f) (final_at out rel) = None"
proof -
  let ?p = "path_join out (failed_name rel)" and ?q = "failed_at out rel"
  let ?f1 = "snd (remove_file (path_join out rel) f)"
  note pl = file_form_plain [OF assms(2)]
  have par: "resolve out @ butlast (names (failed_name rel)) = parent_at out rel"
    using names_suffix [OF assms(2) suffixes(1)] by (simp add: parent_at_def failed_name_def del: ascii_Cons)
  note c1 = remove_file_clean(1) [OF assms(1), of "path_join out rel"]
  have n1: "nodes ?f1 q = (if q = final_at out rel \<and> (\<exists>c. nodes f q = Some (Reg c)) then None else nodes f q)" for q
    using remove_file_clean(2) [OF assms(1), of "path_join out rel"] assms(2) by (simp add: final_at_def)
  have dirs: "nodes ?f1 d = Some Dir" if "d \<noteq> []" "prefix d (parent_at out rel)" for d
    using assms(3) [OF that] by (simp add: n1)
  then obtain f2 where f2: "create_parent ?p ?f1 = (True, f2)" "clean f2"
    "nodes f2 = (\<lambda>q. if q \<noteq> [] \<and> prefix q (parent_at out rel) then Some Dir else nodes ?f1 q)"
    using create_parent_clean [OF c1 pl suffixes(1), of out]
    unfolding failed_name_def [symmetric] par by auto
  have n2: "nodes f2 = nodes ?f1" using dirs by (auto simp: f2(3) fun_eq_iff)
  have q: "?q = parent_at out rel @ [last (names rel) @ ascii ''.failed'']" by (rule files_at [OF assms(2)])
  have "is_dir f2 (butlast ?q)" "?q \<noteq> []"
    using dirs [of "parent_at out rel"] by (auto simp: n2 q is_dir_def simp del: ascii_Cons)
  moreover have "nodes f2 ?q \<noteq> Some Dir" using assms(4) by (simp add: n2 n1)
  ultimately have "is_dir f2 (butlast ?q)" "nodes f2 ?q \<noteq> Some Dir" "?q \<noteq> []" by simp_all
  with open_write_keep_clean [OF f2(2), of ?p] assms(2) obtain c where
    "nodes (mark_failure out rel f) = (nodes f2)(?q \<mapsto> Reg c)"
    using f2(1) by (auto simp: mark_failure_def Let_def failed_at_def)
  then show "\<exists>c. nodes (mark_failure out rel f) ?q = Some (Reg c)"
    and "q \<noteq> ?q \<Longrightarrow> q \<noteq> final_at out rel \<Longrightarrow> nodes (mark_failure out rel f) q = nodes f q"
    and "nodes f (final_at out rel) = None \<Longrightarrow> nodes (mark_failure out rel f) (final_at out rel) = None"
    using files_distinct(2) [OF pl, of out] by (auto simp: n2 n1)
qed

lemma finish_failed_clean:
  assumes "file_form rel" and "fs_open out rel c (rx_fs w)" and "nodes (rx_fs w) (failed_at out rel) \<noteq> Some Dir"
  shows "nodes (rx_fs (finish_failed out rel w)) (partial_at out rel) = None"
    and "nodes (rx_fs (finish_failed out rel w)) (final_at out rel) = None"
    and "\<exists>m. nodes (rx_fs (finish_failed out rel w)) (failed_at out rel) = Some (Reg m)"
proof -
  let ?f = "snd (remove_file (partial_path out rel) (rx_fs w))"
  note pl = file_form_plain [OF assms(1)] and d = files_distinct [OF file_form_plain [OF assms(1)], of out]
  have c: "clean (rx_fs w)" using assms(2) by (simp add: fs_open_def)
  have n: "nodes ?f q = (if q = partial_at out rel \<and> (\<exists>c. nodes (rx_fs w) q = Some (Reg c)) then None else nodes (rx_fs w) q)" for q
    using remove_file_clean(2) [OF c, of "partial_path out rel"] assms(1) by (simp add: partial_at_def)
  have cf: "clean ?f" using remove_file_clean(1) [OF c] .
  have dirs: "nodes ?f q = Some Dir" if "q \<noteq> []" "prefix q (parent_at out rel)" for q
    using assms(2) that by (simp add: n fs_open_def)
  have failed: "nodes ?f (failed_at out rel) \<noteq> Some Dir" using assms(3) by (simp add: n)
  note m = mark_failure_clean [OF cf assms(1) dirs failed]
  have eq: "rx_fs (finish_failed out rel w) = mark_failure out rel ?f" by (simp add: finish_failed_def Let_def)
  show "nodes (rx_fs (finish_failed out rel w)) (partial_at out rel) = None"
    using m(2) [of "partial_at out rel"] d d [symmetric] assms(2) by (simp add: eq n fs_open_def)
  show "\<exists>m. nodes (rx_fs (finish_failed out rel w)) (failed_at out rel) = Some (Reg m)"
    using m(1) by (simp add: eq)
  show "nodes (rx_fs (finish_failed out rel w)) (final_at out rel) = None"
    using m(3) assms(2) d(1) by (simp add: eq n fs_open_def)
qed

lemma finalize_last_incomplete:
  assumes "length (data_buffer (rx_state w)) + length (parity_buffer (rx_state w))
      < batch_data_size (current_batch (rx_state w)) (file_size (rx_state w))"
  shows "rx_fs (finalize_last fec w) = rx_fs w" "failed (rx_state (finalize_last fec w))"
    "rx_stats (finalize_last fec w) = rx_stats w"
    "file_path (rx_state (finalize_last fec w)) = file_path (rx_state w)"
proof -
  let ?n = "batch_data_size (current_batch (rx_state w)) (file_size (rx_state w))"
  have "\<exists>e. restore_missing fec (rx_state w) ?n (mul64 (current_batch (rx_state w)) BATCH_DATA_CHUNKS) = Inl e"
    using assms by (cases "parity_per_batch (rx_state w) = 0") (simp_all add: restore_missing_def Let_def)
  then obtain e where e: "restore_missing fec (rx_state w) ?n (mul64 (current_batch (rx_state w)) BATCH_DATA_CHUNKS) = Inl e"
    by blast
  have "finalize_current_batch fec (rx_state w) (rx_fs w) = (Inl e, rx_state w, rx_fs w)"
    using assms unfolding finalize_current_batch_def Let_def e by simp
  then show "rx_fs (finalize_last fec w) = rx_fs w" "failed (rx_state (finalize_last fec w))"
    "rx_stats (finalize_last fec w) = rx_stats w"
    "file_path (rx_state (finalize_last fec w)) = file_path (rx_state w)"
    by (auto simp: finalize_last_def)
qed

end
