(* ===== verification/Batch_Write.thy ===== *)
theory Batch_Write
  imports Opening
begin

text \<open>
  Finalising a batch that can be recovered, over a file system that injects no failure: what
  the Reed-Solomon crate promises (\<open>fec_recovers\<close>, \<open>fec_mds\<close>), that the receiver feeds the
  decoder the way the promise needs, and that exactly the bytes of the batch are written.
\<close>

section \<open>What the crate promises\<close>

fun feed :: "('d \<Rightarrow> nat \<Rightarrow> bytes \<Rightarrow> 'd option) \<Rightarrow> (nat \<times> bytes) list \<Rightarrow> 'd \<Rightarrow> 'd option" where
  "feed add [] d = Some d"
| "feed add ((i, v) # es) d = (case add d i v of None \<Rightarrow> None | Some d \<Rightarrow> feed add es d)"

fun feed_shards :: "('e \<Rightarrow> bytes \<Rightarrow> 'e option) \<Rightarrow> bytes list \<Rightarrow> 'e \<Rightarrow> 'e option" where
  "feed_shards add [] e = Some e"
| "feed_shards add (v # vs) e = (case add e v of None \<Rightarrow> None | Some e \<Rightarrow> feed_shards add vs e)"

definition run_encoder :: "'e fec_encoder \<Rightarrow> bytes list \<Rightarrow> nat \<Rightarrow> bytes list option" where
  "run_encoder enc shards m =
     Option.bind (enc_new enc (length shards) m SHARD_SIZE)
       (\<lambda>e. Option.bind (feed_shards (enc_add enc) shards e) (enc_encode enc))"

text \<open>
  Documented behaviour of the decoder: given any originals and recovery shards of one encoding, each
  at most once, that are together at least as many as there are originals, it restores the
  originals not given.
\<close>

definition fec_recovers :: "'d fec_decoder \<Rightarrow> bytes list \<Rightarrow> bytes list \<Rightarrow> bool" where
  "fec_recovers dec originals parity \<longleftrightarrow>
     (\<forall>is js. sorted_wrt (<) is \<and> set is \<subset> {..<length originals}
        \<and> sorted_wrt (<) js \<and> set js \<subseteq> {..<length parity}
        \<and> length originals \<le> length is + length js \<longrightarrow>
        (\<exists>d0 d1 d2 restored. dec_new dec (length originals) (length parity) SHARD_SIZE = Some d0
           \<and> feed (dec_add_original dec) (map (\<lambda>i. (i, originals ! i)) is) d0 = Some d1
           \<and> feed (dec_add_recovery dec) (map (\<lambda>j. (j, parity ! j)) js) d1 = Some d2
           \<and> dec_decode dec d2 = Some restored \<and> distinct (map fst restored)
           \<and> (\<forall>i < length originals. i \<notin> set is \<longrightarrow> map_of restored i = Some (originals ! i))))"

text \<open>
  Documented behaviour of the pair: \<open>k\<close> originals of the shard size are encoded to \<open>m\<close> recovery
  shards of that size, from which the decoder recovers.
\<close>

definition fec_mds :: "'e fec_encoder \<Rightarrow> 'd fec_decoder \<Rightarrow> nat \<Rightarrow> nat \<Rightarrow> bool" where
  "fec_mds enc dec k m \<longleftrightarrow>
     (\<forall>shards. length shards = k \<and> list_all (\<lambda>s. length s = SHARD_SIZE) shards \<longrightarrow>
        (\<exists>ps. run_encoder enc shards m = Some ps \<and> length ps = m
           \<and> list_all (\<lambda>s. length s = SHARD_SIZE) ps \<and> fec_recovers dec shards ps))"

lemma add_shards_feed: "add_shards enc ds e = feed_shards (enc_add enc) (map shard_of ds) e"
  by (induction ds arbitrary: e) (simp_all split: option.split)

lemma parity_shards_run: "parity_shards enc ps m = run_encoder enc (map shard_of ps) m"
  by (simp add: parity_shards_def run_encoder_def add_shards_feed split: option.split)

text \<open>The receiver's two loops feed the decoder.\<close>

lemma add_originals_feed:
  "list_all (\<lambda>(k, v). k - s < n) es \<Longrightarrow>
    feed (dec_add_original dec) (map (\<lambda>(k, v). (k - s, pad_shard v)) es) d = Some d' \<Longrightarrow>
    add_originals dec n s es d = Inr d'"
  by (induction es arbitrary: d) (auto split: option.splits)

lemma add_recoveries_feed:
  "list_all (\<lambda>(k, v). k < n \<and> length v = SHARD_SIZE) es \<Longrightarrow>
    feed (dec_add_recovery dec) es d = Some d' \<Longrightarrow> add_recoveries dec n es d = Inr d'"
  by (induction es arbitrary: d) (auto split: option.splits)

section \<open>Buffers\<close>

text \<open>A buffer that holds exactly the values \<open>g\<close> on the keys \<open>A\<close>.\<close>

definition holds :: "'v btree \<Rightarrow> nat set \<Rightarrow> (nat \<Rightarrow> 'v) \<Rightarrow> bool" where
  "holds m A g \<longleftrightarrow> bt_inv m \<and> (\<forall>k. bt_get m k = (if k \<in> A then Some (g k) else None))"

lemma holds_Nil [simp]: "holds [] {} g"
  by (simp add: holds_def bt.invar_emp bt.get_emp)

lemma holds_insert: "holds m A g \<Longrightarrow> v = g k \<Longrightarrow> holds (bt_insert k v m) (insert k A) g"
  by (auto simp: holds_def bt_inv_insert bt_get_insert)

lemma holds_dom: "holds m A g \<Longrightarrow> dom (bt_get m) = A"
  by (auto simp: holds_def split: if_splits)

lemma holds_finite: "holds m A g \<Longrightarrow> finite A"
  using holds_dom bt.finite_dom_get unfolding holds_def by blast

lemma holds_length: "holds m A g \<Longrightarrow> length m = card A"
  using holds_dom bt.length_entries unfolding holds_def by metis

lemma holds_entries:
  assumes "holds m A g"
  shows "m = map (\<lambda>k. (k, g k)) (sorted_list_of_set A)"
proof -
  have m: "bt_inv m" using assms by (simp add: holds_def)
  have "map fst m = sorted_list_of_set A"
    using bt.entries_sorted [OF m] bt.keys_dom [OF m] holds_dom [OF assms] holds_finite [OF assms]
    by (intro strict_sorted_equal) (simp_all del: set_map)
  moreover have "m = map (\<lambda>k. (k, the (bt_get m k))) (map fst m)" by (rule bt.entries_eq_map [OF m])
  ultimately show ?thesis
    using assms holds_finite [OF assms] unfolding holds_def
    by (metis (mono_tags, lifting) map_eq_conv option.sel set_sorted_list_of_set)
qed

section \<open>Restoring\<close>

definition batch_len :: "nat \<Rightarrow> nat \<Rightarrow> nat" where
  "batch_len n b = batch_end n b - batch_first b"

definition batch_range :: "nat \<Rightarrow> nat \<Rightarrow> nat set" where
  "batch_range n b = {batch_first b..<batch_end n b}"

definition batch_shards :: "bytes \<Rightarrow> nat \<Rightarrow> bytes list" where
  "batch_shards F b = map shard_of (batch_payloads F b)"

lemma length_batch_shards [simp]: "length (batch_shards F b) = batch_len (length F) b"
  by (simp add: batch_shards_def batch_payloads_def batch_len_def)

lemma nth_batch_shards: "i < batch_len (length F) b \<Longrightarrow> batch_shards F b ! i = shard_of (file_chunk F (batch_first b + i))"
  by (simp add: batch_shards_def batch_payloads_def batch_len_def)

lemma pad_shard_chunk: "pad_shard (file_chunk F k) = shard_of (file_chunk F k)"
proof -
  have "length (file_chunk F k) \<le> SHARD_SIZE"
    using chunk_len_le [of "length F" k] by (simp add: length_file_chunk CHUNK_SIZE_def SHARD_SIZE_def)
  then show ?thesis by (simp add: pad_shard_def shard_of_def min_def)
qed

text \<open>
  Chunks \<open>D\<close> and recovery shards \<open>P\<close> of a batch are enough: all chunks, or as many of both as there
  are chunks when the crate keeps its promise on the shards of this batch.
\<close>

definition recoverable :: "'d fec_decoder \<Rightarrow> bytes \<Rightarrow> bytes list \<Rightarrow> nat \<Rightarrow> nat set \<Rightarrow> nat set \<Rightarrow> bool" where
  "recoverable dec F par b D P \<longleftrightarrow>
     D = batch_range (length F) b
     \<or> batch_len (length F) b \<le> card D + card P \<and> length par = BATCH_PARITY_CHUNKS
       \<and> list_all (\<lambda>s. length s = SHARD_SIZE) par \<and> fec_recovers dec (batch_shards F b) par"

lemma card_batch_range: "card (batch_range n b) = batch_len n b"
  by (simp add: batch_range_def batch_len_def)

lemma sorted_offsets:
  "finite (D :: nat set) \<Longrightarrow> D \<subseteq> {s..} \<Longrightarrow> sorted_wrt (<) (map (\<lambda>k. k - s) (sorted_list_of_set D))"
  unfolding sorted_wrt_map
  by (rule sorted_wrt_mono_rel [OF _ strict_sorted_list_of_set]) (auto dest!: subsetD intro: diff_less_mono)

text \<open>The positions in the batch of the chunks held, and feeding these chunks.\<close>

lemma offsets_below:
  assumes "finite D" and "D \<subseteq> batch_range (length F) b"
  shows "set (map (\<lambda>k. k - batch_first b) (sorted_list_of_set D)) \<subseteq> {..<batch_len (length F) b}"
  using assms by (auto simp: batch_range_def batch_len_def dest!: subsetD intro: diff_less_mono)

lemma add_originals_holds:
  assumes "holds buf D (file_chunk F)" and "D \<subseteq> batch_range (length F) b"
    and "feed (dec_add_original dec) (map (\<lambda>i. (i, batch_shards F b ! i))
      (map (\<lambda>k. k - batch_first b) (sorted_list_of_set D))) d0 = Some d1"
  shows "add_originals dec (batch_len (length F) b) (batch_first b) buf d0 = Inr d1"
proof -
  let ?s = "batch_first b" and ?n = "batch_len (length F) b"
  have fin: "finite D" using assms(1) holds_finite by auto
  have buf: "buf = map (\<lambda>k. (k, file_chunk F k)) (sorted_list_of_set D)" using holds_entries assms(1) by auto
  have "batch_shards F b ! (k - ?s) = shard_of (file_chunk F k)" if "k \<in> D" for k
  proof -
    have "?s \<le> k" "k < batch_end (length F) b" using that assms(2) by (auto simp: batch_range_def)
    then show ?thesis using nth_batch_shards [of "k - ?s" F b] by (simp add: batch_len_def diff_less_mono)
  qed
  then have feq: "map (\<lambda>(k, v). (k - ?s, pad_shard v)) buf
      = map (\<lambda>i. (i, batch_shards F b ! i)) (map (\<lambda>k. k - ?s) (sorted_list_of_set D))"
    using fin by (simp add: buf pad_shard_chunk)
  show ?thesis
  proof (rule add_originals_feed)
    show "list_all (\<lambda>(k, v). k - ?s < ?n) buf"
      using offsets_below [OF fin assms(2)] fin by (auto simp: buf list_all_iff)
    show "feed (dec_add_original dec) (map (\<lambda>(k, v). (k - ?s, pad_shard v)) buf) d0 = Some d1"
      unfolding feq by (rule assms(3))
  qed
qed

lemma restore_missing_ok:
  assumes "holds (data_buffer st) D (file_chunk F)" and "D \<subseteq> batch_range (length F) b"
    and "holds (parity_buffer st) P (nth par)" and "P \<subseteq> {..<BATCH_PARITY_CHUNKS}"
    and "parity_per_batch st = BATCH_PARITY_CHUNKS" and "recoverable dec F par b D P"
  shows "\<exists>restored. restore_missing dec st (batch_len (length F) b) (batch_first b) = Inr restored
    \<and> (\<forall>i < batch_len (length F) b. batch_first b + i \<notin> D
         \<longrightarrow> bt_get restored i = Some (shard_of (file_chunk F (batch_first b + i))))"
proof -
  let ?n = "batch_len (length F) b" and ?s = "batch_first b"
  have fin: "finite D" "finite P" using assms(1,3) holds_finite by auto
  have lens: "length (data_buffer st) = card D" "length (parity_buffer st) = card P"
    using holds_length assms(1,3) by auto
  have full: "D = batch_range (length F) b" if "?n \<le> card D"
    using card_seteq [OF _ assms(2)] that by (simp add: card_batch_range) (simp add: batch_range_def)
  show ?thesis
  proof (cases "?n \<le> card D")
    case True
    then have "?s + i \<in> D" if "i < ?n" for i
      using full that by (auto simp: batch_range_def batch_len_def)
    with True show ?thesis by (simp add: restore_missing_def lens Let_def)
  next
    case False
    then have law: "?n \<le> card D + card P" "length par = BATCH_PARITY_CHUNKS"
      "list_all (\<lambda>s. length s = SHARD_SIZE) par" "fec_recovers dec (batch_shards F b) par"
      using assms(6) by (auto simp: recoverable_def card_batch_range)
    let ?is = "map (\<lambda>k. k - ?s) (sorted_list_of_set D)" and ?js = "sorted_list_of_set P"
    note is_sub = offsets_below [OF fin(1) assms(2)]
    have "card (set ?is) \<le> card D" using fin(1) card_image_le by (simp add: card_image_le)
    then have "set ?is \<noteq> {..<?n}" using False by (metis card_lessThan)
    with is_sub have is_psub: "set ?is \<subset> {..<length (batch_shards F b)}" by auto
    have "D \<subseteq> {?s..}" using assms(2) by (auto simp: batch_range_def)
    then have srt: "sorted_wrt (<) ?is" "sorted_wrt (<) ?js"
      using sorted_offsets [OF fin(1), of ?s] fin(2) by simp_all
    have "length (batch_shards F b) \<le> length ?is + length ?js" using law(1) by simp
    with is_psub srt assms(4) fin(2) law(2) have prem: "sorted_wrt (<) ?is
        \<and> set ?is \<subset> {..<length (batch_shards F b)} \<and> sorted_wrt (<) ?js
        \<and> set ?js \<subseteq> {..<length par} \<and> length (batch_shards F b) \<le> length ?is + length ?js"
      by (intro conjI) simp_all
    obtain d0 d1 d2 restored where
      d: "dec_new dec ?n BATCH_PARITY_CHUNKS SHARD_SIZE = Some d0"
        "feed (dec_add_original dec) (map (\<lambda>i. (i, batch_shards F b ! i)) ?is) d0 = Some d1"
        "feed (dec_add_recovery dec) (map (\<lambda>j. (j, par ! j)) ?js) d1 = Some d2"
        "dec_decode dec d2 = Some restored" "distinct (map fst restored)"
        "\<And>i. i < ?n \<Longrightarrow> i \<notin> set ?is \<Longrightarrow> map_of restored i = Some (batch_shards F b ! i)"
      using law(4) [unfolded fec_recovers_def, THEN spec, THEN spec, THEN mp, OF prem]
      unfolding length_batch_shards law(2) by blast
    have ents: "parity_buffer st = map (\<lambda>j. (j, par ! j)) ?js"
      using holds_entries assms(3) by auto
    have "add_originals dec ?n ?s (data_buffer st) d0 = Inr d1"
      using add_originals_holds [OF assms(1,2) d(2)] .
    moreover have "add_recoveries dec BATCH_PARITY_CHUNKS (parity_buffer st) d1 = Inr d2"
      using d(3) law(2,3) assms(4) fin(2)
      by (intro add_recoveries_feed) (auto simp: ents list_all_iff all_set_conv_all_nth)
    ultimately have "restore_missing dec st ?n ?s = Inr (bt_collect restored)"
      using False law(1) d(1,4) assms(5) by (simp add: restore_missing_def lens BATCH_PARITY_CHUNKS_def)
    moreover have "bt_get (bt_collect restored) i = Some (shard_of (file_chunk F (?s + i)))"
      if "i < ?n" "?s + i \<notin> D" for i
    proof -
      have "i \<notin> set ?is" using that(2) assms(2) fin(1) by (auto simp: batch_range_def)
      with d(5,6) that(1) show ?thesis by (simp add: bt_get_collect nth_batch_shards)
    qed
    ultimately show ?thesis by blast
  qed
qed

section \<open>Writing\<close>

lemma write_all_clean:
  assumes "clean f" and "nodes f (h_path h) = Some (Reg c)"
  shows "\<exists>g. write_all h d f = (True, h\<lparr>h_pos := h_pos h + length d\<rparr>, g) \<and> clean g
    \<and> nodes g = (nodes f)(h_path h \<mapsto> Reg (overwrite (h_pos h) d c))"
  using assms by (simp add: write_all_def nodes_update_reg)

text \<open>Writing the next chunk at the end of what is written.\<close>

lemma overwrite_chunk:
  assumes "k < total_chunks (length F)"
  shows "overwrite (chunk_pos (length F) k) (file_chunk F k) (written F (chunk_pos (length F) k))
    = written F (chunk_pos (length F) (Suc k))"
proof -
  let ?p = "chunk_pos (length F) k" and ?d = "file_chunk F k"
  have ne: "?d \<noteq> []" using assms by (rule file_chunk_pos)
  have p: "?p \<le> length F" "?p = k * CHUNK_SIZE" by (rule chunk_pos_le, rule chunk_pos_less [OF assms])
  have next_pos: "chunk_pos (length F) (Suc k) = ?p + length ?d" by (simp add: chunk_pos_Suc length_file_chunk)
  have "take (?p + length ?d) F = take ?p F @ take (length ?d) (drop ?p F)" by (rule take_add)
  also have "take (length ?d) (drop ?p F) = ?d" by (auto simp: file_chunk_def p(2) min_def)
  finally have pre: "take (?p + length ?d) F = take ?p F @ ?d" .
  have "drop (?p + length ?d) (written F ?p) = replicate (length F - (?p + length ?d)) 0"
    using p(1) by (simp add: written_def)
  with ne p(1) pre show ?thesis
    by (simp add: overwrite_def next_pos) (simp add: written_def pre)
qed

lemma write_chunks_clean:
  assumes "clean f" and "nodes f (h_path h) = Some (Reg (written F (chunk_pos (length F) (s + a))))"
    and "h_pos h = chunk_pos (length F) (s + a)" and "a \<le> m" and "s + m \<le> total_chunks (length F)"
    and "\<And>i. i < m \<Longrightarrow> chunk_of i = Inr (file_chunk F (s + i))"
  shows "\<exists>g h'. write_chunks chunk_of [a..<m] h f = (Inr (), h', g) \<and> clean g \<and> h_path h' = h_path h
    \<and> nodes g = (nodes f)(h_path h \<mapsto> Reg (written F (chunk_pos (length F) (s + m))))"
  using assms
proof (induction "m - a" arbitrary: a h f)
  case 0
  then show ?case by (auto simp: fun_upd_idem)
next
  case (Suc d)
  then have less: "a < m" and tot: "s + a < total_chunks (length F)" by simp_all
  let ?c = "file_chunk F (s + a)"
  let ?h = "h\<lparr>h_pos := h_pos h + length ?c\<rparr>"
  obtain g where g: "write_all h ?c f = (True, ?h, g)" "clean g"
    "nodes g = (nodes f)(h_path h \<mapsto> Reg (written F (chunk_pos (length F) (Suc (s + a)))))"
    using write_all_clean [OF Suc.prems(1,2), of ?c] overwrite_chunk [OF tot] Suc.prems(3) by auto
  have "\<exists>g' h'. write_chunks chunk_of [Suc a..<m] ?h g = (Inr (), h', g') \<and> clean g' \<and> h_path h' = h_path ?h
    \<and> nodes g' = (nodes g)(h_path ?h \<mapsto> Reg (written F (chunk_pos (length F) (s + m))))"
    using Suc.hyps(2) Suc.prems less g(2,3)
    by (intro Suc.hyps(1)) (simp_all add: chunk_pos_Suc length_file_chunk)
  with g less Suc.prems(6) [OF less] show ?case by (auto simp: upt_conv_Cons)
qed

section \<open>Finalising\<close>

lemma select_chunk_ok:
  assumes "holds buf D (file_chunk F)" and "s + i < total_chunks (length F)"
    and "s + i \<notin> D \<Longrightarrow> bt_get restored i = Some (shard_of (file_chunk F (s + i)))"
  shows "select_chunk buf restored s (total_chunks (length F)) (last_chunk_len (length F)) i
    = Inr (file_chunk F (s + i))"
proof -
  have len: "(if s + i + 1 = total_chunks (length F) then last_chunk_len (length F) else CHUNK_SIZE)
      = length (file_chunk F (s + i))"
    using expected_len_eq [OF assms(2)] by (simp add: length_file_chunk)
  show ?thesis
    using assms(1,3) unfolding select_chunk_def len Let_def
    by (auto simp: holds_def shard_of_def)
qed

lemma batch_len_eq:
  "min (total_chunks n - b * BATCH_DATA_CHUNKS) BATCH_DATA_CHUNKS = batch_len n b"
  unfolding batch_len_def batch_end_def batch_first_def min_def mult_Suc
  by (simp split: if_split) linarith

lemma batch_len_pos: "b < num_batches n \<Longrightarrow> 0 < batch_len n b"
  by (simp add: batch_less batch_len_def batch_end_def) (simp add: batch_first_def)

lemma batch_end_len: "b < num_batches n \<Longrightarrow> batch_first b + batch_len n b = batch_end n b"
  using batch_len_pos [of b n] by (simp add: batch_len_def)

lemma batch_end_le: "batch_end n b \<le> total_chunks n"
  by (simp add: batch_end_def)

lemma seek_start_clean: "clean f \<Longrightarrow> seek_start h off f = (True, h\<lparr>h_pos := off\<rparr>, f)"
  by (simp add: seek_start_def)

lemma finalize_clean:
  assumes "current_batch st = b" "b < num_batches (length F)" "b \<le> 10 ^ 8" "file_size st = length F"
    and "holds (data_buffer st) D (file_chunk F)" and "D \<subseteq> batch_range (length F) b"
    and "holds (parity_buffer st) P (nth par)" and "P \<subseteq> {..<BATCH_PARITY_CHUNKS}"
    and "parity_per_batch st = BATCH_PARITY_CHUNKS" and "recoverable dec F par b D P"
    and "output_file st = Some h" and "clean f"
    and "nodes f (h_path h) = Some (Reg (written F (chunk_pos (length F) (batch_first b))))"
  shows "\<exists>h' g. finalize_current_batch dec st f = (Inr (), clear_buffers (st\<lparr>output_file := Some h'\<rparr>), g)
    \<and> h_path h' = h_path h \<and> clean g
    \<and> nodes g = (nodes f)(h_path h \<mapsto> Reg (written F (chunk_pos (length F) (batch_end (length F) b))))"
proof -
  let ?n = "batch_len (length F) b" and ?T = "total_chunks (length F)"
  note pos = batch_len_pos [OF assms(2)] and e = batch_end_len [OF assms(2)]
  obtain restored where r: "restore_missing dec st ?n (batch_first b) = Inr restored"
    "\<And>i. i < ?n \<Longrightarrow> batch_first b + i \<notin> D \<Longrightarrow> bt_get restored i = Some (shard_of (file_chunk F (batch_first b + i)))"
    using restore_missing_ok [OF assms(5-10)] by blast
  let ?ch = "select_chunk (data_buffer st) restored (batch_first b) ?T (last_chunk_len (length F))"
  let ?h = "h\<lparr>h_pos := batch_first b * CHUNK_SIZE\<rparr>"
  have ch: "?ch i = Inr (file_chunk F (batch_first b + i))" if "i < ?n" for i
  proof (rule select_chunk_ok [OF assms(5)])
    show "batch_first b + i < ?T" using that e batch_end_le [of "length F" b] by linarith
  qed (use r(2) that in blast)
  have at: "chunk_pos (length F) (batch_first b) = batch_first b * CHUNK_SIZE"
    using assms(2) by (intro chunk_pos_less) (simp add: batch_less)
  obtain g h' where w: "write_chunks ?ch [0..<?n] ?h f = (Inr (), h', g)" "clean g" "h_path h' = h_path h"
    "nodes g = (nodes f)(h_path h \<mapsto> Reg (written F (chunk_pos (length F) (batch_end (length F) b))))"
    using write_chunks_clean [of f ?h F "batch_first b" 0 ?n ?ch] assms(12,13) at ch e
      batch_end_le [of "length F" b] by auto
  have "current_batch st \<le> 10 ^ 8" using assms(1,3) by simp
  note eq = finalize_current_batch_eq [OF this, of dec f, unfolded assms(1,4,11) batch_len_eq Let_def,
      folded batch_first_def]
  have "finalize_current_batch dec st f = (Inr (), clear_buffers (st\<lparr>output_file := Some h'\<rparr>), g)"
    unfolding eq using r(1) w(1) pos assms(12) by (simp add: seek_start_clean)
  with w show ?thesis by blast
qed

end
