(* ===== verification/Collect.thy ===== *)
theory Collect
  imports Batch_Write
begin

text \<open>
  The receiver against the sender's datagrams: what the packets of a batch leave in the buffers, how
  the first packet of the next batch writes the batch before, and what END publishes. From these
  steps the transfer of a whole file is put together in \<open>Delivery\<close>.
\<close>

section \<open>A transfer in progress\<close>

definition file_counts :: "rx \<Rightarrow> nat \<times> nat" where
  "file_counts w = (files_transferred (rx_stats w), files_failed (rx_stats w))"

text \<open>
  \<open>receiving env rel F par c b D P w\<close>: file \<open>F\<close> is being received as \<open>rel\<close>, all batches before
  \<open>b\<close> are on disk, and of batch \<open>b\<close> exactly the chunks \<open>D\<close> and the recovery shards \<open>P\<close> are
  buffered; \<open>par b\<close> are the recovery shards of batch \<open>b\<close>, \<open>c\<close> the file counters.
\<close>

definition transfer_of :: "'d rx_env \<Rightarrow> bytes \<Rightarrow> bytes \<Rightarrow> nat \<Rightarrow> rx \<Rightarrow> bool" where
  "transfer_of env rel F b w \<longleftrightarrow>
     \<not> rx_state_poisoned w \<and> rx_inv env w
     \<and> file_path (rx_state w) = Some rel \<and> path_hash (rx_state w) = Some (md5_hex (env_md5 env) rel)
     \<and> file_size (rx_state w) = length F \<and> parity_per_batch (rx_state w) = BATCH_PARITY_CHUNKS
     \<and> current_batch (rx_state w) = b \<and> \<not> failed (rx_state w)
     \<and> fs_open (env_out env) rel (written F (chunk_pos (length F) (batch_first b))) (rx_fs w)"

definition receiving ::
  "'d rx_env \<Rightarrow> bytes \<Rightarrow> bytes \<Rightarrow> (nat \<Rightarrow> bytes list) \<Rightarrow> nat \<times> nat \<Rightarrow> nat \<Rightarrow> nat set \<Rightarrow> nat set \<Rightarrow> rx \<Rightarrow> bool" where
  "receiving env rel F par c b D P w \<longleftrightarrow>
     transfer_of env rel F b w \<and> file_counts w = c
     \<and> holds (data_buffer (rx_state w)) D (file_chunk F) \<and> D \<subseteq> batch_range (length F) b
     \<and> holds (parity_buffer (rx_state w)) P (nth (par b)) \<and> P \<subseteq> {..<BATCH_PARITY_CHUNKS}"

lemma buffer_data_counts:
  "buffer_data st ss p = (st', ss') \<Longrightarrow> files_transferred ss' = files_transferred ss
    \<and> files_failed ss' = files_failed ss"
  by (auto simp: buffer_data_def split: if_splits)

section \<open>Packets of a batch\<close>

text \<open>The two kinds of packets of a batch, their positions, and their datagrams.\<close>

datatype packet_id = DataId nat | ParityId nat

fun id_packet :: "(bytes \<Rightarrow> bytes) \<Rightarrow> bytes \<Rightarrow> bytes \<Rightarrow> (nat \<Rightarrow> bytes list) \<Rightarrow> nat \<Rightarrow> packet_id \<Rightarrow> packet" where
  "id_packet md5 rel F par b (DataId k) =
     \<lparr>pkg_type = PKG_TYPE_DATA, count = k, pkt_path_hash = md5_hex md5 rel,
      pkt_data_hash = md5_hex md5 (file_chunk F k), pkt_data = file_chunk F k\<rparr>"
| "id_packet md5 rel F par b (ParityId i) =
     \<lparr>pkg_type = PKG_TYPE_PARITY, count = b * BATCH_PARITY_CHUNKS + i, pkt_path_hash = md5_hex md5 rel,
      pkt_data_hash = md5_hex md5 (par b ! i), pkt_data = par b ! i\<rparr>"

fun id_ok :: "bytes \<Rightarrow> (nat \<Rightarrow> bytes list) \<Rightarrow> nat \<Rightarrow> packet_id \<Rightarrow> bool" where
  "id_ok F par b (DataId k) \<longleftrightarrow> k \<in> batch_range (length F) b"
| "id_ok F par b (ParityId i) \<longleftrightarrow> i < BATCH_PARITY_CHUNKS \<and> length (par b ! i) = SHARD_SIZE"

fun add_id :: "packet_id \<Rightarrow> nat set \<times> nat set \<Rightarrow> nat set \<times> nat set" where
  "add_id (DataId k) (D, P) = (insert k D, P)"
| "add_id (ParityId i) (D, P) = (D, insert i P)"

lemma batch_range_batch:
  assumes "k \<in> batch_range (length F) b"
  shows "batch_for_data k = b" "k < total_chunks (length F)" "file_chunk F k \<noteq> []"
    "length (file_chunk F k) \<le> CHUNK_SIZE"
proof -
  have k: "k < total_chunks (length F)"
    using assms batch_end_le [of "length F" b] by (auto simp: batch_range_def)
  then show "k < total_chunks (length F)" "file_chunk F k \<noteq> []" by (auto simp: file_chunk_pos)
  show "batch_for_data k = b"
    using assms batch_for_iff [OF k, of b] by (simp add: batch_for_data_def batch_range_def)
  show "length (file_chunk F k) \<le> CHUNK_SIZE" by (simp add: length_file_chunk chunk_len_le)
qed

lemma rx_inv_transfer: "transfer_of env rel F b w \<Longrightarrow> st_inv (rx_state w)"
  using rx_inv_st_inv [of env w] by (simp add: transfer_of_def)

text \<open>
  \<open>ready\<close>: after moving to batch \<open>b\<close>, if that is still needed, the transfer is collecting it.
\<close>

definition ready ::
  "'d rx_env \<Rightarrow> bytes \<Rightarrow> bytes \<Rightarrow> (nat \<Rightarrow> bytes list) \<Rightarrow> nat \<times> nat \<Rightarrow> nat \<Rightarrow> nat set \<Rightarrow> nat set \<Rightarrow> rx \<Rightarrow> bool" where
  "ready env rel F par c b D P w \<longleftrightarrow>
     (\<exists>a. transfer_of env rel F a w) \<and> receiving env rel F par c b D P (advance_rx env b w)"

lemma receiving_ready: "receiving env rel F par c b D P w \<Longrightarrow> ready env rel F par c b D P w"
  by (auto simp: ready_def receiving_def transfer_of_def advance_rx_def)

lemma is_chunk_valid_id:
  assumes "path_hash st = Some (md5_hex md5 rel)" and "id_ok F par b x"
  shows "is_chunk_valid md5 (id_packet md5 rel F par b x) st (pkg_type (id_packet md5 rel F par b x))"
  using assms batch_range_batch(3,4) [of _ F b]
  by (cases x) (auto simp: is_chunk_valid_def pkg_type_defs Suc_le_eq)

lemma buffer_id:
  assumes "receiving env rel F par c b D P w" and "id_ok F par b (DataId k)"
    and "buffer_data (rx_state w) (rx_stats w) (id_packet md5 rel F par b (DataId k)) = (st, ss)"
  shows "holds (data_buffer st) (insert k D) (file_chunk F)" and "fst (add_id (DataId k) (D, P)) \<subseteq> batch_range (length F) b"
    and "parity_buffer st = parity_buffer (rx_state w)"
proof -
  let ?st = "rx_state w"
  have inv: "st_inv ?st" using assms(1) rx_inv_transfer unfolding receiving_def by blast
  have h: "holds (data_buffer ?st) D (file_chunk F)" using assms(1) by (simp add: receiving_def)
  have st: "st = fst (buffer_data ?st (rx_stats w) (id_packet md5 rel F par b (DataId k)))"
    using assms(3) by simp
  have eq: "st = (if k \<in> D then ?st
     else ?st\<lparr>bytes_buffered := bytes_buffered ?st + length (file_chunk F k),
            bytes_transferred := sat_add64 (bytes_transferred ?st) (length (file_chunk F k)),
            data_buffer := bt_insert k (file_chunk F k) (data_buffer ?st)\<rparr>)"
    unfolding st using batch_range_batch(4) assms(2) h
    by (subst buffer_data_eq [OF inv]) (auto simp: holds_def)
  show "holds (data_buffer st) (insert k D) (file_chunk F)"
    using h holds_insert [OF h] by (simp add: eq insert_absorb)
  show "fst (add_id (DataId k) (D, P)) \<subseteq> batch_range (length F) b"
    using assms(1,2) by (simp add: receiving_def)
  show "parity_buffer st = parity_buffer ?st" by (simp add: eq)
qed

lemma acquire_clean: "\<not> rx_state_poisoned w \<Longrightarrow> acquire_state env w = w"
  by (simp add: acquire_state_def)

lemma worker_step_packet:
  "decode_packet raw = Some pk \<Longrightarrow> \<not> rx_state_poisoned w \<Longrightarrow> worker_step env w raw = handle_packet env pk w"
  by (simp add: worker_step_def acquire_clean)

text \<open>The handlers on a packet of batch \<open>b\<close>, with the guards that hold for it removed.\<close>

lemma handle_id_data:
  assumes "ready env rel F par c b D P w" and "id_ok F par b (DataId k)"
  shows "handle_packet env (id_packet (env_md5 env) rel F par b (DataId k)) w =
    (let v = advance_rx env b w;
         (st, ss) = buffer_data (rx_state v) (rx_stats v) (id_packet (env_md5 env) rel F par b (DataId k))
     in v\<lparr>rx_state := st, rx_stats := ss\<rparr>)"
proof -
  obtain a where a: "transfer_of env rel F a w" using assms(1) by (auto simp: ready_def)
  have "batch_for_data k = b" using assms(2) batch_range_batch(1) [of k F b] by simp
  then show ?thesis
    using assms a is_chunk_valid_id [of "rx_state w" "env_md5 env" rel F par b "DataId k"]
    by (simp add: handle_packet_def handle_data_def transfer_of_def ready_def receiving_def Let_def
        pkg_type_defs)
qed

lemma handle_id_parity:
  assumes "ready env rel F par c b D P w" and "id_ok F par b (ParityId i)"
  shows "handle_packet env (id_packet (env_md5 env) rel F par b (ParityId i)) w =
    (let v = advance_rx env b w
     in v\<lparr>rx_state := buffer_parity (rx_state v) (id_packet (env_md5 env) rel F par b (ParityId i)) i\<rparr>)"
proof -
  obtain a where a: "transfer_of env rel F a w" using assms(1) by (auto simp: ready_def)
  have "batch_for_parity (b * BATCH_PARITY_CHUNKS + i) = b" "(b * BATCH_PARITY_CHUNKS + i) mod BATCH_PARITY_CHUNKS = i"
    using assms(2) by (simp_all add: batch_for_parity_def)
  then show ?thesis
    using assms a is_chunk_valid_id [of "rx_state w" "env_md5 env" rel F par b "ParityId i"]
    by (simp add: handle_packet_def handle_parity_def transfer_of_def ready_def receiving_def Let_def
        pkg_type_defs)
qed

lemma step_id:
  assumes "ready env rel F par c b D P w" and "id_ok F par b x"
    and "decode_packet raw = Some (id_packet (env_md5 env) rel F par b x)"
  shows "receiving env rel F par c b (fst (add_id x (D, P))) (snd (add_id x (D, P))) (worker_step env w raw)"
proof -
  let ?v = "advance_rx env b w" and ?pk = "id_packet (env_md5 env) rel F par b x"
  obtain a where a: "transfer_of env rel F a w" using assms(1) by (auto simp: ready_def)
  have v: "receiving env rel F par c b D P ?v" using assms(1) by (simp add: ready_def)
  have step: "worker_step env w raw = handle_packet env ?pk w"
    using a assms(3) by (intro worker_step_packet) (auto simp: transfer_of_def)
  have inv: "rx_inv env (worker_step env w raw)"
    using a worker_step_inv [of env w raw] by (simp add: transfer_of_def)
  show ?thesis
  proof (cases x)
    case (DataId k)
    obtain st ss where bd: "buffer_data (rx_state ?v) (rx_stats ?v) ?pk = (st, ss)" by force
    have eq: "worker_step env w raw = ?v\<lparr>rx_state := st, rx_stats := ss\<rparr>"
      using handle_id_data [OF assms(1), of k] assms(2) bd by (simp add: DataId step Let_def)
    have ok: "id_ok F par b (DataId k)" using assms(2) DataId by simp
    have st: "st = fst (buffer_data (rx_state ?v) (rx_stats ?v) ?pk)" using bd by simp
    have same: "path_hash st = path_hash (rx_state ?v) \<and> parity_per_batch st = parity_per_batch (rx_state ?v)
        \<and> failed st = failed (rx_state ?v)"
      using v batch_range_batch(4) [of k F b] ok rx_inv_transfer [of env rel F b ?v]
      unfolding st receiving_def by (subst (1 2 3) buffer_data_eq) (auto simp: DataId)
    show ?thesis
      using v inv same buffer_id [OF v ok bd [unfolded DataId]] buffer_data_counts [OF bd]
        buffer_data_same [of "rx_state ?v" "rx_stats ?v" ?pk st] st
      by (simp add: eq DataId receiving_def transfer_of_def file_counts_def)
  next
    case (ParityId i)
    define st where "st = buffer_parity (rx_state ?v) ?pk i"
    have eq: "worker_step env w raw = ?v\<lparr>rx_state := st\<rparr>"
      using handle_id_parity [OF assms(1), of i] assms(2) by (simp add: ParityId step Let_def st_def)
    have i: "i < BATCH_PARITY_CHUNKS" "length (pkt_data ?pk) = SHARD_SIZE" using assms(2) ParityId by simp_all
    have h: "holds (parity_buffer (rx_state ?v)) P (nth (par b))" using v by (simp add: receiving_def)
    have "st_inv (rx_state ?v)" using v rx_inv_transfer unfolding receiving_def by blast
    from buffer_parity_eq [OF this i(2), of i]
    have st: "st = (if i \<in> P then rx_state ?v
        else (rx_state ?v)\<lparr>bytes_buffered := bytes_buffered (rx_state ?v) + SHARD_SIZE,
               parity_buffer := bt_insert i (par b ! i) (parity_buffer (rx_state ?v))\<rparr>)"
      using h by (auto simp: holds_def ParityId st_def)
    have "holds (parity_buffer st) (insert i P) (nth (par b))"
      using h holds_insert [OF h] by (simp add: st insert_absorb)
    with v inv i(1) show ?thesis
      by (simp add: eq receiving_def transfer_of_def file_counts_def ParityId) (simp add: st)
  qed
qed

text \<open>Packets of a batch one after the other.\<close>

definition ids_data :: "packet_id list \<Rightarrow> nat set" where
  "ids_data xs = {k. DataId k \<in> set xs}"

definition ids_parity :: "packet_id list \<Rightarrow> nat set" where
  "ids_parity xs = {i. ParityId i \<in> set xs}"

lemma ids_Cons:
  "ids_data (x # xs) \<union> D = ids_data xs \<union> fst (add_id x (D, P))"
  "ids_parity (x # xs) \<union> P = ids_parity xs \<union> snd (add_id x (D, P))"
  by (cases x; auto simp: ids_data_def ids_parity_def)+

lemma run_ids:
  assumes "ready env rel F par c b D P w" and "xs \<noteq> []" and "list_all (id_ok F par b) xs"
    and "map decode_packet raws = map (\<lambda>x. Some (id_packet (env_md5 env) rel F par b x)) xs"
  shows "receiving env rel F par c b (ids_data xs \<union> D) (ids_parity xs \<union> P) (foldl (worker_step env) w raws)"
  using assms
proof (induction xs arbitrary: w D P raws)
  case (Cons x xs)
  then obtain raw rs where raws: "raws = raw # rs" "decode_packet raw = Some (id_packet (env_md5 env) rel F par b x)"
    "map decode_packet rs = map (\<lambda>x. Some (id_packet (env_md5 env) rel F par b x)) xs" by auto
  have step: "receiving env rel F par c b (fst (add_id x (D, P))) (snd (add_id x (D, P))) (worker_step env w raw)"
    using step_id [OF Cons.prems(1) _ raws(2)] Cons.prems(3) by simp
  show ?case
  proof (cases "xs = []")
    case True
    with step raws show ?thesis
      using ids_Cons [of x xs] by (simp add: ids_data_def ids_parity_def)
  next
    case False
    from Cons.IH [OF receiving_ready [OF step] False _ raws(3)] Cons.prems(3)
    show ?thesis by (simp only: ids_Cons(1) [of x xs D P] ids_Cons(2) [of x xs P D] raws(1) foldl_Cons list.pred_inject(2))
  qed
qed simp

section \<open>From batch to batch\<close>

lemma finalize_receiving:
  assumes "receiving env rel F par c b D P w" and "recoverable (env_fec env) F (par b) b D P"
    and "b < num_batches (length F)" and "b \<le> 10 ^ 8" and "plain rel"
  obtains h g where "finalize_current_batch (env_fec env) (rx_state w) (rx_fs w)
      = (Inr (), clear_buffers ((rx_state w)\<lparr>output_file := Some h\<rparr>), g)"
    and "fs_open (env_out env) rel (written F (chunk_pos (length F) (batch_end (length F) b))) g"
proof -
  have tr: "transfer_of env rel F b w" using assms(1) by (simp add: receiving_def)
  then have "tr_open (env_out env) rel (rx_state w) (rx_fs w)"
    using rx_inv_receiving by (auto simp: transfer_of_def)
  then obtain h where h: "output_file (rx_state w) = Some h" "h_path h = partial_at (env_out env) rel"
    by (auto simp: tr_open_def partial_at_def)
  have fs: "fs_open (env_out env) rel (written F (chunk_pos (length F) (batch_first b))) (rx_fs w)"
    using tr by (simp add: transfer_of_def)
  obtain h' g where g: "finalize_current_batch (env_fec env) (rx_state w) (rx_fs w)
      = (Inr (), clear_buffers ((rx_state w)\<lparr>output_file := Some h'\<rparr>), g)" "clean g"
    "nodes g = (nodes (rx_fs w))(h_path h \<mapsto> Reg (written F (chunk_pos (length F) (batch_end (length F) b))))"
    using finalize_clean [OF _ assms(3,4) _ _ _ _ _ _ assms(2) h(1), of "rx_fs w"] assms(1) tr fs h
    by (auto simp: receiving_def transfer_of_def fs_open_def)
  have "partial_at (env_out env) rel \<noteq> final_at (env_out env) rel"
    using files_distinct(1) [OF assms(5)] by metis
  then have "fs_open (env_out env) rel (written F (chunk_pos (length F) (batch_end (length F) b))) g"
    using g(2,3) fs by (auto simp: fs_open_def h)
  with g(1) show ?thesis by (rule that)
qed

lemma holds_cleared: "holds (data_buffer (clear_buffers st)) {} g" "holds (parity_buffer (clear_buffers st)) {} g"
  by (simp_all add: clear_buffers_def)

lemma advance_next:
  assumes "receiving env rel F par c b D P w" and "recoverable (env_fec env) F (par b) b D P"
    and "Suc b < num_batches (length F)" and "Suc b \<le> 10 ^ 8" and "plain rel"
  shows "ready env rel F par c (Suc b) {} {} w"
proof -
  have tr: "transfer_of env rel F b w" using assms(1) by (simp add: receiving_def)
  have b: "b < num_batches (length F)" "b \<le> 10 ^ 8" using assms(3,4) by simp_all
  obtain h g where fin: "finalize_current_batch (env_fec env) (rx_state w) (rx_fs w)
      = (Inr (), clear_buffers ((rx_state w)\<lparr>output_file := Some h\<rparr>), g)"
    and g: "fs_open (env_out env) rel (written F (chunk_pos (length F) (batch_end (length F) b))) g"
    using finalize_receiving [OF assms(1,2) b assms(5)] by blast
  let ?st = "(clear_buffers ((rx_state w)\<lparr>output_file := Some h\<rparr>))\<lparr>current_batch := Suc b\<rparr>"
  have adv: "advance_rx env (Suc b) w = w\<lparr>rx_state := ?st, rx_fs := g\<rparr>"
  proof -
    have "advance_to_batch (env_fec env) (Suc b) (rx_state w) (rx_fs w) = (?st, g)"
      using fin tr advance_to_batch.simps [of "env_fec env" "Suc b" ?st g]
        advance_to_batch.simps [of "env_fec env" "Suc b" "rx_state w" "rx_fs w"]
      by (simp add: transfer_of_def clear_buffers_def)
    then show ?thesis using tr by (simp add: advance_rx_def transfer_of_def)
  qed
  have "rx_inv env (advance_rx env (Suc b) w)"
    using advance_rx_open [of env rel w "Suc b"] rx_inv_receiving [of env w rel] tr assms(4)
    by (auto simp: transfer_of_def intro: rx_inv_open)
  moreover have "batch_end (length F) b = batch_first (Suc b)"
    using assms(3) by (simp add: batch_less batch_end_def)
  ultimately have "transfer_of env rel F (Suc b) (advance_rx env (Suc b) w)"
    using tr g unfolding adv by (simp add: transfer_of_def clear_buffers_def)
  then show ?thesis
    using assms(1) tr by (auto simp: ready_def receiving_def adv file_counts_def clear_buffers_def)
qed

section \<open>The end of the file\<close>

text \<open>The last batch is being collected and can be recovered, or the file is empty.\<close>

definition complete :: "'d rx_env \<Rightarrow> bytes \<Rightarrow> (nat \<Rightarrow> bytes list) \<Rightarrow> nat \<Rightarrow> nat set \<Rightarrow> nat set \<Rightarrow> bool" where
  "complete env F par b D P \<longleftrightarrow>
     (if F = [] then b = 0
      else Suc b = num_batches (length F) \<and> recoverable (env_fec env) F (par b) b D P)"

text \<open>What the output holds when the transfer is closed, and that it is closed without failure.\<close>

definition closes :: "'d rx_env \<Rightarrow> bytes \<Rightarrow> bytes \<Rightarrow> rx \<Rightarrow> bool" where
  "closes env rel C w \<longleftrightarrow>
     (\<exists>st g. finalize_last (env_fec env) w = w\<lparr>rx_state := st, rx_fs := g\<rparr> \<and> \<not> failed st
        \<and> file_path st = Some rel \<and> fs_open (env_out env) rel C g)"

lemma closes_written:
  assumes "receiving env rel F par c b D P w" and "recoverable (env_fec env) F (par b) b D P"
    and "b < num_batches (length F)" and "b \<le> 10 ^ 8" and "plain rel"
  shows "closes env rel (written F (chunk_pos (length F) (batch_end (length F) b))) w"
proof -
  have tr: "transfer_of env rel F b w" using assms(1) by (simp add: receiving_def)
  obtain h g where fin: "finalize_current_batch (env_fec env) (rx_state w) (rx_fs w)
      = (Inr (), clear_buffers ((rx_state w)\<lparr>output_file := Some h\<rparr>), g)"
    and g: "fs_open (env_out env) rel (written F (chunk_pos (length F) (batch_end (length F) b))) g"
    using finalize_receiving [OF assms] by blast
  with tr show ?thesis
    unfolding closes_def
    by (intro exI [of _ "(clear_buffers (rx_state w))\<lparr>output_file := None\<rparr>"] exI [of _ g])
      (simp add: finalize_last_def transfer_of_def clear_buffers_def)
qed

lemma closes_complete:
  assumes "receiving env rel F par c b D P w" and "complete env F par b D P"
    and "b \<le> 10 ^ 8" and "plain rel"
  shows "closes env rel F w"
proof (cases "F = []")
  case True
  have tr: "transfer_of env rel F b w" using assms(1) by (simp add: receiving_def)
  then have fs: "fs_open (env_out env) rel F (rx_fs w)"
    using True assms(2) by (simp add: transfer_of_def complete_def written_def)
  have "finalize_current_batch (env_fec env) (rx_state w) (rx_fs w) = (Inr (), clear_buffers (rx_state w), rx_fs w)"
    using tr True by (simp add: finalize_current_batch_def batch_data_size_def transfer_of_def Let_def)
  with tr fs show ?thesis
    unfolding closes_def
    by (intro exI [of _ "(clear_buffers (rx_state w))\<lparr>output_file := None\<rparr>"] exI [of _ "rx_fs w"])
      (simp add: finalize_last_def transfer_of_def clear_buffers_def)
next
  case False
  then have last: "Suc b = num_batches (length F)" and rec: "recoverable (env_fec env) F (par b) b D P"
    using assms(2) by (auto simp: complete_def)
  then have "total_chunks (length F) \<le> batch_first (Suc b)"
    using batch_less [of "Suc b" "length F"] by simp
  then have "chunk_pos (length F) (batch_end (length F) b) = length F"
    by (intro chunk_pos_end) (simp add: batch_end_def)
  with closes_written [OF assms(1) rec _ assms(3,4)] last show ?thesis by (simp add: written_all)
qed

lemma rename_file_clean:
  assumes "clean f" and "nodes f (resolve p) = Some (Reg c)" and "\<not> dir_form p" "\<not> dir_form q"
    and "resolve q \<noteq> []" and "is_dir f (butlast (resolve q))" and "nodes f (resolve q) = None"
  shows "\<exists>g. rename_file p q f = (True, g) \<and> clean g
    \<and> nodes g = (nodes f)(resolve p := None, resolve q \<mapsto> Reg c)"
  using assms by (simp add: rename_file_def fun_eq_iff)

lemma publish_clean:
  assumes "fs_open out rel F (rx_fs w)" and "file_form rel" and "file_path (rx_state w) = Some rel"
  shows "\<exists>g. publish out rel w = reset_rx True (w\<lparr>rx_fs := g\<rparr>) \<and> clean g
    \<and> nodes g (final_at out rel) = Some (Reg F) \<and> nodes g (partial_at out rel) = None
    \<and> (nodes (rx_fs w) (failed_at out rel) \<noteq> Some Dir \<longrightarrow> nodes g (failed_at out rel) = None)
    \<and> (\<forall>q. q \<notin> {final_at out rel, partial_at out rel, failed_at out rel} \<longrightarrow> nodes g q = nodes (rx_fs w) q)"
proof -
  note fin = files_at(1) [OF assms(2), of out]
  note d = files_distinct [OF file_form_plain [OF assms(2)], of out]
  have "is_dir (rx_fs w) (butlast (final_at out rel))" "final_at out rel \<noteq> []"
    using assms(1) by (auto simp: fin is_dir_def fs_open_def)
  then obtain g where g: "rename_file (partial_path out rel) (path_join out rel) (rx_fs w) = (True, g)" "clean g"
    "nodes g = (nodes (rx_fs w))(partial_at out rel := None, final_at out rel \<mapsto> Reg F)"
    using rename_file_clean [of "rx_fs w" "partial_path out rel" F "path_join out rel"] assms(1,2)
    by (auto simp: fs_open_def partial_at_def final_at_def)
  let ?fp = "path_join out (failed_name rel)"
  let ?g = "if path_exists ?fp g then snd (remove_file ?fp g) else g"
  have res: "resolve ?fp = failed_at out rel" by (simp add: failed_at_def)
  have eq: "publish out rel w = reset_rx True (w\<lparr>rx_fs := ?g\<rparr>)"
    using g(1) by (simp add: publish_def Let_def)
  have n: "nodes (snd (remove_file ?fp g)) q =
      (if q = failed_at out rel \<and> (\<exists>c. nodes g q = Some (Reg c)) then None else nodes g q)" for q
    using remove_file_clean(2) [OF g(2), of ?fp q] assms(2) by (simp add: res)
  have "nodes ?g (final_at out rel) = Some (Reg F)" "nodes ?g (partial_at out rel) = None"
    using d d [symmetric] by (simp_all add: n g(3))
  moreover have "clean ?g" using g(2) remove_file_clean(1) [OF g(2)] by simp
  moreover have "nodes ?g (failed_at out rel) = None" if "nodes (rx_fs w) (failed_at out rel) \<noteq> Some Dir"
  proof (cases "nodes g (failed_at out rel)")
    case None
    then show ?thesis by (simp add: n)
  next
    case (Some x)
    with that d have "\<exists>c. x = Reg c" by (cases x) (auto simp: g(3))
    with Some have "path_exists ?fp g" using assms(2) by (auto simp: path_exists_def res)
    with Some \<open>\<exists>c. x = Reg c\<close> show ?thesis by (simp add: n)
  qed
  moreover have "nodes ?g q = nodes (rx_fs w) q" if "q \<notin> {final_at out rel, partial_at out rel, failed_at out rel}" for q
    using that by (simp add: n g(3))
  ultimately show ?thesis using eq by blast
qed

end
