(* ===== verification/Delivery.thy ===== *)
theory Delivery
  imports Collect
begin

text \<open>
  The transfer of a whole file from the sender's wire to the receiver's directory: without loss for
  any encoder of the right shape, and with loss, duplication and reordering inside each batch when
  the Reed-Solomon crate keeps its promise.
\<close>

section \<open>The first and the last packet\<close>

text \<open>A path the receiver accepts and that names a file.\<close>

definition path_ok :: "bytes \<Rightarrow> bool" where
  "path_ok rel \<longleftrightarrow> is_safe_rel_path rel \<and> \<not> dir_form rel \<and> 0 \<notin> set rel \<and> valid_utf8 rel"

lemma path_ok_form: "path_ok rel \<Longrightarrow> file_form rel"
  by (simp add: path_ok_def file_form_def is_safe_plain)

lemma decode_start_packet:
  assumes "md5_width md5" and "n < 10 ^ 10"
  shows "decode_packet (start_packet md5 rel n) = Some \<lparr>pkg_type = PKG_TYPE_START, count = n,
    pkt_path_hash = md5_hex md5 rel, pkt_data_hash = encode_parity_field BATCH_PARITY_CHUNKS, pkt_data = rel\<rparr>"
  unfolding start_packet_def using assms(2)
  by (intro decode_encode_packet)
    (simp_all add: length_md5_hex [OF assms(1)] length_encode_parity_field
      PKG_TYPE_START_def BATCH_PARITY_CHUNKS_def u64_max_def)

lemma decode_end_packet:
  "n < 10 ^ 10 \<Longrightarrow> decode_packet (end_packet rel n) = Some \<lparr>pkg_type = PKG_TYPE_END, count = n,
    pkt_path_hash = EMPTY_HASH, pkt_data_hash = EMPTY_HASH, pkt_data = rel\<rparr>"
  unfolding end_packet_def
  by (rule decode_encode_packet) (simp_all add: PKG_TYPE_END_def EMPTY_HASH_def)

lemma decode_parity_100: "decode_parity_field (encode_parity_field BATCH_PARITY_CHUNKS) = Some BATCH_PARITY_CHUNKS"
  by (rule parity_field.dec_enc) (simp add: BATCH_PARITY_CHUNKS_def u64_max_def)

lemma start_begin:
  assumes "md5_width (env_md5 env)" and "path_ok rel" and "n < 10 ^ 10"
    and "rx_state w = new_receive_state" and "\<not> rx_state_poisoned w"
  shows "worker_step env w (start_packet (env_md5 env) rel n)
    = begin_transfer (env_out env) rel n (md5_hex (env_md5 env) rel) BATCH_PARITY_CHUNKS w"
  using assms(2,4,5) decode_start_packet [OF assms(1,3)]
  by (simp add: worker_step_packet handle_packet_def handle_start_def decode_parity_100 new_file_def
      abandon_previous_def path_ok_def Let_def)

lemma start_step:
  assumes "md5_width (env_md5 env)" and "path_ok rel" and "length F < 10 ^ 10"
    and "rx_state w = new_receive_state" and "\<not> rx_state_poisoned w"
    and "fs_ready (env_out env) rel (rx_fs w)"
  defines "v \<equiv> worker_step env w (start_packet (env_md5 env) rel (length F))"
  shows "receiving env rel F par (file_counts w) 0 {} {} v"
    and "nodes (rx_fs w) (failed_at (env_out env) rel) \<noteq> Some Dir
      \<Longrightarrow> nodes (rx_fs v) (failed_at (env_out env) rel) \<noteq> Some Dir"
    and "keeps (env_out env) rel (rx_fs w) (rx_fs v)"
proof -
  let ?hash = "md5_hex (env_md5 env) rel"
  obtain g where g: "begin_transfer (env_out env) rel (length F) ?hash BATCH_PARITY_CHUNKS w =
      w\<lparr>rx_state := opened rel (length F) ?hash BATCH_PARITY_CHUNKS
          \<lparr>h_path = partial_at (env_out env) rel, h_pos = 0\<rparr>, rx_fs := g\<rparr>"
    "fs_open (env_out env) rel (replicate (length F) 0) g"
    "nodes (rx_fs w) (failed_at (env_out env) rel) \<noteq> Some Dir
      \<longrightarrow> nodes g (failed_at (env_out env) rel) \<noteq> Some Dir"
    "keeps (env_out env) rel (rx_fs w) g"
    using begin_transfer_clean [OF assms(4) path_ok_form [OF assms(2)] assms(6)] by blast
  have eq: "v = w\<lparr>rx_state := opened rel (length F) ?hash BATCH_PARITY_CHUNKS
          \<lparr>h_path = partial_at (env_out env) rel, h_pos = 0\<rparr>, rx_fs := g\<rparr>"
    unfolding v_def start_begin [OF assms(1-5)] g(1) ..
  have "rx_inv env v" using worker_step_inv [OF rx_inv_idle [OF assms(4)]] unfolding v_def by blast
  then show "receiving env rel F par (file_counts w) 0 {} {} v"
    using g(2) assms(5) unfolding eq
    by (simp add: receiving_def transfer_of_def opened_def new_receive_state_def file_counts_def
        batch_first_def chunk_pos_def written_0)
  show "nodes (rx_fs w) (failed_at (env_out env) rel) \<noteq> Some Dir
      \<Longrightarrow> nodes (rx_fs v) (failed_at (env_out env) rel) \<noteq> Some Dir"
    using g(3) by (simp add: eq)
  show "keeps (env_out env) rel (rx_fs w) (rx_fs v)" using g(4) by (simp add: eq)
qed

lemma start_again:
  assumes "receiving env rel F par c b D P w"
    and "md5_width (env_md5 env)" and "path_ok rel" and "length F < 10 ^ 10"
  shows "worker_step env w (start_packet (env_md5 env) rel (length F)) = w"
  using assms decode_start_packet [OF assms(2,4)]
  by (simp add: worker_step_packet handle_packet_def handle_start_def new_file_def path_ok_def
      receiving_def transfer_of_def Let_def)

definition delivered :: "'d rx_env \<Rightarrow> bytes \<Rightarrow> bytes \<Rightarrow> nat \<times> nat \<Rightarrow> rx \<Rightarrow> bool" where
  "delivered env rel F c v \<longleftrightarrow>
     \<not> rx_state_poisoned v \<and> rx_state v = new_receive_state \<and> file_counts v = c
     \<and> nodes (rx_fs v) (final_at (env_out env) rel) = Some (Reg F)
     \<and> nodes (rx_fs v) (partial_at (env_out env) rel) = None"

lemma end_step:
  assumes "receiving env rel F par c b D P w" and "closes env rel C w"
    and "file_form rel" and "n < 10 ^ 10"
  shows "delivered env rel C (add64 (fst c) 1, snd c) (worker_step env w (end_packet rel n))"
proof -
  have tr: "transfer_of env rel F b w" and c: "file_counts w = c" using assms(1) by (simp_all add: receiving_def)
  obtain st g where fin: "finalize_last (env_fec env) w = w\<lparr>rx_state := st, rx_fs := g\<rparr>" "\<not> failed st"
    "file_path st = Some rel" "fs_open (env_out env) rel C g"
    using assms(2) by (auto simp: closes_def)
  obtain g' where pub: "publish (env_out env) rel (w\<lparr>rx_state := st, rx_fs := g\<rparr>)
      = reset_rx True (w\<lparr>rx_state := st, rx_fs := g'\<rparr>)"
    "nodes g' (final_at (env_out env) rel) = Some (Reg C)" "nodes g' (partial_at (env_out env) rel) = None"
    using publish_clean [of "env_out env" rel C "w\<lparr>rx_state := st, rx_fs := g\<rparr>"] fin(3,4) assms(3) by auto
  have "worker_step env w (end_packet rel n) = reset_rx True (w\<lparr>rx_state := st, rx_fs := g'\<rparr>)"
    using tr fin(1,2) pub(1) decode_end_packet [OF assms(4)]
    by (simp add: worker_step_packet handle_packet_def finish_file_def transfer_of_def pkg_type_defs Let_def)
  then show ?thesis
    using pub(2,3) tr c fin(3)
    by (auto simp: delivered_def transfer_of_def file_counts_def reset_transfer_def)
qed

lemma end_again:
  "delivered env rel F c v \<Longrightarrow> n < 10 ^ 10 \<Longrightarrow> worker_step env v (end_packet rel n) = v"
  by (simp add: worker_step_packet handle_packet_def delivered_def decode_end_packet pkg_type_defs Let_def)

lemma foldl_fixed: "g w x = w \<Longrightarrow> foldl g w (replicate n x) = w"
  by (induction n) simp_all

section \<open>The batches\<close>

lemma batch_bound:
  assumes "b < num_batches n" and "n < 10 ^ 10"
  shows "b * BATCH_DATA_CHUNKS < 10 ^ 10" "b \<le> 10 ^ 8" "total_chunks n < 10 ^ 10"
proof -
  have T: "total_chunks n \<le> n" by (simp add: total_chunks_def)
  with assms show "b * BATCH_DATA_CHUNKS < 10 ^ 10" by (simp add: batch_less batch_first_def)
  then show "b \<le> 10 ^ 8" by (simp add: BATCH_DATA_CHUNKS_def)
  show "total_chunks n < 10 ^ 10" using T assms(2) by simp
qed

text \<open>What arrives of each batch: known packets, enough to recover it.\<close>

definition arrives ::
  "'d rx_env \<Rightarrow> bytes \<Rightarrow> bytes \<Rightarrow> (nat \<Rightarrow> bytes list) \<Rightarrow> nat \<Rightarrow> packet_id list \<Rightarrow> bytes list \<Rightarrow> bool" where
  "arrives env rel F par b xs raws \<longleftrightarrow>
     xs \<noteq> [] \<and> list_all (id_ok F par b) xs
     \<and> map decode_packet raws = map (\<lambda>x. Some (id_packet (env_md5 env) rel F par b x)) xs
     \<and> recoverable (env_fec env) F (par b) b (ids_data xs) (ids_parity xs)"

lemma run_batches:
  assumes "receiving env rel F par c 0 {} {} w" and "length F < 10 ^ 10" and "plain rel"
    and "\<And>b. b < num_batches (length F) \<Longrightarrow> arrives env rel F par b (xs b) (raws b)"
  shows "m < num_batches (length F) \<Longrightarrow> receiving env rel F par c m (ids_data (xs m)) (ids_parity (xs m))
    (foldl (worker_step env) w (concat (map raws [0..<Suc m])))"
proof (induction m)
  case 0
  from assms(4) [OF 0] run_ids [OF receiving_ready [OF assms(1)], of "xs 0" "raws 0"]
  show ?case by (simp add: arrives_def)
next
  case (Suc m)
  then have m: "m < num_batches (length F)" by simp
  have "ready env rel F par c (Suc m) {} {} (foldl (worker_step env) w (concat (map raws [0..<Suc m])))"
    using assms(4) [OF m] batch_bound(2) [OF Suc.prems assms(2)]
    by (intro advance_next [OF Suc.IH [OF m]] Suc.prems assms(3)) (simp_all add: arrives_def)
  from run_ids [OF this, of "xs (Suc m)" "raws (Suc m)"] assms(4) [OF Suc.prems]
  show ?case by (simp add: arrives_def)
qed

lemma num_batches_0: "num_batches (length F) = 0 \<longleftrightarrow> F = []"
  using batch_less [of 0 "length F"] less_total_chunks [of 0 "length F"] by (auto simp: batch_first_def)

text \<open>START, at least once, and then the first \<open>m\<close> batches.\<close>

lemma run_start:
  assumes "md5_width (env_md5 env)" and "path_ok rel" and "length F < 10 ^ 10"
    and "rx_state w = new_receive_state" and "\<not> rx_state_poisoned w"
    and "fs_ready (env_out env) rel (rx_fs w)" and "0 < s"
  shows "receiving env rel F par (file_counts w) 0 {} {}
    (foldl (worker_step env) w (replicate s (start_packet (env_md5 env) rel (length F))))"
proof -
  note start = start_step(1) [OF assms(1-6), of par]
  obtain s' where "s = Suc s'" using assms(7) by (cases s) auto
  then show ?thesis using start start_again [OF start assms(1-3)] by (simp add: foldl_fixed)
qed

text \<open>END, at least once.\<close>

lemma run_end:
  assumes "receiving env rel F par c b D P w" and "closes env rel C w"
    and "file_form rel" and "n < 10 ^ 10" and "0 < e"
  shows "delivered env rel C (add64 (fst c) 1, snd c)
    (foldl (worker_step env) w (replicate e (end_packet rel n)))"
proof -
  note ended = end_step [OF assms(1-4)]
  obtain e' where "e = Suc e'" using assms(5) by (cases e) auto
  then show ?thesis using ended end_again [OF ended assms(4)] by (simp add: foldl_fixed)
qed

lemma total_chunks_bound: "n < 10 ^ 10 \<Longrightarrow> total_chunks n < 10 ^ 10"
  using div_ceil_le [OF chunk_size_pos, of n] unfolding total_chunks_def by linarith

text \<open>All batches: the transfer is complete, if enough of each arrived.\<close>

lemma run_complete:
  assumes "receiving env rel F par c 0 {} {} u" and "length F < 10 ^ 10" and "plain rel"
    and "\<And>b. b < num_batches (length F) \<Longrightarrow> arrives env rel F par b (xs b) (raws b)"
  defines "v \<equiv> foldl (worker_step env) u (concat (map raws [0..<num_batches (length F)]))"
  shows "\<exists>b D P. receiving env rel F par c b D P v \<and> complete env F par b D P \<and> b \<le> 10 ^ 8"
proof (cases "F = []")
  case True
  then have "v = u" using num_batches_0 [of F] by (simp add: v_def)
  with assms(1) True show ?thesis by (intro exI [of _ 0]) (auto simp: complete_def)
next
  case False
  then obtain m where m: "num_batches (length F) = Suc m" using num_batches_0 [of F] by (cases "num_batches (length F)") auto
  then have less: "m < num_batches (length F)" by simp
  from run_batches [OF assms(1-4) less]
  have "receiving env rel F par c m (ids_data (xs m)) (ids_parity (xs m)) v" by (simp add: m v_def)
  with False m assms(4) [OF less] batch_bound(2) [OF less assms(2)] show ?thesis
    by (auto simp: complete_def arrives_def)
qed

lemma deliver:
  assumes "md5_width (env_md5 env)" and "path_ok rel" and "length F < 10 ^ 10"
    and "rx_state w = new_receive_state" and "\<not> rx_state_poisoned w"
    and "fs_ready (env_out env) rel (rx_fs w)"
    and "\<And>b. b < num_batches (length F) \<Longrightarrow> \<exists>xs. arrives env rel F par b xs (raws b)"
    and "0 < s" and "0 < e"
  shows "delivered env rel F (add64 (fst (file_counts w)) 1, snd (file_counts w))
    (foldl (worker_step env) w
      (replicate s (start_packet (env_md5 env) rel (length F))
       @ concat (map raws [0..<num_batches (length F)])
       @ replicate e (end_packet rel (total_chunks (length F)))))"
proof -
  let ?c = "file_counts w"
  note form = path_ok_form [OF assms(2)]
  obtain xs where xs: "\<And>b. b < num_batches (length F) \<Longrightarrow> arrives env rel F par b (xs b) (raws b)"
    using assms(7) by metis
  note u = run_start [OF assms(1-6,8), of par]
  let ?u = "foldl (worker_step env) w (replicate s (start_packet (env_md5 env) rel (length F)))"
  let ?v = "foldl (worker_step env) ?u (concat (map raws [0..<num_batches (length F)]))"
  have "\<exists>b D P. receiving env rel F par ?c b D P ?v \<and> complete env F par b D P \<and> b \<le> 10 ^ 8"
    by (rule run_complete [OF u assms(3) file_form_plain [OF form] xs])
  then obtain b D P where v: "receiving env rel F par ?c b D P ?v" "complete env F par b D P" "b \<le> 10 ^ 8" by blast
  show ?thesis
    using run_end [OF v(1) closes_complete [OF v file_form_plain [OF form]] form total_chunks_bound [OF assms(3)] assms(9)]
    by simp
qed

text \<open>The same when every packet of the batches from \<open>m\<close> on is lost.\<close>

lemma deliver_truncated:
  assumes "md5_width (env_md5 env)" and "path_ok rel" and "length F < 10 ^ 10"
    and "rx_state w = new_receive_state" and "\<not> rx_state_poisoned w"
    and "fs_ready (env_out env) rel (rx_fs w)"
    and "\<And>b. b < num_batches (length F) \<Longrightarrow> \<exists>xs. arrives env rel F par b xs (raws b)"
    and "0 < s" and "0 < e" and "0 < m" "m < num_batches (length F)"
  shows "delivered env rel (written F (batch_first m * CHUNK_SIZE))
    (add64 (fst (file_counts w)) 1, snd (file_counts w))
    (foldl (worker_step env) w
      (replicate s (start_packet (env_md5 env) rel (length F)) @ concat (map raws [0..<m])
       @ replicate e (end_packet rel (total_chunks (length F)))))"
proof -
  let ?c = "file_counts w"
  note form = path_ok_form [OF assms(2)]
  obtain xs where xs: "\<And>b. b < num_batches (length F) \<Longrightarrow> arrives env rel F par b (xs b) (raws b)"
    using assms(7) by metis
  note u = run_start [OF assms(1-6,8), of par]
  let ?u = "foldl (worker_step env) w (replicate s (start_packet (env_md5 env) rel (length F)))"
  let ?v = "foldl (worker_step env) ?u (concat (map raws [0..<m]))"
  obtain b where b: "m = Suc b" using assms(10) by (cases m) auto
  then have less: "b < num_batches (length F)" using assms(11) by simp
  from run_batches [OF u assms(3) file_form_plain [OF form] xs less]
  have v: "receiving env rel F par ?c b (ids_data (xs b)) (ids_parity (xs b)) ?v" by (simp add: b)
  have "recoverable (env_fec env) F (par b) b (ids_data (xs b)) (ids_parity (xs b))"
    using xs [OF less] by (simp add: arrives_def)
  note closed = closes_written [OF v this less batch_bound(2) [OF less assms(3)] file_form_plain [OF form]]
  have "batch_end (length F) b = batch_first m" "chunk_pos (length F) (batch_first m) = batch_first m * CHUNK_SIZE"
    using assms(11) by (simp_all add: b batch_less batch_end_def chunk_pos_less)
  with run_end [OF v closed form total_chunks_bound [OF assms(3)] assms(9)] show ?thesis by simp
qed

end
