(* ===== verification/Delivery_Wire.thy ===== *)
theory Delivery_Wire
  imports Delivery
begin

text \<open>
  The datagrams of the sender's wire as packets of a batch, and the two delivery theorems: sender
  and receiver composed without loss, and delivery of whatever survives of each batch.
\<close>

section \<open>The packets of a batch on the wire\<close>

definition batch_ids :: "'e fec_encoder \<Rightarrow> bytes \<Rightarrow> nat \<Rightarrow> packet_id list" where
  "batch_ids enc F b =
     map DataId [batch_first b..<batch_end (length F) b] @ map ParityId [0..<length (batch_parity enc F b)]"

text \<open>Recovery shards are at most as many as asked for, and of the shard size.\<close>

definition fec_shape :: "'e fec_encoder \<Rightarrow> bool" where
  "fec_shape enc \<longleftrightarrow>
     (\<forall>shards ps. run_encoder enc shards BATCH_PARITY_CHUNKS = Some ps \<longrightarrow>
        length ps \<le> BATCH_PARITY_CHUNKS \<and> list_all (\<lambda>s. length s = SHARD_SIZE) ps)"

definition parity_fits :: "bytes list \<Rightarrow> bool" where
  "parity_fits ps \<longleftrightarrow> length ps \<le> BATCH_PARITY_CHUNKS \<and> list_all (\<lambda>s. length s = SHARD_SIZE) ps"

lemma fec_shape_fits: "fec_shape enc \<Longrightarrow> parity_fits (batch_parity enc F b)"
  by (auto simp: fec_shape_def parity_fits_def batch_parity_def parity_shards_run split: option.split)

text \<open>What the promise of the crate gives for the recovery shards of a batch.\<close>

definition batch_size :: "bytes \<Rightarrow> nat \<Rightarrow> nat" where
  "batch_size F b = batch_len (length F) b"

lemma shard_of_chunk: "length (shard_of (file_chunk F k)) = SHARD_SIZE"
  using chunk_len_le [of "length F" k]
  by (simp add: shard_of_def length_file_chunk CHUNK_SIZE_def SHARD_SIZE_def)

lemma fec_mds_parity:
  assumes "fec_mds enc dec (batch_size F b) BATCH_PARITY_CHUNKS"
  shows "length (batch_parity enc F b) = BATCH_PARITY_CHUNKS" "parity_fits (batch_parity enc F b)"
    "fec_recovers dec (batch_shards F b) (batch_parity enc F b)"
proof -
  have "list_all (\<lambda>s. length s = SHARD_SIZE) (batch_shards F b)"
    by (simp add: batch_shards_def batch_payloads_def list_all_iff shard_of_chunk)
  then obtain ps where ps: "run_encoder enc (batch_shards F b) BATCH_PARITY_CHUNKS = Some ps"
    "length ps = BATCH_PARITY_CHUNKS" "list_all (\<lambda>s. length s = SHARD_SIZE) ps"
    "fec_recovers dec (batch_shards F b) ps"
    using assms length_batch_shards [of F b] unfolding fec_mds_def batch_size_def by blast
  then have "batch_parity enc F b = ps"
    by (simp add: batch_parity_def parity_shards_run batch_shards_def)
  with ps show "length (batch_parity enc F b) = BATCH_PARITY_CHUNKS" "parity_fits (batch_parity enc F b)"
    "fec_recovers dec (batch_shards F b) (batch_parity enc F b)"
    by (simp_all add: parity_fits_def)
qed

lemma batch_ids_ok:
  assumes "parity_fits (batch_parity enc F b)"
  shows "list_all (id_ok F (batch_parity enc F) b) (batch_ids enc F b)"
  using assms by (auto simp: batch_ids_def list_all_iff batch_range_def parity_fits_def)

text \<open>The datagram of a packet id.\<close>

definition id_wire :: "(bytes \<Rightarrow> bytes) \<Rightarrow> 'e fec_encoder \<Rightarrow> bytes \<Rightarrow> bytes \<Rightarrow> nat \<Rightarrow> packet_id \<Rightarrow> bytes" where
  "id_wire md5 enc rel F b x = encode_record (id_packet md5 rel F (batch_parity enc F) b x)"

lemma id_wire_decode:
  assumes "md5_width md5" and "id_ok F (batch_parity enc F) b x" and "b < num_batches (length F)"
    and "length F < 10 ^ 10"
  shows "decode_packet (id_wire md5 enc rel F b x) = Some (id_packet md5 rel F (batch_parity enc F) b x)"
  unfolding id_wire_def
proof (rule packets.dec_enc)
  have "count (id_packet md5 rel F (batch_parity enc F) b x) < 10 ^ 10"
  proof (cases x)
    case (DataId k)
    then show ?thesis
      using assms(2) batch_range_batch(2) [of k F b] batch_bound(3) [OF assms(3,4)] by simp
  next
    case (ParityId i)
    then show ?thesis
      using assms(2) batch_bound(1) [OF assms(3,4)]
      by (simp add: BATCH_PARITY_CHUNKS_def BATCH_DATA_CHUNKS_def)
  qed
  then show "wire_ok (id_packet md5 rel F (batch_parity enc F) b x)"
    using length_md5_hex [OF assms(1)] by (cases x) (simp_all add: wire_ok_def pkg_type_defs)
qed

lemma parity_number:
  assumes "b < num_batches (length F)" and "length F < 10 ^ 10" and "i < BATCH_PARITY_CHUNKS"
  shows "add64 (mul64 b BATCH_PARITY_CHUNKS) i = b * BATCH_PARITY_CHUNKS + i"
  using batch_bound(1) [OF assms(1,2)] assms(3)
  by (simp add: BATCH_PARITY_CHUNKS_def BATCH_DATA_CHUNKS_def)

lemma batch_wire_ids:
  assumes "parity_fits (batch_parity enc F b)" and "b < num_batches (length F)" and "length F < 10 ^ 10"
  shows "batch_wire md5 enc rel F b = map (id_wire md5 enc rel F b) (batch_ids enc F b)"
proof -
  have "parity_wire md5 enc rel F b
      = map (id_wire md5 enc rel F b \<circ> ParityId) [0..<length (batch_parity enc F b)]"
  proof (rule nth_equalityI)
    fix i assume "i < length (parity_wire md5 enc rel F b)"
    then have i: "i < length (batch_parity enc F b)" by (simp add: parity_wire_def)
    then have "i < BATCH_PARITY_CHUNKS" using assms(1) by (simp add: parity_fits_def)
    from parity_number [OF assms(2,3) this] i
    show "parity_wire md5 enc rel F b ! i
        = map (id_wire md5 enc rel F b \<circ> ParityId) [0..<length (batch_parity enc F b)] ! i"
      by (simp add: parity_wire_def nth_enumerate_eq parity_packet_def id_wire_def encode_record_def)
  qed (simp add: parity_wire_def)
  moreover have "map (data_packet md5 rel F) [batch_first b..<batch_end (length F) b]
      = map (id_wire md5 enc rel F b \<circ> DataId) [batch_first b..<batch_end (length F) b]"
    by (simp add: data_packet_def id_wire_def encode_record_def)
  ultimately show ?thesis by (simp add: batch_wire_def batch_ids_def)
qed

lemma choose_ids:
  "set ys \<subseteq> f ` set xs \<Longrightarrow> \<exists>zs. ys = map f zs \<and> set zs \<subseteq> set xs"
proof (induction ys)
  case (Cons y ys)
  then obtain z zs where "y = f z" "z \<in> set xs" "ys = map f zs" "set zs \<subseteq> set xs" by auto
  then show ?case by (intro exI [of _ "z # zs"]) simp
qed simp

lemma card_ids: "card (set (map f xs)) \<le> card (ids_data xs) + card (ids_parity xs)"
proof -
  let ?num = "\<lambda>x. case x of DataId k \<Rightarrow> k | ParityId k \<Rightarrow> k"
  have "ids_data xs \<subseteq> ?num ` set xs" "ids_parity xs \<subseteq> ?num ` set xs"
    unfolding ids_data_def ids_parity_def by force+
  then have fin: "finite (ids_data xs)" "finite (ids_parity xs)"
    by (auto intro: finite_subset)
  have "set xs \<subseteq> DataId ` ids_data xs \<union> ParityId ` ids_parity xs"
  proof
    fix x assume x: "x \<in> set xs"
    show "x \<in> DataId ` ids_data xs \<union> ParityId ` ids_parity xs"
      using x by (cases rule: packet_id.exhaust [of x]) (auto simp: ids_data_def ids_parity_def)
  qed
  then have "card (set xs) \<le> card (DataId ` ids_data xs \<union> ParityId ` ids_parity xs)"
    using fin by (intro card_mono) auto
  also have "\<dots> \<le> card (ids_data xs) + card (ids_parity xs)"
    using card_Un_le card_image_le [OF fin(1), of DataId] card_image_le [OF fin(2), of ParityId]
    by (meson add_mono order_trans)
  finally show ?thesis using card_image_le [of "set xs" f] by simp
qed

lemma arrives_ids:
  assumes "md5_width (env_md5 env)" and "b < num_batches (length F)" and "length F < 10 ^ 10"
    and "xs \<noteq> []" and "list_all (id_ok F (batch_parity enc F) b) xs"
    and "recoverable (env_fec env) F (batch_parity enc F b) b (ids_data xs) (ids_parity xs)"
  shows "arrives env rel F (batch_parity enc F) b xs (map (id_wire (env_md5 env) enc rel F b) xs)"
  using assms id_wire_decode [OF assms(1) _ assms(2,3), of enc _ rel]
  by (simp add: arrives_def list_all_iff)

lemma ids_batch:
  "ids_data (batch_ids enc F b) = batch_range (length F) b"
  by (auto simp: ids_data_def batch_ids_def batch_range_def)

lemma batch_ids_not_Nil: "b < num_batches (length F) \<Longrightarrow> batch_ids enc F b \<noteq> []"
  using batch_len_pos [of b "length F"] by (simp add: batch_ids_def batch_len_def)

text \<open>All datagrams of a batch, in the order sent, are enough whatever the decoder does.\<close>

lemma arrives_all:
  assumes "md5_width (env_md5 env)" and "b < num_batches (length F)" and "length F < 10 ^ 10"
    and "parity_fits (batch_parity enc F b)"
  shows "\<exists>xs. arrives env rel F (batch_parity enc F) b xs (batch_wire (env_md5 env) enc rel F b)"
  unfolding batch_wire_ids [OF assms(4,2,3)]
  by (rule exI, rule arrives_ids [OF assms(1-3) batch_ids_not_Nil [OF assms(2)] batch_ids_ok [OF assms(4)]])
    (simp add: recoverable_def ids_batch)

text \<open>Any datagrams of a batch, as many distinct ones as it has chunks, are enough.\<close>

lemma arrives_enough:
  assumes "md5_width (env_md5 env)" and "b < num_batches (length F)" and "length F < 10 ^ 10"
    and "fec_mds enc (env_fec env) (batch_size F b) BATCH_PARITY_CHUNKS"
    and "set raws \<subseteq> set (batch_wire (env_md5 env) enc rel F b)" and "batch_size F b \<le> card (set raws)"
  shows "\<exists>xs. arrives env rel F (batch_parity enc F) b xs raws"
proof -
  note law = fec_mds_parity [OF assms(4)]
  obtain xs where xs: "raws = map (id_wire (env_md5 env) enc rel F b) xs" "set xs \<subseteq> set (batch_ids enc F b)"
    using choose_ids [of raws "id_wire (env_md5 env) enc rel F b" "batch_ids enc F b"] assms(5)
    unfolding batch_wire_ids [OF law(2) assms(2,3)] set_map by blast
  have "0 < batch_size F b" using batch_len_pos [OF assms(2)] by (simp add: batch_size_def)
  then have "xs \<noteq> []" using assms(6) xs(1) by auto
  moreover have "list_all (id_ok F (batch_parity enc F) b) xs"
    using batch_ids_ok [OF law(2)] xs(2) by (auto simp: list_all_iff)
  moreover have "recoverable (env_fec env) F (batch_parity enc F b) b (ids_data xs) (ids_parity xs)"
    using law assms(6) card_ids [of "id_wire (env_md5 env) enc rel F b" xs] xs(1)
    by (auto simp: recoverable_def batch_size_def parity_fits_def)
  ultimately show ?thesis unfolding xs(1) by (blast intro: arrives_ids [OF assms(1-3)])
qed

end
