(* ===== verification/Examples.thy ===== *)
theory Examples
  imports Delivery_Wire
begin

text \<open>
  For the witnesses: a repetition code (one original shard, every recovery shard a copy of it), a
  digest, an empty output directory \<open>o\<close>, a file \<open>a\<close>.
\<close>

definition rep_enc :: "bytes list fec_encoder" where
  "rep_enc = \<lparr>enc_new = \<lambda>k m n. Some [], enc_add = \<lambda>e v. Some (e @ [v]),
              enc_encode = \<lambda>e. Some (if e = [] then [] else replicate BATCH_PARITY_CHUNKS (take SHARD_SIZE (hd e @ replicate SHARD_SIZE 0)))\<rparr>"

definition rep_dec :: "bytes fec_decoder" where
  "rep_dec = \<lparr>dec_new = \<lambda>k m n. Some [], dec_add_original = \<lambda>d i v. Some v,
              dec_add_recovery = \<lambda>d i v. Some v, dec_decode = \<lambda>d. Some [(0, d)]\<rparr>"

definition rep_env :: "bytes rx_env" where
  "rep_env = \<lparr>env_md5 = \<lambda>_. replicate 16 0, env_fec = rep_dec, env_out = ascii ''o'', env_udp = False\<rparr>"

definition example_fs :: fs where
  "example_fs = \<lparr>nodes = [[ascii ''o''] \<mapsto> Dir], faults = []\<rparr>"

lemma rep_shape: "fec_shape rep_enc"
proof -
  have "length ps \<le> BATCH_PARITY_CHUNKS \<and> list_all (\<lambda>s. length s = SHARD_SIZE) ps"
    if "enc_encode rep_enc e = Some ps" for e ps
    using that by (auto simp: rep_enc_def list_all_iff split: if_splits)
  then show ?thesis
    unfolding fec_shape_def run_encoder_def bind_eq_Some_conv by blast
qed

lemma feed_last:
  "es \<noteq> [] \<Longrightarrow> feed (\<lambda>d i v. Some v) es d = Some (snd (last es))"
  by (induction es arbitrary: d) auto

lemma rep_recovers:
  assumes "length v = SHARD_SIZE"
  shows "fec_recovers rep_dec [v] (replicate m v)"
  unfolding fec_recovers_def
proof (intro allI impI, elim conjE)
  fix "is" js :: "nat list"
  assume "set is \<subset> {..<length [v]}" "length [v] \<le> length is + length js"
    and js: "set js \<subseteq> {..<length (replicate m v)}"
  then have ne: "is = []" "js \<noteq> []" by (cases "is"; auto)+
  have "last js < m" using subsetD [OF js last_in_set [OF ne(2)]] by simp
  with ne show "\<exists>d0 d1 d2 restored.
      dec_new rep_dec (length [v]) (length (replicate m v)) SHARD_SIZE = Some d0
      \<and> feed (dec_add_original rep_dec) (map (\<lambda>i. (i, [v] ! i)) is) d0 = Some d1
      \<and> feed (dec_add_recovery rep_dec) (map (\<lambda>j. (j, replicate m v ! j)) js) d1 = Some d2
      \<and> dec_decode rep_dec d2 = Some restored \<and> distinct (map fst restored)
      \<and> (\<forall>i < length [v]. i \<notin> set is \<longrightarrow> map_of restored i = Some ([v] ! i))"
    by (simp add: rep_dec_def feed_last last_map)
qed

lemma rep_mds: "fec_mds rep_enc rep_dec 1 BATCH_PARITY_CHUNKS"
proof -
  have "\<exists>ps. run_encoder rep_enc shards BATCH_PARITY_CHUNKS = Some ps \<and> length ps = BATCH_PARITY_CHUNKS
      \<and> list_all (\<lambda>s. length s = SHARD_SIZE) ps \<and> fec_recovers rep_dec shards ps"
    if l: "length shards = 1" "list_all (\<lambda>s. length s = SHARD_SIZE) shards" for shards
  proof -
    obtain v where v: "shards = [v]" "length v = SHARD_SIZE" using l by (cases shards) auto
    have "run_encoder rep_enc shards BATCH_PARITY_CHUNKS = Some (replicate BATCH_PARITY_CHUNKS v)"
      using v(2) by (simp add: v(1) run_encoder_def rep_enc_def)
    with rep_recovers [OF v(2), of BATCH_PARITY_CHUNKS] v show ?thesis
      by (simp add: list_all_iff)
  qed
  then show ?thesis by (simp add: fec_mds_def)
qed

lemma example_path: "path_ok (ascii ''a'')"
  by code_simp

lemma example_names: "resolve (ascii ''o'') = [ascii ''o'']" "names (ascii ''a'') = [ascii ''a'']"
  by code_simp+

lemma example_ready: "fs_ready (ascii ''o'') (ascii ''a'') example_fs"
proof -
  have "file_form (ascii ''a'')" using path_ok_form [OF example_path] .
  then show ?thesis
    by (simp add: fs_ready_def files_at parent_at_def example_names example_fs_def clean_def
        proper_prefixes_def del: ascii_Cons)
qed

lemma example_width: "md5_width (env_md5 rep_env)"
  by (simp add: md5_width_def rep_env_def)

definition example_reader :: reader where
  "example_reader = \<lparr>rd_rest = [7, 8, 9], rd_sched = [Short 0, Interrupted]\<rparr>"

definition example_source :: source where
  "example_source = \<lparr>src_len = Some 3, src_open = Some example_reader, src_remove = True\<rparr>"

definition example_tx :: tx where
  "example_tx = \<lparr>wire = [], outcomes = \<lambda>n. if n < 2 then Enobufs else Sent, attempts = 0, sleeps = [],
                 pacer_waits = 0, removed = []\<rparr>"

text \<open>The transfer of that file after its START packet.\<close>

definition example_open :: rx where
  "example_open = worker_state rep_env example_fs [start_packet (env_md5 rep_env) (ascii ''a'') 3]"

lemma rep_env_out [simp]: "env_out rep_env = ascii ''o''"
  by (simp add: rep_env_def)

lemma example_open_facts:
  "receiving rep_env (ascii ''a'') [7, 8, 9] par (0, 0) 0 {} {} example_open"
  "nodes (rx_fs example_open) (failed_at (env_out rep_env) (ascii ''a'')) \<noteq> Some Dir"
proof -
  let ?w = "initial_rx example_fs"
  have w: "rx_state ?w = new_receive_state" "\<not> rx_state_poisoned ?w" "rx_fs ?w = example_fs"
    "file_counts ?w = (0, 0)"
    by (simp_all add: initial_rx_def file_counts_def new_stats_def)
  have ready: "fs_ready (env_out rep_env) (ascii ''a'') (rx_fs ?w)" unfolding w rep_env_out by (rule example_ready)
  have len: "length [7 :: byte, 8, 9] < 10 ^ 10" "length [7 :: byte, 8, 9] = 3" by simp_all
  have eq: "example_open = worker_step rep_env ?w (start_packet (env_md5 rep_env) (ascii ''a'') (length [7 :: byte, 8, 9]))"
    unfolding len(2) by (simp add: example_open_def worker_state_def worker_run_def del: ascii_Cons)
  note facts = start_step [OF example_width example_path len(1) w(1,2) ready, folded eq, unfolded w(3,4)]
  show "receiving rep_env (ascii ''a'') [7, 8, 9] par (0, 0) 0 {} {} example_open" by (rule facts(1))
  have "failed_at (ascii ''o'') (ascii ''a'') \<noteq> [ascii ''o'']"
    using files_at(3) [OF path_ok_form [OF example_path]] by (simp add: parent_at_def example_names del: ascii_Cons)
  then show "nodes (rx_fs example_open) (failed_at (env_out rep_env) (ascii ''a'')) \<noteq> Some Dir"
    by (intro facts(2)) (simp add: example_fs_def del: ascii_Cons)
qed

lemmas example_receiving = example_open_facts(1) and example_not_failed = example_open_facts(2)

lemma example_path_in_progress: "file_path (rx_state example_open) = Some (ascii ''a'')"
  using example_receiving by (simp add: receiving_def transfer_of_def del: ascii_Cons)

text \<open>A data packet with its datagram.\<close>

definition example_data :: packet where
  "example_data = \<lparr>pkg_type = PKG_TYPE_DATA, count = 0, pkt_path_hash = EMPTY_HASH,
     pkt_data_hash = EMPTY_HASH, pkt_data = [7, 8, 9]\<rparr>"

lemma example_data_type [simp]: "pkg_type example_data = PKG_TYPE_DATA"
  by (simp add: example_data_def)

lemma example_data_decode: "decode_packet (encode_record example_data) = Some example_data"
  by (rule packets.dec_enc) (simp add: example_data_def wire_ok_def PKG_TYPE_DATA_def EMPTY_HASH_def)

lemma example_accepts: "accepts (outcomes example_tx)"
  unfolding accepts_def
proof (intro conjI allI)
  fix n
  show "outcomes example_tx n \<noteq> SendError" by (simp add: example_tx_def)
  show "\<exists>m\<ge>n. outcomes example_tx m = Sent" by (intro exI [of _ "n + 2"]) (simp add: example_tx_def)
qed

end
