(* ===== verification/Scan_Props.thy ===== *)
theory Scan_Props
  imports Scan Examples
begin

text \<open>
  The properties of the directory scan: exactly the regular files below the source directory are
  found, none of them through a symbolic link, and a round sends exactly the stable ones under
  their relative paths.
\<close>

section \<open>What is found\<close>

lemma tree_okD:
  assumes "tree_ok (Folder r es)"
  shows "Some (n, node) \<in> set es \<Longrightarrow> entry_name n \<and> tree_ok node"
    and "distinct (entry_names es)"
  using assms by (auto simp: tree_ok_folder)

definition entries_ok :: "(bytes \<times> source_node) option list \<Rightarrow> bool" where
  "entries_ok es \<longleftrightarrow> (\<forall>n node. Some (n, node) \<in> set es \<longrightarrow> entry_name n \<and> tree_ok node)
     \<and> distinct (entry_names es)"

lemma entries_ok_Folder: "tree_ok (Folder r es) \<Longrightarrow> entries_ok es"
  using tree_okD [of r es] unfolding entries_ok_def by blast

lemma entries_ok_Nil [simp]: "entries_ok [] \<longleftrightarrow> True"
  by (simp add: entries_ok_def)

lemma entries_ok_None [simp]: "entries_ok (None # es) = entries_ok es"
  by (simp add: entries_ok_def)

lemma entries_ok_Some [simp]: "entries_ok (Some (n, node) # es) \<longleftrightarrow>
    entry_name n \<and> tree_ok node \<and> n \<notin> set (entry_names es) \<and> entries_ok es"
  unfolding entries_ok_def by auto

lemma regular_at_Nil: "\<not> regular_at (Folder True []) ns"
  by (simp add: regular_at_Folder)

lemma regular_at_Cons: "regular_at (Folder True (Some (n, node) # es)) ns \<longleftrightarrow>
    (node = RegularFile \<and> ns = [n]) \<or> (\<exists>ms. ns = n # ms \<and> regular_at node ms) \<or> regular_at (Folder True es) ns"
  by (auto simp: regular_at_Folder)

lemma found_regular:
  shows "ns \<in> set (found node) \<longleftrightarrow> regular_at node ns"
    and "ns \<in> set (found_entries es) \<longleftrightarrow> regular_at (Folder True es) ns"
proof (induction node and es arbitrary: ns and ns rule: found_found_entries.induct)
  case (1 readable entries)
  then show ?case by (cases readable) (simp_all add: regular_at_Folder [of False])
next
  case (5 name node entries)
  then show ?case
    unfolding regular_at_Cons by (cases "node = RegularFile") auto
next
  case (4 entries)
  then show ?case by (simp add: regular_at_Folder [of True])
qed (simp_all add: regular_at_Nil)

lemma found_names:
  shows "tree_ok node \<Longrightarrow> ns \<in> set (found node) \<Longrightarrow> list_all entry_name ns \<and> ns \<noteq> []"
    and "entries_ok es \<Longrightarrow> ns \<in> set (found_entries es) \<Longrightarrow> list_all entry_name ns \<and> ns \<noteq> []"
proof (induction node and es arbitrary: ns and ns rule: found_found_entries.induct)
  case (1 readable entries)
  then show ?case using entries_ok_Folder by (simp split: if_splits)
qed (auto split: if_splits)

lemma distinct_found:
  shows "tree_ok node \<Longrightarrow> distinct (found node)"
    and "entries_ok es \<Longrightarrow>
      distinct (found_entries es) \<and> hd ` set (found_entries es) \<subseteq> set (entry_names es)"
proof (induction node and es rule: found_found_entries.induct)
  case (1 readable entries)
  then show ?case using entries_ok_Folder by simp
next
  case (4 entries)
  then show ?case by simp
next
  case (5 name node entries)
  let ?here = "if node = RegularFile then [[name]] else map ((#) name) (found node)"
  have rest: "distinct (found_entries entries)"
    "hd ` set (found_entries entries) \<subseteq> set (entry_names entries)"
    and fresh: "name \<notin> set (entry_names entries)"
    using 5 by simp_all
  have here: "distinct ?here" "hd ` set ?here \<subseteq> {name}"
    using 5 by (auto simp: distinct_map inj_on_def)
  have "set ?here \<inter> set (found_entries entries) = {}" using here(2) rest(2) fresh by fastforce
  with here rest show ?case by auto
qed simp_all

text \<open>The path of a directory reached by names.\<close>

definition dir_at :: "bytes \<Rightarrow> bytes list \<Rightarrow> bytes" where
  "dir_at root pre = (if pre = [] then root else path_join root (join_slash pre))"

lemma dir_at_join:
  "list_all entry_name pre \<Longrightarrow> entry_name n \<Longrightarrow> path_join (dir_at root pre) n = dir_at root (pre @ [n])"
  by (simp add: dir_at_def path_join_names)

lemma walk_found:
  shows "tree_ok node \<Longrightarrow> list_all entry_name pre \<Longrightarrow>
      walk_files (dir_at root pre) node acc = acc @ map (\<lambda>ns. dir_at root (pre @ ns)) (found node)"
    and "entries_ok es \<Longrightarrow> list_all entry_name pre \<Longrightarrow>
      walk_entries (dir_at root pre) es acc = acc @ map (\<lambda>ns. dir_at root (pre @ ns)) (found_entries es)"
proof (induction node and es arbitrary: pre acc and pre acc rule: found_found_entries.induct)
  case (1 readable entries)
  then show ?case using entries_ok_Folder by simp
next
  case (5 name node entries)
  have n: "entry_name name" "tree_ok node" using "5.prems"(1) by auto
  have rest: "walk_entries (dir_at root pre) entries a
      = a @ map (\<lambda>ns. dir_at root (pre @ ns)) (found_entries entries)" for a
    using 5 by simp
  have join: "path_join (dir_at root pre) name = dir_at root (pre @ [name])"
    using "5.prems"(2) n(1) by (rule dir_at_join)
  show ?case
  proof (cases node)
    case (Folder r ds)
    then have "walk_files (dir_at root (pre @ [name])) node a
        = a @ map (\<lambda>ns. dir_at root ((pre @ [name]) @ ns)) (found node)" for a
      using 5 n by (intro "5.IH"(1)) simp_all
    with Folder rest join show ?thesis by (simp add: Let_def comp_def del: found.simps walk_files.simps)
  qed (simp_all add: rest join Let_def)
qed simp_all

definition file_at :: "bytes \<Rightarrow> bytes list \<Rightarrow> bytes" where
  "file_at root ns = path_join root (join_slash ns)"

lemma walk_all:
  assumes "tree_ok tree"
  shows "walk_files root tree [] = map (file_at root) (found tree)"
proof -
  have "dir_at root ns = file_at root ns" if "ns \<in> set (found tree)" for ns
    using found_names(1) [OF assms that] by (simp add: dir_at_def file_at_def)
  then show ?thesis
    using walk_found(1) [OF assms, of "[]" root "[]"] by (simp add: dir_at_def)
qed

text \<open>C26. The walk finds exactly the files that are there: the paths it collects are those of the
  regular files reachable from the source directory through readable real directories, each once.
  Nothing is reached through a symbolic link, whatever the tree looks like and however deep it is.\<close>

theorem walk_finds_exactly:
  assumes "tree_ok tree"
  shows "set (walk_files root tree []) = {path_join root (join_slash ns) |ns. regular_at tree ns}
    \<and> distinct (walk_files root tree [])"
proof -
  have "inj_on (file_at root) (set (found tree))"
    unfolding file_at_def using found_names(1) [OF assms] by (blast intro: inj_onI path_join_inject)
  then have "distinct (walk_files root tree [])"
    using distinct_found(1) [OF assms] by (simp add: walk_all [OF assms] distinct_map)
  moreover have "set (walk_files root tree []) = {file_at root ns |ns. regular_at tree ns}"
    unfolding walk_all [OF assms] set_map using found_regular(1) by blast
  ultimately show ?thesis by (simp add: file_at_def)
qed

text \<open>A tree with a link, a directory that cannot be read and an entry that cannot.\<close>

definition example_tree :: source_node where
  "example_tree = Folder True
     [Some (ascii ''a'', RegularFile), Some (ascii ''l'', SymbolicLink), None,
      Some (ascii ''d'', Folder True [Some (ascii ''b'', RegularFile), Some (ascii ''s'', SpecialFile)]),
      Some (ascii ''x'', Folder False [Some (ascii ''c'', RegularFile)])]"

lemma example_tree_ok: "tree_ok example_tree"
proof -
  have names: "list_all entry_name (map ascii [''a'', ''b'', ''c'', ''d'', ''l'', ''s'', ''x''])" by code_simp
  have leaf: "tree_ok RegularFile" "tree_ok SymbolicLink" "tree_ok SpecialFile"
    by (auto intro: tree_ok.leaf)
  have "distinct (map ascii [''a'', ''l'', ''d'', ''x''])" "distinct (map ascii [''b'', ''s''])" by code_simp+
  with names leaf show ?thesis
    unfolding example_tree_def by (auto simp: tree_ok_folder simp del: ascii_Cons)
qed

theorem walk_finds_exactly_witness:
  "set (walk_files (ascii ''/s'') example_tree []) = {path_join (ascii ''/s'') (join_slash ns) |ns. regular_at example_tree ns}
    \<and> distinct (walk_files (ascii ''/s'') example_tree [])"
  by (rule walk_finds_exactly [OF example_tree_ok])

section \<open>A round of the sender\<close>

definition sendable :: "scan_env \<Rightarrow> bytes \<Rightarrow> bytes list \<Rightarrow> bool" where
  "sendable env root ns \<longleftrightarrow> valid_utf8 (join_slash ns)
     \<and> is_file_stable (first_len env (file_at root ns)) (second_len env (file_at root ns))"

text \<open>A source that holds \<open>F\<close>, can be read to its end and removed.\<close>

definition source_holds :: "source \<Rightarrow> bytes \<Rightarrow> bool" where
  "source_holds src F \<longleftrightarrow> src_len src = Some (length F) \<and> src_remove src
     \<and> (\<exists>r. src_open src = Some r \<and> rd_rest r = F \<and> reads_ok r)"

lemma send_each_round:
  assumes "accepts (outcomes t)" and "list_all (\<lambda>ns. list_all entry_name ns \<and> ns \<noteq> []) nss"
    and "\<And>ns. ns \<in> set nss \<Longrightarrow> sendable env root ns \<Longrightarrow> source_holds (source_at env (file_at root ns)) (content ns)"
  shows "\<exists>t'. send_each md5 enc mb env root (map (file_at root) nss) t = Some t'
    \<and> wire t' = wire t @ concat (map (\<lambda>ns. file_wire md5 enc (join_slash ns) (content ns)) (filter (sendable env root) nss))
    \<and> removed t' = removed t @ map (file_at root) (filter (sendable env root) nss)
    \<and> outcomes t' = outcomes t"
  using assms
proof (induction nss arbitrary: t)
  case (Cons ns nss)
  have strip: "strip_prefix (file_at root ns) root = Some (join_slash ns)"
    unfolding file_at_def using Cons.prems(2) by (intro strip_prefix_join) simp_all
  show ?case
  proof (cases "sendable env root ns")
    case True
    obtain r where src: "src_len (source_at env (file_at root ns)) = Some (length (content ns))"
      "src_open (source_at env (file_at root ns)) = Some r" "rd_rest r = content ns" "reads_ok r"
      "src_remove (source_at env (file_at root ns))"
      using Cons.prems(3) [of ns] True by (auto simp: source_holds_def)
    obtain u where u: "send_file_chunks md5 enc mb (source_at env (file_at root ns)) (file_at root ns) (join_slash ns) t = Some (True, u)"
      "wire u = wire t @ file_wire md5 enc (join_slash ns) (content ns)" "removed u = removed t @ [file_at root ns]"
      "outcomes u = outcomes t"
      using send_file_chunks_emits [OF Cons.prems(1) src] by blast
    then show ?thesis
      using Cons.IH [of u] Cons.prems strip True by (auto simp: sendable_def from_utf8_def)
  next
    case False
    then show ?thesis
      using Cons.IH [of t] Cons.prems strip by (auto simp: sendable_def from_utf8_def)
  qed
qed simp

lemma send_files_round:
  assumes "accepts (outcomes t)" and "tree_ok tree"
    and "\<forall>ns. regular_at tree ns \<and> sendable env root ns \<longrightarrow>
      source_holds (source_at env (path_join root (join_slash ns))) (content ns)"
  defines "sent \<equiv> filter (sendable env root) (found tree)"
  shows "\<exists>t'. send_files md5 enc max_backoff env root tree t = Some t'
    \<and> wire t' = wire t @ concat (map (\<lambda>ns. file_wire md5 enc (join_slash ns) (content ns)) sent)
    \<and> removed t' = removed t @ map (\<lambda>ns. path_join root (join_slash ns)) sent \<and> outcomes t' = outcomes t"
    and "distinct sent" and "set sent = {ns. regular_at tree ns \<and> sendable env root ns}"
proof -
  have reg: "ns \<in> set (found tree) \<longleftrightarrow> regular_at tree ns" for ns by (rule found_regular)
  have "list_all (\<lambda>ns. list_all entry_name ns \<and> ns \<noteq> []) (found tree)"
    using found_names(1) [OF assms(2)] by (simp add: list_all_iff)
  from send_each_round [OF assms(1) this, of env root content md5 enc max_backoff] assms(3)
  show "\<exists>t'. send_files md5 enc max_backoff env root tree t = Some t'
    \<and> wire t' = wire t @ concat (map (\<lambda>ns. file_wire md5 enc (join_slash ns) (content ns)) sent)
    \<and> removed t' = removed t @ map (\<lambda>ns. path_join root (join_slash ns)) sent \<and> outcomes t' = outcomes t"
    unfolding send_files_def walk_all [OF assms(2)] file_at_def reg sent_def by blast
  show "distinct sent" using distinct_found(1) [OF assms(2)] by (simp add: sent_def)
  show "set sent = {ns. regular_at tree ns \<and> sendable env root ns}" using reg by (auto simp: sent_def)
qed

text \<open>C27. A round of the sender. One scan sends exactly the regular files whose length is the same a second
  later and whose relative path is UTF-8, each completely, under its path relative to the source
  directory, one after the other, and removes each; every other file is left alone and sends nothing.\<close>

theorem scan_round:
  assumes "accepts (outcomes t)" and "tree_ok tree"
    and "\<forall>ns. regular_at tree ns \<and> sendable env root ns \<longrightarrow>
      source_holds (source_at env (path_join root (join_slash ns))) (content ns)"
  shows "\<exists>t' sent. send_files md5 enc max_backoff env root tree t = Some t'
    \<and> distinct sent \<and> set sent = {ns. regular_at tree ns \<and> sendable env root ns}
    \<and> wire t' = wire t @ concat (map (\<lambda>ns. file_wire md5 enc (join_slash ns) (content ns)) sent)
    \<and> removed t' = removed t @ map (\<lambda>ns. path_join root (join_slash ns)) sent"
  using send_files_round [OF assms] by blast

definition example_scan :: scan_env where
  "example_scan = \<lparr>first_len = \<lambda>_. Some 3, second_len = \<lambda>p. if p = ascii ''/s/a'' then Some 4 else Some 3,
     source_at = \<lambda>_. example_source\<rparr>"

text \<open>The file that grows between the checks is left for the next round.\<close>

theorem scan_round_witness:
  "\<exists>t' sent. send_files (\<lambda>_. replicate 16 0) rep_enc 250 example_scan (ascii ''/s'') example_tree example_tx = Some t'
    \<and> distinct sent \<and> set sent = {ns. regular_at example_tree ns \<and> sendable example_scan (ascii ''/s'') ns}
    \<and> wire t' = wire example_tx @ concat (map (\<lambda>ns. file_wire (\<lambda>_. replicate 16 0) rep_enc (join_slash ns) [7, 8, 9]) sent)
    \<and> removed t' = removed example_tx @ map (\<lambda>ns. path_join (ascii ''/s'') (join_slash ns)) sent"
  by (rule scan_round [OF example_accepts example_tree_ok])
    (simp add: example_scan_def source_holds_def example_source_def example_reader_def reads_ok_def)

end
