(* ===== verification/Directory.thy ===== *)
theory Directory
  imports Delivery_Wire Scan_Props
begin

text \<open>
  Several files one after the other: what a transfer leaves untouched, and the directory the
  receiver holds after a whole scan of the sender.
\<close>

section \<open>What a transfer leaves untouched\<close>

text \<open>A datagram that is neither START nor END of a transfer.\<close>

definition chunk_packet :: "bytes \<Rightarrow> bool" where
  "chunk_packet raw \<longleftrightarrow>
     (\<exists>p. decode_packet raw = Some p \<and> pkg_type p \<in> {PKG_TYPE_DATA, PKG_TYPE_PARITY})"

definition running :: "'d rx_env \<Rightarrow> bytes \<Rightarrow> rx \<Rightarrow> bool" where
  "running env rel w \<longleftrightarrow> \<not> rx_state_poisoned w \<and> tr_open (env_out env) rel (rx_state w) (rx_fs w)"

lemma handle_chunk_poisoned [simp]:
  "rx_state_poisoned (handle_data env p w) = rx_state_poisoned w"
  "rx_state_poisoned (handle_parity env p w) = rx_state_poisoned w"
  by (simp_all add: handle_data_def handle_parity_def advance_rx_def Let_def split: prod.split)

lemma step_only_partial:
  assumes "running env rel w" and "chunk_packet raw"
  shows "running env rel (worker_step env w raw)
    \<and> only_partial (env_out env) rel (rx_fs w) (rx_fs (worker_step env w raw))"
proof -
  obtain p where p: "decode_packet raw = Some p" "pkg_type p \<in> {PKG_TYPE_DATA, PKG_TYPE_PARITY}"
    using assms(2) by (auto simp: chunk_packet_def)
  have op: "tr_open (env_out env) rel (rx_state w) (rx_fs w)" and np: "\<not> rx_state_poisoned w"
    using assms(1) by (simp_all add: running_def)
  have path: "file_path (rx_state w) = Some rel" using tr_open_path [OF op] ..
  note bound = decode_packet_Some(3) [OF p(1)]
  have "worker_step env w raw = handle_data env p w \<or> worker_step env w raw = handle_parity env p w"
    using p np path by (auto simp: worker_step_def acquire_state_def handle_packet_def pkg_type_defs)
  then show ?thesis
    using handle_data_open [OF op bound] handle_parity_open [OF op bound] np by (auto simp: running_def)
qed

lemma run_only_partial:
  assumes "running env rel w" and "list_all chunk_packet raws"
  shows "running env rel (foldl (worker_step env) w raws)
    \<and> only_partial (env_out env) rel (rx_fs w) (rx_fs (foldl (worker_step env) w raws))"
  using assms
proof (induction raws arbitrary: w)
  case (Cons raw raws)
  have raw: "chunk_packet raw" and raws: "list_all chunk_packet raws" using Cons.prems(2) by simp_all
  note step = step_only_partial [OF Cons.prems(1) raw]
  from Cons.IH [OF conjunct1 [OF step] raws] step show ?case by (auto intro: only_partial_trans)
qed simp

lemma arrives_chunks: "arrives env rel F par b xs raws \<Longrightarrow> list_all chunk_packet raws"
proof -
  assume a: "arrives env rel F par b xs raws"
  have "\<exists>x. decode_packet raw = Some (id_packet (env_md5 env) rel F par b x)" if "raw \<in> set raws" for raw
  proof -
    have "map decode_packet raws = map (\<lambda>x. Some (id_packet (env_md5 env) rel F par b x)) xs"
      using a by (simp add: arrives_def)
    moreover have "decode_packet raw \<in> set (map decode_packet raws)" using that by simp
    ultimately show ?thesis by auto
  qed
  moreover have "pkg_type (id_packet (env_md5 env) rel F par b x) \<in> {PKG_TYPE_DATA, PKG_TYPE_PARITY}" for x
    by (cases x) simp_all
  ultimately show ?thesis unfolding chunk_packet_def list_all_iff by blast
qed

lemma keeps_partial: "keeps out rel f g \<Longrightarrow> only_partial out rel g h \<Longrightarrow> keeps out rel f h"
  by (simp add: keeps_def only_partial_def same_except_def partial_at_def)

lemma end_keeps:
  assumes "receiving env rel F par c b D P w" and "closes env rel C w" and "file_form rel" and "n < 10 ^ 10"
    and "nodes (rx_fs w) (failed_at (env_out env) rel) \<noteq> Some Dir" and "keeps (env_out env) rel f (rx_fs w)"
  defines "v \<equiv> worker_step env w (end_packet rel n)"
  shows "clean (rx_fs v)" and "nodes (rx_fs v) (failed_at (env_out env) rel) = None"
    and "keeps (env_out env) rel f (rx_fs v)"
proof -
  let ?out = "env_out env"
  have tr: "transfer_of env rel F b w" using assms(1) by (simp add: receiving_def)
  then have op: "tr_open ?out rel (rx_state w) (rx_fs w)" by (simp add: transfer_of_def rx_inv_receiving)
  obtain st g where fin: "finalize_last (env_fec env) w = w\<lparr>rx_state := st, rx_fs := g\<rparr>" "\<not> failed st"
    "file_path st = Some rel" "fs_open ?out rel C g"
    using assms(2) by (auto simp: closes_def)
  have part: "only_partial ?out rel (rx_fs w) g" using finalize_last_open(2) [OF op, of "env_fec env"] fin(1) by simp
  have "failed_at ?out rel \<noteq> partial_at ?out rel"
    using files_distinct(3) [OF file_form_plain [OF assms(3)]] by metis
  then have failed: "nodes g (failed_at ?out rel) \<noteq> Some Dir"
    using part assms(5) by (simp add: only_partial_def same_except_def partial_at_def)
  obtain g' where pub: "publish ?out rel (w\<lparr>rx_state := st, rx_fs := g\<rparr>)
      = reset_rx True (w\<lparr>rx_state := st, rx_fs := g'\<rparr>)" "clean g'"
    "nodes g' (failed_at ?out rel) = None"
    "\<forall>q. q \<notin> {final_at ?out rel, partial_at ?out rel, failed_at ?out rel} \<longrightarrow> nodes g' q = nodes g q"
    using publish_clean [of ?out rel C "w\<lparr>rx_state := st, rx_fs := g\<rparr>"] fin(3,4) assms(3) failed by auto
  have v: "v = reset_rx True (w\<lparr>rx_state := st, rx_fs := g'\<rparr>)"
    unfolding v_def using tr fin(1,2) pub(1) decode_end_packet [OF assms(4)]
    by (simp add: worker_step_packet handle_packet_def finish_file_def transfer_of_def pkg_type_defs Let_def)
  show "clean (rx_fs v)" "nodes (rx_fs v) (failed_at ?out rel) = None" using pub(2,3) by (simp_all add: v)
  show "keeps ?out rel f (rx_fs v)"
    using keeps_partial [OF assms(6) part] pub(4) by (simp add: keeps_def v)
qed

text \<open>A whole transfer: \<open>deliver\<close> with the rest of the tree.\<close>

definition replaced :: "'d rx_env \<Rightarrow> bytes \<Rightarrow> bytes \<Rightarrow> rx \<Rightarrow> rx \<Rightarrow> bool" where
  "replaced env rel F w v \<longleftrightarrow>
     delivered env rel F (add64 (fst (file_counts w)) 1, snd (file_counts w)) v
     \<and> clean (rx_fs v) \<and> nodes (rx_fs v) (failed_at (env_out env) rel) = None
     \<and> keeps (env_out env) rel (rx_fs w) (rx_fs v)"

lemma run_start_keeps:
  fixes F :: bytes
  assumes "md5_width (env_md5 env)" and "path_ok rel" and "length F < 10 ^ 10"
    and "rx_state w = new_receive_state" and "\<not> rx_state_poisoned w"
    and "fs_ready (env_out env) rel (rx_fs w)" and "0 < s"
    and "nodes (rx_fs w) (failed_at (env_out env) rel) \<noteq> Some Dir"
  defines "u \<equiv> foldl (worker_step env) w (replicate s (start_packet (env_md5 env) rel (length F)))"
  shows "keeps (env_out env) rel (rx_fs w) (rx_fs u)" "nodes (rx_fs u) (failed_at (env_out env) rel) \<noteq> Some Dir"
proof -
  note start = start_step [OF assms(1-6)]
  obtain s' where "s = Suc s'" using assms(7) by (cases s) auto
  then have "u = worker_step env w (start_packet (env_md5 env) rel (length F))"
    unfolding u_def using start_again [OF start(1) assms(1-3)] by (simp add: foldl_fixed)
  with start(2) [OF assms(8)] start(3)
  show "keeps (env_out env) rel (rx_fs w) (rx_fs u)" "nodes (rx_fs u) (failed_at (env_out env) rel) \<noteq> Some Dir"
    by simp_all
qed

lemma deliver_replaced:
  assumes "md5_width (env_md5 env)" and "path_ok rel" and "length F < 10 ^ 10"
    and "rx_state w = new_receive_state" and "\<not> rx_state_poisoned w"
    and "fs_ready (env_out env) rel (rx_fs w)"
    and "\<And>b. b < num_batches (length F) \<Longrightarrow> \<exists>xs. arrives env rel F par b xs (raws b)"
    and "0 < s" and "0 < e" and "nodes (rx_fs w) (failed_at (env_out env) rel) \<noteq> Some Dir"
  shows "replaced env rel F w (foldl (worker_step env) w
      (replicate s (start_packet (env_md5 env) rel (length F))
       @ concat (map raws [0..<num_batches (length F)])
       @ replicate e (end_packet rel (total_chunks (length F)))))"
proof -
  let ?out = "env_out env" and ?fin = "end_packet rel (total_chunks (length F))"
  note form = path_ok_form [OF assms(2)]
  obtain xs where xs: "\<And>b. b < num_batches (length F) \<Longrightarrow> arrives env rel F par b (xs b) (raws b)"
    using assms(7) by metis
  let ?u = "foldl (worker_step env) w (replicate s (start_packet (env_md5 env) rel (length F)))"
  let ?mid = "concat (map raws [0..<num_batches (length F)])"
  let ?v = "foldl (worker_step env) ?u ?mid"
  note u = run_start [OF assms(1-6,8), of par] and uk = run_start_keeps [OF assms(1-6,8,10)]
  have "running env rel ?u"
    using u by (simp add: running_def receiving_def transfer_of_def rx_inv_receiving)
  moreover have "list_all chunk_packet ?mid"
    using arrives_chunks [OF xs] by (fastforce simp: list_all_iff)
  ultimately have mid: "only_partial ?out rel (rx_fs ?u) (rx_fs ?v)" using run_only_partial by blast
  obtain b D P where v: "receiving env rel F par (file_counts w) b D P ?v" "complete env F par b D P" "b \<le> 10 ^ 8"
    using run_complete [OF u assms(3) file_form_plain [OF form] xs] by blast
  note closed = closes_complete [OF v file_form_plain [OF form]] and bound = total_chunks_bound [OF assms(3)]
  have "failed_at ?out rel \<noteq> partial_at ?out rel"
    using files_distinct(3) [OF file_form_plain [OF form]] by metis
  then have failed: "nodes (rx_fs ?v) (failed_at ?out rel) \<noteq> Some Dir"
    using mid uk(2) by (simp add: only_partial_def same_except_def partial_at_def)
  note ended = end_keeps [OF v(1) closed form bound failed keeps_partial [OF uk(1) mid]]
  note ende = end_step [OF v(1) closed form bound]
  obtain e' where "e = Suc e'" using assms(9) by (cases e) auto
  then have "foldl (worker_step env) ?v (replicate e ?fin) = worker_step env ?v ?fin"
    using end_again [OF ende bound] by (simp add: foldl_fixed)
  with ended ende show ?thesis by (simp add: replaced_def)
qed

end
