(* ===== verification/Directory_Props.thy ===== *)
theory Directory_Props
  imports Directory
begin

text \<open>
  The directory the receiver holds after a scan of the sender: a mirror of the files sent.
\<close>

section \<open>Names below the output directory\<close>

definition suffixed :: "bytes list \<Rightarrow> bytes \<Rightarrow> bytes list" where
  "suffixed ns t = butlast ns @ [last ns @ t]"

definition names_ok :: "bytes list \<Rightarrow> bool" where
  "names_ok ns \<longleftrightarrow> list_all entry_name ns \<and> ns \<noteq> []"

lemma files_of_names:
  assumes "names_ok ns"
  shows "final_at out (join_slash ns) = resolve out @ ns"
    and "partial_at out (join_slash ns) = resolve out @ suffixed ns (ascii ''.partial'')"
    and "failed_at out (join_slash ns) = resolve out @ suffixed ns (ascii ''.failed'')"
    and "parent_at out (join_slash ns) = resolve out @ butlast ns"
proof -
  have n: "plain (join_slash ns)" "names (join_slash ns) = ns" "\<not> dir_form (join_slash ns)"
    using assms names_join_slash unfolding names_ok_def by blast+
  then have form: "file_form (join_slash ns)" by (simp add: file_form_def)
  show "parent_at out (join_slash ns) = resolve out @ butlast ns" by (simp add: parent_at_def n(2))
  with files_at [OF form, of out] assms n(2)
  show "final_at out (join_slash ns) = resolve out @ ns"
    and "partial_at out (join_slash ns) = resolve out @ suffixed ns (ascii ''.partial'')"
    and "failed_at out (join_slash ns) = resolve out @ suffixed ns (ascii ''.failed'')"
    by (simp_all add: suffixed_def names_ok_def del: ascii_Cons)
qed

lemma suffixed_neq: "ns \<noteq> [] \<Longrightarrow> t \<noteq> [] \<Longrightarrow> suffixed ns t \<noteq> ns"
  unfolding suffixed_def by (metis append_butlast_last_id append_self_conv last_snoc)

lemma suffixed_not_prefix: "ns \<noteq> [] \<Longrightarrow> \<not> prefix (suffixed ns t) (butlast ns)"
  by (auto simp: suffixed_def dest: prefix_length_le)

text \<open>Two files that get in each other's way neither as directories nor as partial files and markers.\<close>

definition apart :: "bytes list \<Rightarrow> bytes list \<Rightarrow> bool" where
  "apart ns ms \<longleftrightarrow> \<not> prefix ns ms \<and> \<not> prefix ms ns
     \<and> \<not> prefix (suffixed ns (ascii ''.partial'')) ms \<and> \<not> prefix (suffixed ns (ascii ''.failed'')) ms"

section \<open>Mirrors\<close>

text \<open>Below the output directory there are exactly these files, and directories only above them.\<close>

definition mirror :: "bytes \<Rightarrow> (bytes list \<Rightarrow> bytes) \<Rightarrow> bytes list set \<Rightarrow> fs \<Rightarrow> bool" where
  "mirror out content N f \<longleftrightarrow>
     (\<forall>d. d \<noteq> [] \<longrightarrow> prefix d (resolve out) \<longrightarrow> nodes f d = None \<or> nodes f d = Some Dir)
     \<and> (\<forall>r. r \<noteq> [] \<longrightarrow>
          (case nodes f (resolve out @ r) of
             None \<Rightarrow> r \<notin> N
           | Some Dir \<Rightarrow> r \<notin> N \<and> (\<exists>ns \<in> N. strict_prefix r ns)
           | Some (Reg c) \<Rightarrow> r \<in> N \<and> c = content r))"

lemma mirror_at:
  assumes "mirror out content N f" and "r \<noteq> []"
  shows "case nodes f (resolve out @ r) of
             None \<Rightarrow> r \<notin> N
           | Some Dir \<Rightarrow> r \<notin> N \<and> (\<exists>ns \<in> N. strict_prefix r ns)
           | Some (Reg c) \<Rightarrow> r \<in> N \<and> c = content r"
  using assms unfolding mirror_def by blast

lemma mirrorD:
  assumes "mirror out content N f" and "r \<noteq> []"
  shows "nodes f (resolve out @ r) = Some Dir \<Longrightarrow> \<exists>ns \<in> N. strict_prefix r ns"
    and "nodes f (resolve out @ r) = Some (Reg c) \<longleftrightarrow> r \<in> N \<and> c = content r"
    and "nodes f (resolve out @ r) = None \<Longrightarrow> r \<notin> N"
proof -
  note m = mirror_at [OF assms]
  show "nodes f (resolve out @ r) = Some Dir \<Longrightarrow> \<exists>ns \<in> N. strict_prefix r ns"
    "nodes f (resolve out @ r) = None \<Longrightarrow> r \<notin> N"
    using m by simp_all
  show "nodes f (resolve out @ r) = Some (Reg c) \<longleftrightarrow> r \<in> N \<and> c = content r"
    using m by (auto split: option.splits node.splits)
qed

lemma mirror_ready:
  assumes "mirror out content N f" and "clean f" and "names_ok ns" and "\<forall>ms \<in> N. apart ns ms"
  shows "fs_ready out (join_slash ns) f" and "nodes f (failed_at out (join_slash ns)) \<noteq> Some Dir"
proof -
  note at = files_of_names [OF assms(3), of out]
  have ne: "ns \<noteq> []" using assms(3) by (simp add: names_ok_def)
  have no_dir: "nodes f (resolve out @ r) \<noteq> Some Dir" if "r \<noteq> []" "\<forall>ms \<in> N. \<not> prefix r ms" for r
    using mirrorD(1) [OF assms(1) that(1)] that(2) by (auto simp: strict_prefix_def)
  have "nodes f (resolve out @ suffixed ns t) \<noteq> Some Dir" if "t \<in> {ascii ''.partial'', ascii ''.failed''}" for t
    using assms(4) that by (intro no_dir) (auto simp: apart_def suffixed_def simp del: ascii_Cons)
  moreover have "nodes f (resolve out @ ns) \<noteq> Some Dir"
    using assms(4) ne by (intro no_dir) (auto simp: apart_def)
  moreover have "nodes f d = None \<or> nodes f d = Some Dir" if d: "d \<noteq> []" "prefix d (resolve out @ butlast ns)" for d
  proof (cases "prefix d (resolve out)")
    case True
    with assms(1) d(1) show ?thesis unfolding mirror_def by blast
  next
    case False
    then obtain r where r: "d = resolve out @ r" "r \<noteq> []" "prefix r (butlast ns)"
      using d(2) by (auto simp: prefix_append)
    then have "prefix r ns" using append_butlast_last_id [OF ne] by (metis prefix_order.trans prefixI)
    then have "r \<notin> N" using assms(4) by (auto simp: apart_def)
    with mirrorD(2) [OF assms(1) r(2)] show ?thesis
      by (cases "nodes f d") (auto simp: r(1) intro: node.exhaust)
  qed
  ultimately show "fs_ready out (join_slash ns) f" "nodes f (failed_at out (join_slash ns)) \<noteq> Some Dir"
    using assms(2) by (auto simp: fs_ready_def at list_all_iff proper_prefixes_iff simp del: ascii_Cons)
qed

lemma mirror_replaced:
  assumes "mirror out content N f" and "names_ok ns" and "\<forall>ms \<in> N. apart ns ms"
    and "keeps out (join_slash ns) f g" and "nodes g (final_at out (join_slash ns)) = Some (Reg (content ns))"
    and "nodes g (partial_at out (join_slash ns)) = None" and "nodes g (failed_at out (join_slash ns)) = None"
  shows "mirror out content (insert ns N) g"
proof -
  note at = files_of_names [OF assms(2), of out]
  have ne: "ns \<noteq> []" using assms(2) by (simp add: names_ok_def)
  have suf: "suffixed ns t \<noteq> ns" "suffixed ns t \<notin> N" if "t \<in> {ascii ''.partial'', ascii ''.failed''}" for t
    using that assms(3) suffixed_neq [OF ne] by (auto simp: apart_def simp del: ascii_Cons) auto
  have other: "nodes g q = (if q \<noteq> [] \<and> prefix q (resolve out @ butlast ns) then Some Dir else nodes f q)"
    if "q \<notin> {resolve out @ ns, resolve out @ suffixed ns (ascii ''.partial''), resolve out @ suffixed ns (ascii ''.failed'')}" for q
    using assms(4) that unfolding keeps_def at by blast
  show ?thesis
    unfolding mirror_def
  proof (intro conjI allI impI)
    fix d assume d: "d \<noteq> []" "prefix d (resolve out)"
    have "length d \<le> length (resolve out)" using d(2) by (rule prefix_length_le)
    then have "d \<notin> {resolve out @ ns, resolve out @ suffixed ns (ascii ''.partial''), resolve out @ suffixed ns (ascii ''.failed'')}"
      using ne by (auto simp: suffixed_def simp del: ascii_Cons)
    with other d show "nodes g d = None \<or> nodes g d = Some Dir" by simp
  next
    fix r :: "bytes list" assume r: "r \<noteq> []"
    consider "r = ns" | t where "t \<in> {ascii ''.partial'', ascii ''.failed''}" "r = suffixed ns t"
      | "r \<noteq> ns" "r \<noteq> suffixed ns (ascii ''.partial'')" "r \<noteq> suffixed ns (ascii ''.failed'')" by blast
    then show "case nodes g (resolve out @ r) of
             None \<Rightarrow> r \<notin> insert ns N
           | Some Dir \<Rightarrow> r \<notin> insert ns N \<and> (\<exists>ns \<in> insert ns N. strict_prefix r ns)
           | Some (Reg c) \<Rightarrow> r \<in> insert ns N \<and> c = content r"
    proof cases
      case 1
      then show ?thesis using assms(5) by (simp add: at)
    next
      case 2
      then have "nodes g (resolve out @ r) = None" using assms(6,7) unfolding at by blast
      with suf [OF 2(1)] 2(2) show ?thesis by simp
    next
      case 3
      then have o: "nodes g (resolve out @ r) = (if prefix r (butlast ns) then Some Dir else nodes f (resolve out @ r))"
        using other [of "resolve out @ r"] r by simp
      show ?thesis
      proof (cases "prefix r (butlast ns)")
        case True
        then have "strict_prefix r ns" using append_butlast_last_id [OF ne] 3(1)
          by (metis prefix_order.trans prefixI prefix_order.le_neq_trans)
        moreover have "r \<notin> N" using assms(3) calculation by (auto simp: apart_def)
        ultimately show ?thesis using True 3(1) by (simp add: o)
      next
        case False
        then have "nodes g (resolve out @ r) = nodes f (resolve out @ r)" by (simp add: o)
        with mirror_at [OF assms(1) r] 3(1) show ?thesis
          by (cases "nodes f (resolve out @ r)") (auto split: node.splits)
      qed
    qed
  qed
qed

section \<open>A scan, received\<close>

lemma entry_node_unique:
  "distinct (entry_names es) \<Longrightarrow> Some (n, a) \<in> set es \<Longrightarrow> Some (n, b) \<in> set es \<Longrightarrow> a = b"
proof (induction es rule: entry_names.induct)
  case (3 name node entries)
  have "Some (n, x) \<in> set entries \<Longrightarrow> n \<in> set (entry_names entries)" for x
    by (induction entries rule: entry_names.induct) auto
  with 3 show ?case by auto
qed auto

lemma regular_at_apart:
  "regular_at tree ns \<Longrightarrow> tree_ok tree \<Longrightarrow> regular_at tree ms \<Longrightarrow> prefix ns ms \<Longrightarrow> ns = ms"
proof (induction arbitrary: ms rule: regular_at.induct)
  case (here n es)
  obtain ms' where ms: "ms = n # ms'" using here.prems(3) by (cases ms) auto
  from here.prems(2) obtain node where node: "Some (n, node) \<in> set es"
    "node = RegularFile \<and> ms = [n] \<or> regular_at node ms'"
    unfolding regular_at_Folder ms by auto
  have "node = RegularFile" using entry_node_unique [OF tree_okD(2) [OF here.prems(1)]] here(1) node(1) by auto
  with node(2) show ?case by auto
next
  case (below n r ds es ns)
  obtain ms' where ms: "ms = n # ms'" "prefix ns ms'" using below.prems(3) by (cases ms) auto
  from below.prems(2) obtain node where node: "Some (n, node) \<in> set es"
    "node = RegularFile \<and> ms = [n] \<or> regular_at node ms'"
    unfolding regular_at_Folder ms by auto
  have "node = Folder r ds" using entry_node_unique [OF tree_okD(2) [OF below.prems(1)]] below(1) node(1) by auto
  moreover have "tree_ok (Folder r ds)" using tree_okD(1) [OF below.prems(1) below(1)] ..
  ultimately show ?case using below.IH [of ms'] node(2) ms by auto
qed

lemma regular_at_names: "tree_ok tree \<Longrightarrow> regular_at tree ns \<Longrightarrow> names_ok ns"
  using found_names(1) found_regular(1) unfolding names_ok_def by blast

lemma names_path_ok:
  assumes "names_ok ns" and "valid_utf8 (join_slash ns)" and "\<not> starts_with backslash (join_slash ns)"
  shows "path_ok (join_slash ns)"
proof -
  have "0 \<notin> set (join_slash ns)" if "list_all entry_name ns" for ns
    using that by (induction ns rule: join_slash.induct) (auto simp: entry_name_def slash_def)
  then show ?thesis
    using assms names_join_slash unfolding path_ok_def names_ok_def is_safe_plain by blast
qed

text \<open>Transfers one after the other, each file apart from those before it.\<close>

definition mirrors :: "'d rx_env \<Rightarrow> (bytes list \<Rightarrow> bytes) \<Rightarrow> bytes list list \<Rightarrow> rx \<Rightarrow> bool" where
  "mirrors env content nss w \<longleftrightarrow>
     rx_state w = new_receive_state \<and> \<not> rx_state_poisoned w \<and> clean (rx_fs w)
     \<and> mirror (env_out env) content (set nss) (rx_fs w) \<and> file_counts w = (length nss mod 2 ^ 64, 0)"

lemma mirrors_file:
  assumes "mirrors env content nss w" and "md5_width (env_md5 env)" and "fec_shape enc"
    and "names_ok ns" and "path_ok (join_slash ns)" and "length (content ns) < 10 ^ 10" and "\<forall>ms \<in> set nss. apart ns ms"
  shows "mirrors env content (nss @ [ns])
    (foldl (worker_step env) w (file_wire (env_md5 env) enc (join_slash ns) (content ns)))"
proof -
  let ?rel = "join_slash ns" and ?F = "content ns"
  have w: "rx_state w = new_receive_state" "\<not> rx_state_poisoned w" "clean (rx_fs w)"
    "mirror (env_out env) content (set nss) (rx_fs w)" "file_counts w = (length nss mod 2 ^ 64, 0)"
    using assms(1) by (simp_all add: mirrors_def)
  note ready = mirror_ready [OF w(4,3) assms(4,7)]
  have arr: "\<exists>xs. arrives env ?rel ?F (batch_parity enc ?F) b xs (batch_wire (env_md5 env) enc ?rel ?F b)"
    if "b < num_batches (length ?F)" for b
    using arrives_all [OF assms(2) that assms(6) fec_shape_fits [OF assms(3)]] .
  have "replaced env ?rel ?F w (foldl (worker_step env) w (file_wire (env_md5 env) enc ?rel ?F))"
    unfolding file_wire_def
    by (rule deliver_replaced [OF assms(2,5,6) w(1,2) ready(1) arr _ _ ready(2)]) (simp_all add: CONTROL_RESEND_def)
  then show ?thesis
    using mirror_replaced [OF w(4) assms(4,7)] w(5)
    by (simp add: replaced_def delivered_def mirrors_def add64_def mod_Suc_eq)
qed

lemma mirrors_files:
  assumes "mirrors env content done w" and "md5_width (env_md5 env)" and "fec_shape enc"
    and "\<And>ns. ns \<in> set nss \<Longrightarrow> names_ok ns \<and> path_ok (join_slash ns) \<and> length (content ns) < 10 ^ 10"
    and "\<And>ns ms. ns \<in> set nss \<Longrightarrow> ms \<in> set (done @ nss) \<Longrightarrow> ns \<noteq> ms \<Longrightarrow> apart ns ms" and "distinct (done @ nss)"
  shows "mirrors env content (done @ nss)
    (foldl (worker_step env) w (concat (map (\<lambda>ns. file_wire (env_md5 env) enc (join_slash ns) (content ns)) nss)))"
  using assms(1,4-6)
proof (induction nss arbitrary: "done" w)
  case (Cons ns nss)
  have ns: "names_ok ns" "path_ok (join_slash ns)" "length (content ns) < 10 ^ 10" using Cons.prems(2) [of ns] by simp_all
  have "\<forall>ms \<in> set done. apart ns ms" using Cons.prems(3) [of ns] Cons.prems(4) by auto
  note this = mirrors_file [OF Cons.prems(1) assms(2,3) ns this]
  from Cons.IH [OF this] Cons.prems(2-4) show ?case by auto
qed simp

text \<open>C2. A whole scan, end to end. Over a kernel that in the end takes every datagram, a round of the
  sender and the receiver behind it turn the output directory into a mirror of the files sent: below it
  there is exactly one regular file for each stable regular file of the source tree, under the
  same names and with the same bytes, nothing else but the directories above them, no partial file and
  no marker; each is counted as received, none as failed, and the sources sent are removed.
  The names may not begin with a backslash, and no name may be another's plus \<open>.partial\<close> or \<open>.failed\<close>.\<close>

theorem scan_to_receiver:
  assumes "accepts (outcomes t)" and "wire t = []" and "tree_ok tree"
    and "md5_width (env_md5 env)" and "fec_shape enc"
    and "\<forall>ns. regular_at tree ns \<and> sendable senv root ns \<longrightarrow>
      source_holds (source_at senv (path_join root (join_slash ns))) (content ns)
      \<and> length (content ns) < 10 ^ 10 \<and> \<not> starts_with backslash (join_slash ns)"
    and "\<forall>ns ms. regular_at tree ns \<and> regular_at tree ms \<longrightarrow>
      \<not> prefix (suffixed ns (ascii ''.partial'')) ms \<and> \<not> prefix (suffixed ns (ascii ''.failed'')) ms"
    and "clean f" and "mirror (env_out env) content {} f"
  shows "\<exists>t' sent. send_files (env_md5 env) enc max_backoff senv root tree t = Some t'
    \<and> distinct sent \<and> set sent = {ns. regular_at tree ns \<and> sendable senv root ns}
    \<and> removed t' = removed t @ map (\<lambda>ns. path_join root (join_slash ns)) sent
    \<and> mirror (env_out env) content (set sent) (rx_fs (worker_state env f (wire t')))
    \<and> file_counts (worker_state env f (wire t')) = (length sent mod 2 ^ 64, 0)"
proof -
  let ?sent = "filter (sendable senv root) (found tree)"
  have "\<forall>ns. regular_at tree ns \<and> sendable senv root ns \<longrightarrow>
      source_holds (source_at senv (path_join root (join_slash ns))) (content ns)" using assms(6) by blast
  note sent = send_files_round [OF assms(1,3) this]
  obtain t' where t': "send_files (env_md5 env) enc max_backoff senv root tree t = Some t'"
    "wire t' = concat (map (\<lambda>ns. file_wire (env_md5 env) enc (join_slash ns) (content ns)) ?sent)"
    "removed t' = removed t @ map (\<lambda>ns. path_join root (join_slash ns)) ?sent"
    using sent(1) [of "env_md5 env" enc max_backoff] assms(2) by auto
  have "apart ns ms" if "regular_at tree ns" "regular_at tree ms" "ns \<noteq> ms" for ns ms
    using regular_at_apart [OF that(1) assms(3) that(2)] regular_at_apart [OF that(2) assms(3) that(1)] assms(7) that
    unfolding apart_def by blast
  then have "mirrors env content ([] @ ?sent) (foldl (worker_step env) (initial_rx f) (wire t'))"
    unfolding t'(2) using sent(2,3) assms(6,8,9) regular_at_names [OF assms(3)]
    by (intro mirrors_files assms(4,5))
      (auto simp: mirrors_def initial_rx_def file_counts_def new_stats_def sendable_def intro!: names_path_ok)
  then show ?thesis
    using t'(1,3) sent(2,3)
    by (intro exI [of _ t'] exI [of _ ?sent]) (simp add: mirrors_def worker_state_def worker_run_def)
qed

text \<open>The example tree, into the empty output directory \<open>o\<close>; no file of it is unstable but \<open>a\<close>.\<close>

lemma example_found: "regular_at example_tree ns \<longleftrightarrow> ns \<in> {[ascii ''a''], [ascii ''d'', ascii ''b'']}"
proof -
  have "found example_tree = [[ascii ''a''], [ascii ''d'', ascii ''b'']]" by code_simp
  then show ?thesis using found_regular(1) [of ns example_tree] by simp
qed

theorem scan_to_receiver_witness:
  "\<exists>t' sent. send_files (env_md5 rep_env) rep_enc 250 example_scan (ascii ''/s'') example_tree example_tx = Some t'
    \<and> distinct sent \<and> set sent = {ns. regular_at example_tree ns \<and> sendable example_scan (ascii ''/s'') ns}
    \<and> removed t' = removed example_tx @ map (\<lambda>ns. path_join (ascii ''/s'') (join_slash ns)) sent
    \<and> mirror (env_out rep_env) (\<lambda>_. [7, 8, 9]) (set sent) (rx_fs (worker_state rep_env example_fs (wire t')))
    \<and> file_counts (worker_state rep_env example_fs (wire t')) = (length sent mod 2 ^ 64, 0)"
proof (rule scan_to_receiver [OF example_accepts _ example_tree_ok example_width rep_shape])
  have "\<not> starts_with backslash (join_slash [ascii ''a''])"
    "\<not> starts_with backslash (join_slash [ascii ''d'', ascii ''b''])"
    by code_simp+
  then show "\<forall>ns. regular_at example_tree ns \<and> sendable example_scan (ascii ''/s'') ns \<longrightarrow>
      source_holds (source_at example_scan (path_join (ascii ''/s'') (join_slash ns))) [7, 8, 9]
      \<and> length [7 :: byte, 8, 9] < 10 ^ 10 \<and> \<not> starts_with backslash (join_slash ns)"
    unfolding example_found
    by (auto simp: example_scan_def source_holds_def example_source_def example_reader_def reads_ok_def
        simp del: ascii_Cons)
  have "\<forall>ns \<in> {[ascii ''a''], [ascii ''d'', ascii ''b'']}. \<forall>ms \<in> {[ascii ''a''], [ascii ''d'', ascii ''b'']}.
      \<not> prefix (suffixed ns (ascii ''.partial'')) ms \<and> \<not> prefix (suffixed ns (ascii ''.failed'')) ms"
    by (simp add: suffixed_def ascii_def)
  then show "\<forall>ns ms. regular_at example_tree ns \<and> regular_at example_tree ms \<longrightarrow>
      \<not> prefix (suffixed ns (ascii ''.partial'')) ms \<and> \<not> prefix (suffixed ns (ascii ''.failed'')) ms"
    unfolding example_found by blast
  show "mirror (env_out rep_env) (\<lambda>_. [7, 8, 9]) {} example_fs"
    by (auto simp: mirror_def example_names example_fs_def prefix_Cons simp del: ascii_Cons)
  show "clean example_fs" by (simp add: clean_def example_fs_def)
qed (simp add: example_tx_def)

end
