(* ===== verification/Worker_Run.thy ===== *)
theory Worker_Run
  imports Worker_Facts
begin

text \<open>
  More about runs of the packet worker: the locks are never poisoned by it, a packet that has been
  dealt with stays dealt with until the transfer ends, and every START is accounted for.
\<close>

section \<open>Locks\<close>

definition unpoisoned :: "rx \<Rightarrow> bool" where
  "unpoisoned w \<longleftrightarrow> \<not> rx_state_poisoned w \<and> \<not> rx_stats_poisoned w"

lemma flags_simps [simp]:
  "rx_stats_poisoned (reset_rx b w) = rx_stats_poisoned w"
  "rx_stats_poisoned (count_failure w) = rx_stats_poisoned w"
  by (simp_all add: reset_rx_def count_failure_def Let_def split: prod.split)

text \<open>Both poison flags.\<close>

definition flags :: "rx \<Rightarrow> bool \<times> bool" where
  "flags w = (rx_state_poisoned w, rx_stats_poisoned w)"

lemma flags_upd [simp]:
  "flags (w\<lparr>rx_state := st\<rparr>) = flags w" "flags (w\<lparr>rx_stats := ss\<rparr>) = flags w"
  "flags (w\<lparr>rx_fs := f\<rparr>) = flags w" "flags (w\<lparr>rx_udp := q\<rparr>) = flags w"
  "flags (reset_rx b w) = flags w" "flags (count_failure w) = flags w"
  by (simp_all add: flags_def)

lemma abandon_flags [simp]: "flags (abandon_previous out w) = flags w"
  by (simp add: abandon_previous_def Let_def split: option.split)

lemma begin_flags [simp]: "flags (begin_transfer out path n hash ppb w) = flags w"
  by (simp add: begin_transfer_def Let_def split: option.split prod.split)

lemma start_flags [simp]: "flags (handle_start env p w) = flags w"
  by (simp add: handle_start_def new_file_def Let_def)

lemma advance_flags [simp]: "flags (advance_rx env b w) = flags w"
  by (simp add: advance_rx_def split: prod.split)

lemma chunk_flags [simp]: "flags (handle_data env p w) = flags w" "flags (handle_parity env p w) = flags w"
  by (simp_all add: handle_data_def handle_parity_def Let_def split: prod.split)

lemma finish_failed_flags [simp]: "flags (finish_failed out p w) = flags w"
  by (simp add: finish_failed_def Let_def)

lemma publish_flags [simp]: "flags (publish out p w) = flags w"
  by (simp add: publish_def Let_def split: prod.split bool.split)

lemma finalize_last_flags [simp]: "flags (finalize_last fec w) = flags w"
  by (simp add: finalize_last_def Let_def split: prod.split)

lemma finish_flags [simp]: "flags (finish_file env w) = flags w"
  by (simp add: finish_file_def Let_def split: option.split)

lemma handle_packet_flags [simp]: "flags (handle_packet env p w) = flags w"
  by (simp add: handle_packet_def handle_udp_def Let_def)

lemma acquire_flags [simp]: "flags (acquire_state env w) = flags w"
  by (simp add: acquire_state_def)

lemma unpoisoned_flags: "unpoisoned w \<longleftrightarrow> flags w = (False, False)"
  by (simp add: unpoisoned_def flags_def)

lemma worker_step_unpoisoned [simp]: "unpoisoned (worker_step env w raw) = unpoisoned w"
  by (simp add: unpoisoned_flags worker_step_def split: option.split)

lemma handle_packet_unpoisoned [simp]: "unpoisoned (handle_packet env p w) = unpoisoned w"
  by (simp add: unpoisoned_flags)

lemma worker_run_unpoisoned [simp]: "unpoisoned (worker_run env w raws) = unpoisoned w"
  unfolding worker_run_def by (induction raws arbitrary: w) simp_all

lemma worker_state_unpoisoned: "unpoisoned (worker_state env f raws)"
  by (simp add: worker_state_def) (simp add: unpoisoned_def initial_rx_def)

lemma step_unpoisoned:
  "unpoisoned w \<Longrightarrow> decode_packet raw = Some p \<Longrightarrow> worker_step env w raw = handle_packet env p w"
  by (simp add: worker_step_def acquire_state_def unpoisoned_def)

section \<open>Packets already dealt with\<close>

text \<open>What a transfer only ever moves on to: later batches, fuller buffers, failure.\<close>

definition ahead :: "receive_state \<Rightarrow> receive_state \<Rightarrow> bool" where
  "ahead st st' \<longleftrightarrow> current_batch st < current_batch st'
     \<or> current_batch st' = current_batch st
       \<and> dom (bt_get (data_buffer st)) \<subseteq> dom (bt_get (data_buffer st'))
       \<and> dom (bt_get (parity_buffer st)) \<subseteq> dom (bt_get (parity_buffer st'))"

definition later :: "receive_state \<Rightarrow> receive_state \<Rightarrow> bool" where
  "later st st' \<longleftrightarrow> path_hash st' = path_hash st \<and> (failed st \<longrightarrow> failed st') \<and> (failed st' \<or> ahead st st')"

lemma ahead_trans:
  assumes "ahead a b" and "ahead b c"
  shows "ahead a c"
proof (cases "current_batch a = current_batch b \<and> current_batch b = current_batch c")
  case True
  have "dom (bt_get (data_buffer a)) \<subseteq> dom (bt_get (data_buffer c))"
    by (rule order_trans [of _ "dom (bt_get (data_buffer b))"]) (use assms True in \<open>simp_all add: ahead_def\<close>)
  moreover have "dom (bt_get (parity_buffer a)) \<subseteq> dom (bt_get (parity_buffer c))"
    by (rule order_trans [of _ "dom (bt_get (parity_buffer b))"]) (use assms True in \<open>simp_all add: ahead_def\<close>)
  ultimately show ?thesis using True by (simp add: ahead_def)
next
  case False
  have "current_batch a \<le> current_batch b" "current_batch b \<le> current_batch c"
    using assms by (auto simp only: ahead_def)
  with False have "current_batch a < current_batch c" by linarith
  then show ?thesis by (simp only: ahead_def simp_thms)
qed

lemma later_refl [simp]: "later st st"
  by (simp add: later_def ahead_def)

lemma laterI: "path_hash b = path_hash a \<Longrightarrow> (failed a \<Longrightarrow> failed b) \<Longrightarrow> failed b \<or> ahead a b \<Longrightarrow> later a b"
  unfolding later_def by blast

lemma laterD: "later a b \<Longrightarrow> path_hash b = path_hash a" "later a b \<Longrightarrow> failed a \<Longrightarrow> failed b"
  "later a b \<Longrightarrow> failed b \<or> ahead a b"
  unfolding later_def by blast+

lemma later_trans [trans]:
  assumes "later a b" and "later b c"
  shows "later a c"
  using laterD(1) [OF assms(1)] laterD(1) [OF assms(2)]
    laterD(2,3) [OF assms(1)] laterD(2,3) [OF assms(2)] ahead_trans [of a b c]
  by (intro laterI) (simp, blast+)

lemma advance_later:
  assumes "advance_to_batch fec b st f = (st', f')"
  shows "later st st'"
proof (rule advance_rule [where I = "\<lambda>s _. later st s" and Q = "\<lambda>s _. later st s", OF _ _ _ _ assms])
  fix s f e s' f'
  assume s: "later st s" and fin: "finalize_current_batch fec s f = (Inl e, s', f')"
  have "later s (s'\<lparr>failed := True\<rparr>)"
    using finalize_current_batch_same(5) [OF fin] by (intro laterI) simp_all
  with s show "later st (s'\<lparr>failed := True\<rparr>)" by (rule later_trans)
next
  fix s f u s' f'
  assume s: "later st s" and fin: "finalize_current_batch fec s f = (Inr u, s', f')"
  have "later s (s'\<lparr>current_batch := current_batch s' + 1\<rparr>)"
    using finalize_current_batch_same(1,2,5) [OF fin] by (intro laterI) (simp_all add: ahead_def)
  with s show "later st (s'\<lparr>current_batch := current_batch s' + 1\<rparr>)" by (rule later_trans)
qed simp_all

lemma advance_rx_later: "later (rx_state w) (rx_state (advance_rx env b w))"
  by (auto simp: advance_rx_def advance_later split: prod.split)

lemma buffer_later:
  assumes "st_inv st"
  shows "later st (fst (buffer_data st ss p))" and "later st (buffer_parity st p i)"
  using assms by (auto simp: later_def ahead_def buffer_data_def buffer_parity_def st_inv_def bt_get_insert)

lemma handle_later:
  assumes "tr_open (env_out env) q (rx_state w) (rx_fs w)" and "count p < 10 ^ 10"
  shows "later (rx_state w) (rx_state (handle_data env p w))"
    and "later (rx_state w) (rx_state (handle_parity env p w))"
proof -
  have inv: "st_inv (rx_state (advance_rx env b w))" if "b \<le> 10 ^ 8" for b
    using advance_rx_open [OF assms(1) that] tr_open_st_inv by blast
  note bufs = buffer_later [OF inv [OF batch_bounds(1) [OF assms(2)]]] buffer_later [OF inv [OF batch_bounds(2) [OF assms(2)]]]
  obtain st ss where bd: "buffer_data (rx_state (advance_rx env (batch_for_data (count p)) w))
      (rx_stats (advance_rx env (batch_for_data (count p)) w)) p = (st, ss)" by force
  show "later (rx_state w) (rx_state (handle_data env p w))"
    using later_trans [OF advance_rx_later bufs(1)] advance_rx_later [of w env] bd
    by (auto simp: handle_data_def Let_def) (metis fst_conv)
  show "later (rx_state w) (rx_state (handle_parity env p w))"
    using later_trans [OF advance_rx_later bufs(4)] advance_rx_later [of w env]
    by (simp add: handle_parity_def Let_def)
qed

definition settled :: "'d rx_env \<Rightarrow> packet \<Rightarrow> receive_state \<Rightarrow> bool" where
  "settled env p st \<longleftrightarrow> failed st \<or> \<not> is_chunk_valid (env_md5 env) p st (pkg_type p)
     \<or> (if pkg_type p = PKG_TYPE_DATA then handled data_buffer (batch_for_data (count p)) (count p) st
        else handled parity_buffer (batch_for_parity (count p)) (count p mod BATCH_PARITY_CHUNKS) st)"

lemma settled_later: "settled env p st \<Longrightarrow> later st st' \<Longrightarrow> settled env p st'"
  unfolding settled_def handled_def later_def ahead_def is_chunk_valid_def
  by (elim conjE disjE; simp split: if_splits) auto

lemma settled_ignored:
  assumes "settled env pk (rx_state v)" and "pkg_type pk \<in> {PKG_TYPE_DATA, PKG_TYPE_PARITY}"
  shows "handle_packet env pk v = v"
proof -
  have "handle_data env pk v = v" if "pkg_type pk = PKG_TYPE_DATA"
    using assms(1) that handle_data_handled [of pk v env] by (auto simp: settled_def handle_data_def)
  moreover have "handle_parity env pk v = v" if "pkg_type pk = PKG_TYPE_PARITY"
    using assms(1) that handle_parity_handled [of pk v env]
    by (auto simp: settled_def handle_parity_def pkg_type_defs)
  ultimately show ?thesis using assms(2) by (auto simp: handle_packet_def pkg_type_defs Let_def)
qed

lemma handle_packet_settles:
  assumes "rx_inv env w" and "file_path (rx_state w) = Some p" and "count pk < 10 ^ 10"
    and "pkg_type pk \<in> {PKG_TYPE_DATA, PKG_TYPE_PARITY}"
  shows "settled env pk (rx_state (handle_packet env pk w))"
proof (cases "settled env pk (rx_state w)")
  case True
  with settled_ignored [OF True assms(4)] show ?thesis by simp
next
  case False
  note op = rx_inv_receiving [OF assms(1,2)]
  show ?thesis
    using handle_data_settles [OF op assms(3)] handle_parity_settles [OF op assms(3)] False assms(2,4)
    by (auto simp: settled_def handle_packet_def pkg_type_defs Let_def)
qed

text \<open>A packet that neither ends the transfer of a path nor starts another.\<close>

definition within_transfer :: "bytes \<Rightarrow> bytes \<Rightarrow> bool" where
  "within_transfer p raw \<longleftrightarrow>
     (case decode_packet raw of
        None \<Rightarrow> True
      | Some q \<Rightarrow> pkg_type q \<noteq> PKG_TYPE_END
          \<and> (pkg_type q = PKG_TYPE_START \<longrightarrow> from_utf8_lossy (pkt_data q) = p))"

lemma handle_packet_within:
  assumes "rx_inv env w" and "file_path (rx_state w) = Some p" and "count q < 10 ^ 10"
    and "pkg_type q \<noteq> PKG_TYPE_END" and "pkg_type q = PKG_TYPE_START \<Longrightarrow> from_utf8_lossy (pkt_data q) = p"
  shows "later (rx_state w) (rx_state (handle_packet env q w)) \<and> file_path (rx_state (handle_packet env q w)) = Some p"
proof -
  note op = rx_inv_receiving [OF assms(1,2)]
  have "file_path (rx_state (handle_data env q w)) = Some p" "file_path (rx_state (handle_parity env q w)) = Some p"
    using handle_data_open [OF op assms(3)] handle_parity_open [OF op assms(3)] tr_open_path by blast+
  then show ?thesis
    using handle_later [OF op assms(3)] assms(2,4,5)
    by (simp add: handle_packet_def handle_udp_def handle_start_def new_file_def Let_def)
qed

lemma worker_run_within:
  assumes "rx_inv env w" and "unpoisoned w" and "file_path (rx_state w) = Some p" and "list_all (within_transfer p) raws"
  shows "later (rx_state w) (rx_state (worker_run env w raws)) \<and> file_path (rx_state (worker_run env w raws)) = Some p"
  using assms
proof (induction raws arbitrary: w)
  case Nil
  then show ?case by (simp add: worker_run_def)
next
  case (Cons raw raws)
  let ?v = "worker_step env w raw"
  have "later (rx_state w) (rx_state ?v) \<and> file_path (rx_state ?v) = Some p"
  proof (cases "decode_packet raw")
    case None
    with Cons.prems(3) show ?thesis by (simp add: worker_step_def)
  next
    case (Some q)
    have "pkg_type q \<noteq> PKG_TYPE_END" "pkg_type q = PKG_TYPE_START \<Longrightarrow> from_utf8_lossy (pkt_data q) = p"
      using Cons.prems(4) Some by (simp_all add: within_transfer_def)
    from handle_packet_within [OF Cons.prems(1,3) decode_packet_Some(3) [OF Some] this]
    show ?thesis by (simp add: step_unpoisoned [OF Cons.prems(2) Some])
  qed
  moreover have "worker_run env w (raw # raws) = worker_run env ?v raws" by (simp add: worker_run_def)
  moreover have "rx_inv env ?v" by (rule conjunct1 [OF worker_step_inv [OF Cons.prems(1)]])
  ultimately show ?case
    using Cons.IH [of ?v] Cons.prems(2,4) later_trans by fastforce
qed

lemma duplicate_ignored:
  assumes "rx_inv env w" and "unpoisoned w" and "file_path (rx_state w) = Some p"
    and "decode_packet raw = Some pk" and "pkg_type pk \<in> {PKG_TYPE_DATA, PKG_TYPE_PARITY}"
    and "list_all (within_transfer p) mid"
  shows "worker_run env w ([raw] @ mid @ [raw]) = worker_run env w ([raw] @ mid)"
proof -
  let ?v = "worker_step env w raw"
  have step: "?v = handle_packet env pk w" by (rule step_unpoisoned [OF assms(2,4)])
  note n = decode_packet_Some(3) [OF assms(4)]
  have types: "pkg_type pk \<noteq> PKG_TYPE_END" "pkg_type pk \<noteq> PKG_TYPE_START"
    using assms(5) by (auto simp: pkg_type_defs)
  have "file_path (rx_state ?v) = Some p"
    using handle_packet_within [OF assms(1,3) n types(1)] types(2) step by simp
  with worker_run_within [OF conjunct1 [OF worker_step_inv [OF assms(1)]] _ this assms(6)] assms(2)
  have "later (rx_state ?v) (rx_state (worker_run env ?v mid))" by simp
  with handle_packet_settles [OF assms(1,3) n assms(5)] step
  have "settled env pk (rx_state (worker_run env ?v mid))" by (simp add: settled_later)
  from settled_ignored [OF this assms(5)]
  have "worker_step env (worker_run env ?v mid) raw = worker_run env ?v mid"
    using assms(2) by (simp add: step_unpoisoned [OF _ assms(4)])
  then show ?thesis by (simp add: worker_run_def)
qed

section \<open>Every START is accounted for\<close>

text \<open>The transfers that ended either way and the one in progress, as the \<open>u64\<close> counters count.\<close>

definition tally :: "rx \<Rightarrow> nat" where
  "tally w = (files_transferred (rx_stats w) + files_failed (rx_stats w)
     + (if file_path (rx_state w) = None then 0 else 1)) mod 2 ^ 64"

definition fresh_start :: "receive_state \<Rightarrow> bytes \<Rightarrow> bool" where
  "fresh_start st raw =
     (case decode_packet raw of
        None \<Rightarrow> False
      | Some q \<Rightarrow> pkg_type q = PKG_TYPE_START \<and> file_path st \<noteq> Some (from_utf8_lossy (pkt_data q)))"

text \<open>The START packets, in a sequence of datagrams, whose path is not the one in progress.\<close>

fun fresh_starts :: "'d rx_env \<Rightarrow> rx \<Rightarrow> bytes list \<Rightarrow> nat" where
  "fresh_starts env w [] = 0"
| "fresh_starts env w (raw # raws) =
     (if fresh_start (rx_state w) raw then 1 else 0) + fresh_starts env (worker_step env w raw) raws"

lemma add64_mod_left: "(add64 a 1 + b) mod 2 ^ 64 = (a + b + 1) mod 2 ^ 64"
  unfolding add64_def mod_add_left_eq by (simp only: ac_simps)

lemma tally_failed:
  "files_failed (rx_stats v) = add64 (files_failed (rx_stats w)) 1 \<Longrightarrow>
   files_transferred (rx_stats v) = files_transferred (rx_stats w) \<Longrightarrow>
   tally v = (files_transferred (rx_stats w) + files_failed (rx_stats w)
     + (if file_path (rx_state v) = None then 1 else 2)) mod 2 ^ 64"
  using add64_mod_left [of "files_failed (rx_stats w)"
      "files_transferred (rx_stats w) + (if file_path (rx_state v) = None then 0 else 1)"]
  by (simp add: tally_def ac_simps split: if_split_asm)

lemma tally_transferred:
  "files_transferred (rx_stats v) = add64 (files_transferred (rx_stats w)) 1 \<Longrightarrow>
   files_failed (rx_stats v) = files_failed (rx_stats w) \<Longrightarrow> file_path (rx_state v) = None \<Longrightarrow>
   tally v = (files_transferred (rx_stats w) + files_failed (rx_stats w) + 1) mod 2 ^ 64"
  using add64_mod_left [of "files_transferred (rx_stats w)" "files_failed (rx_stats w)"]
  by (simp add: tally_def ac_simps)

lemma tally_same:
  "files_failed (rx_stats v) = files_failed (rx_stats w) \<Longrightarrow>
   files_transferred (rx_stats v) = files_transferred (rx_stats w) \<Longrightarrow>
   file_path (rx_state v) = file_path (rx_state w) \<Longrightarrow> tally v = tally w"
  by (simp add: tally_def)

lemma tally_abandon:
  assumes "rx_inv env w"
  shows "tally (abandon_previous (env_out env) w) = tally w"
proof (cases "file_path (rx_state w)")
  case None
  then show ?thesis by (simp add: abandon_previous_def)
next
  case (Some p)
  then have "rx_stats (abandon_previous (env_out env) w)
      = (rx_stats w)\<lparr>files_failed := add64 (files_failed (rx_stats w)) 1\<rparr>"
    by (simp add: abandon_previous_def Let_def reset_transfer_def)
  with tally_failed [of "abandon_previous (env_out env) w" w] Some abandon_previous_idle(1) [OF assms]
  show ?thesis by (simp add: tally_def)
qed

lemma tally_refused:
  "file_path (rx_state w) = None \<Longrightarrow> tally (reset_rx False (count_failure w)) = (tally w + 1) mod 2 ^ 64"
  using tally_failed [of "reset_rx False (count_failure w)" w]
  by (simp add: reset_transfer_def count_failure_def tally_def mod_Suc_eq)

lemma tally_begin:
  assumes "file_path (rx_state w) = None"
  shows "tally (begin_transfer out path n hash ppb w) = (tally w + 1) mod 2 ^ 64"
proof -
  have "tally (count_failure w\<lparr>rx_fs := g\<rparr>) = (tally w + 1) mod 2 ^ 64" for g
    using tally_failed [of "count_failure w\<lparr>rx_fs := g\<rparr>" w] assms
    by (simp add: count_failure_def tally_def mod_Suc_eq)
  with assms show ?thesis
    by (simp add: begin_transfer_def Let_def tally_def mod_Suc_eq split: option.split prod.split)
qed

lemma tally_start:
  assumes "rx_inv env w"
  shows "tally (handle_start env pk w) =
    (if file_path (rx_state w) = Some (from_utf8_lossy (pkt_data pk)) then tally w else (tally w + 1) mod 2 ^ 64)"
  using tally_refused [of "abandon_previous (env_out env) w"] tally_begin [of "abandon_previous (env_out env) w"]
    abandon_previous_idle(1) [OF assms] tally_abandon [OF assms]
  by (simp add: handle_start_def new_file_def Let_def)

lemma handle_data_counts:
  "files_failed (rx_stats (handle_data env pk w)) = files_failed (rx_stats w)"
  "files_transferred (rx_stats (handle_data env pk w)) = files_transferred (rx_stats w)"
  "rx_stats (handle_parity env pk w) = rx_stats w"
  by (simp_all add: handle_data_def handle_parity_def buffer_data_def advance_rx_def Let_def split: prod.split)

lemma tally_finish:
  assumes "rx_inv env w"
  shows "tally (finish_file env w) = tally w"
proof (cases "file_path (rx_state w)")
  case None
  then show ?thesis by (simp add: finish_file_def)
next
  case (Some p)
  have "plain p" using rx_inv_receiving [OF assms Some] tr_open_path by blast
  then have "rx_state (finish_file env w) = new_receive_state"
    using Some finish_failed_inv(1) publish_inv(1) by (simp add: finish_file_def Let_def)
  moreover have "tally w = (files_transferred (rx_stats w) + files_failed (rx_stats w) + 1) mod 2 ^ 64"
    using Some by (simp add: tally_def)
  ultimately show ?thesis
    using finish_file_ended [OF assms Some] tally_failed [of "finish_file env w" w]
      tally_transferred [of "finish_file env w" w]
    by (auto simp: ended_failed_def ended_published_def)
qed

lemma tally_step:
  assumes "rx_inv env w" and "unpoisoned w"
  shows "tally (worker_step env w raw) = (tally w + (if fresh_start (rx_state w) raw then 1 else 0)) mod 2 ^ 64"
proof (cases "decode_packet raw")
  case None
  then show ?thesis by (simp add: worker_step_def fresh_start_def tally_def)
next
  case (Some q)
  have chunk: "tally (handle_data env q w) = tally w" "tally (handle_parity env q w) = tally w"
    if "file_path (rx_state w) = Some p" for p
    using handle_data_open [OF rx_inv_receiving [OF assms(1) that] decode_packet_Some(3) [OF Some]]
      handle_parity_open [OF rx_inv_receiving [OF assms(1) that] decode_packet_Some(3) [OF Some]] that
    by (auto intro!: tally_same simp: handle_data_counts dest: tr_open_path)
  have "tally (handle_udp q w) = tally w" by (rule tally_same) (simp_all add: handle_udp_def)
  moreover have "tally w mod 2 ^ 64 = tally w" by (simp add: tally_def)
  ultimately show ?thesis
    using chunk tally_start [OF assms(1)] tally_finish [OF assms(1)] Some
    by (auto simp: step_unpoisoned [OF assms(2) Some] handle_packet_def fresh_start_def pkg_type_defs Let_def)
qed

lemma tally_run:
  "rx_inv env w \<Longrightarrow> unpoisoned w \<Longrightarrow> tally (worker_run env w raws) = (tally w + fresh_starts env w raws) mod 2 ^ 64"
proof (induction raws arbitrary: w)
  case Nil
  then show ?case by (simp add: worker_run_def tally_def)
next
  case (Cons raw raws)
  have "worker_run env w (raw # raws) = worker_run env (worker_step env w raw) raws" by (simp add: worker_run_def)
  with Cons.IH [OF conjunct1 [OF worker_step_inv [OF Cons.prems(1)]], of raw] Cons.prems tally_step [OF Cons.prems, of raw]
  show ?case by (simp add: mod_simps ac_simps)
qed

lemma tally_initial: "tally (initial_rx f) = 0"
  by (simp add: tally_def initial_rx_def new_stats_def)

end
