(* ===== verification/Display_Props.thy ===== *)
theory Display_Props
  imports Display Examples Worker_Run
begin

text \<open>The property of the display: what reaches the serial line, and how often.\<close>

text \<open>
  Every update that is not forced comes at least the minimum interval after the update before it,
  forced or not; the first one is measured from \<open>t\<close>.
\<close>

fun paced :: "int \<Rightarrow> (int \<times> bool \<times> bytes) list \<Rightarrow> bool" where
  "paced t [] = True"
| "paced t ((now, force, bs) # frames) = ((force \<or> t + MIN_INTERVAL \<le> now) \<and> paced now frames)"

text \<open>What is true of the updates written from a display on.\<close>

definition frames_ok :: "display \<Rightarrow> display \<Rightarrow> bool" where
  "frames_ok d d' \<longleftrightarrow> (\<exists>frames. port d' = port d @ frames
     \<and> list_all (\<lambda>(now, force, bs). frame_part bs) frames
     \<and> (list_all (\<lambda>c. c = None) (cuts d) \<longrightarrow> list_all (\<lambda>(now, force, bs). frame_ok bs) frames)
     \<and> paced (last_update d) frames)"

lemma frames_ok_refl: "frames_ok d d"
  by (simp add: frames_ok_def)

lemma frames_ok_update:
  assumes "\<not> (\<not> force \<and> max 0 (now - last_update d) < MIN_INTERVAL)"
    and "frames_ok (display_update now ss st force d) d'"
  shows "frames_ok d d'"
proof -
  obtain l1 l2 where l: "display_lines ss st = (l1, l2)" by force
  obtain got cs where w: "serial_writes (cuts d) [[13], l1, [10], l2] = (got, cs)" by force
  let ?d = "d\<lparr>last_update := now, port := port d @ [(now, force, got)], cuts := cs\<rparr>"
  have "display_update now ss st force d = ?d"
    using assms(1) w by (simp only: display_update_def l Let_def prod.case if_False)
  with assms(2) obtain frames where f: "port d' = port d @ (now, force, got) # frames"
    "list_all (\<lambda>(now, force, bs). frame_part bs) frames"
    "list_all (\<lambda>c. c = None) cs \<longrightarrow> list_all (\<lambda>(now, force, bs). frame_ok bs) frames" "paced now frames"
    by (auto simp: frames_ok_def)
  have "force \<or> last_update d + MIN_INTERVAL \<le> now"
    using assms(1) by (auto simp: MIN_INTERVAL_def max_def split: if_splits)
  with f frame_writes [OF l w] show ?thesis
    unfolding frames_ok_def by (intro exI [of _ "(now, force, got) # frames"]) simp
qed

lemma display_packet_alive:
  assumes "unpoisoned w"
  obtains "display_packet now p w (Some d) = (w, Some d, True)"
  | "display_packet now p w (Some d) = (w, Some (display_update now (rx_stats w) (rx_state w) (forces p) d), True)"
    "\<not> (\<not> forces p \<and> max 0 (now - last_update d) < MIN_INTERVAL)"
proof (cases "updates p \<and> \<not> (\<not> forces p \<and> max 0 (now - last_update d) < MIN_INTERVAL)")
  case True
  with assms that(2) show ?thesis by (simp add: display_packet_def unpoisoned_def)
next
  case False
  with assms that(1) show ?thesis
    by (cases "updates p") (simp_all add: display_packet_def unpoisoned_def display_update_def)
qed

lemma display_run_Cons:
  "display_run env w d ((now, raw) # xs) =
     (let w' = worker_step env w raw
      in case decode_packet raw of
           None \<Rightarrow> display_run env w' d xs
         | Some p \<Rightarrow> foldl (display_step env) (display_packet now p w' d) xs)"
  by (simp add: display_run_def display_step_def Let_def split: option.split)

lemma display_run_alive:
  assumes "unpoisoned w"
  shows "\<exists>d'. display_run env w (Some d) xs = (worker_run env w (map snd xs), Some d', True) \<and> frames_ok d d'"
  using assms
proof (induction xs arbitrary: w d)
  case Nil
  show ?case by (simp add: display_run_def worker_run_def frames_ok_refl)
next
  case (Cons x xs)
  obtain now raw where x: "x = (now, raw)" by fastforce
  let ?w = "worker_step env w raw"
  have ok: "unpoisoned ?w" using Cons.prems by simp
  have run: "worker_run env w (map snd (x # xs)) = worker_run env ?w (map snd xs)" by (simp add: x worker_run_def)
  show ?case
  proof (cases "decode_packet raw")
    case None
    with Cons.IH [OF ok, of d] run show ?thesis by (simp add: x display_run_Cons)
  next
    case (Some p)
    have step: "display_run env w (Some d) (x # xs) = foldl (display_step env) (display_packet now p ?w (Some d)) xs"
      using Some by (simp add: x display_run_Cons)
    show ?thesis
    proof (cases rule: display_packet_alive [OF ok, of now p d])
      case 1
      from Cons.IH [OF ok, of d] show ?thesis unfolding step 1 run by (simp add: display_run_def)
    next
      case 2
      from Cons.IH [OF ok, of "display_update now (rx_stats ?w) (rx_state ?w) (forces p) d"] frames_ok_update [OF 2(2)]
      show ?thesis unfolding step 2(1) run by (auto simp: display_run_def)
    qed
  qed
qed

lemma display_run_none: "display_run env w None xs = (worker_run env w (map snd xs), None, True)"
  by (induction xs arbitrary: w)
    (auto simp: display_run_def display_step_def display_packet_def worker_run_def Let_def split: option.split)

lemma display_run_worker:
  assumes "unpoisoned w"
  shows "fst (display_run env w d xs) = worker_run env w (map snd xs)"
proof (cases d)
  case (Some d')
  with display_run_alive [OF assms, of env d' xs] show ?thesis by auto
qed (simp add: display_run_none)

lemma display_run_dead: "foldl (display_step env) (w, d, False) xs = (w, d, False)"
  by (induction xs) (auto simp: display_step_def)

text \<open>C35. The display. While no lock is poisoned, as in every run from the start, it never influences the
  transfer: the worker is in the state it would be in without one. Whatever datagrams arrive, each
  update puts on the serial line at most a carriage return, sixteen printable characters, a line feed and
  sixteen printable characters, in this order, each cut off where the port stops taking bytes; and
  exactly these, a complete frame, if the port takes them all. So no count, size or percentage, however
  large, can shift the rows. Every update but the forced ones of START and END packets comes at
  least 250 ms after the one before it. With a poisoned lock, the first packet due
  for an update ends the worker, and nothing is written.\<close>

theorem display_frames:
  "(unpoisoned w \<longrightarrow>
      (\<exists>d' frames. display_run env w (Some d) xs = (worker_run env w (map snd xs), Some d', True)
         \<and> port d' = port d @ frames \<and> list_all (\<lambda>(now, force, bs). frame_part bs) frames
         \<and> (list_all (\<lambda>c. c = None) (cuts d) \<longrightarrow> list_all (\<lambda>(now, force, bs). frame_ok bs) frames)
         \<and> paced (last_update d) frames))
   \<and> (\<not> unpoisoned w \<and> decode_packet raw = Some p \<and> updates p \<longrightarrow>
        display_run env w (Some d) ((now, raw) # xs) = ((worker_step env w raw)\<lparr>rx_stats_poisoned := True\<rparr>, Some d, False))"
proof (intro conjI impI)
  assume "unpoisoned w"
  from display_run_alive [OF this, of env d xs]
  show "\<exists>d' frames. display_run env w (Some d) xs = (worker_run env w (map snd xs), Some d', True)
         \<and> port d' = port d @ frames \<and> list_all (\<lambda>(now, force, bs). frame_part bs) frames
         \<and> (list_all (\<lambda>c. c = None) (cuts d) \<longrightarrow> list_all (\<lambda>(now, force, bs). frame_ok bs) frames)
         \<and> paced (last_update d) frames"
    by (auto simp: frames_ok_def)
next
  assume "\<not> unpoisoned w \<and> decode_packet raw = Some p \<and> updates p"
  then have "\<not> unpoisoned (worker_step env w raw)" "decode_packet raw = Some p" "updates p" by simp_all
  then show "display_run env w (Some d) ((now, raw) # xs) = ((worker_step env w raw)\<lparr>rx_stats_poisoned := True\<rparr>, Some d, False)"
    by (auto simp: display_run_Cons display_packet_def unpoisoned_def display_run_dead Let_def)
qed

text \<open>
  A datagram and one that cannot be decoded, with a port that gives up after three bytes of a line; and
  the datagram with the state lock poisoned, which ends the worker.
\<close>

theorem display_frames_witness:
  "(\<exists>d' frames. display_run rep_env example_open (Some \<lparr>last_update = 0, port = [], cuts = [None, Some 3]\<rparr>)
      [(MIN_INTERVAL, encode_record example_data), (0, [])]
      = (worker_run rep_env example_open [encode_record example_data, []], Some d', True)
    \<and> port d' = frames \<and> list_all (\<lambda>(now, force, bs). frame_part bs) frames \<and> paced 0 frames)
   \<and> \<not> snd (snd (display_run rep_env (example_open\<lparr>rx_state_poisoned := True\<rparr>)
        (Some \<lparr>last_update = 0, port = [], cuts = []\<rparr>) [(0, encode_record example_data)]))"
proof -
  have "unpoisoned example_open" by (simp add: example_open_def worker_state_unpoisoned)
  moreover have "\<not> unpoisoned (example_open\<lparr>rx_state_poisoned := True\<rparr>)" by (simp add: unpoisoned_def)
  moreover have "updates example_data" by (simp add: updates_def example_data_def)
  ultimately show ?thesis
    using display_frames [of example_open rep_env "\<lparr>last_update = 0, port = [], cuts = [None, Some 3]\<rparr>"
        "[(MIN_INTERVAL, encode_record example_data), (0, [])]"]
      display_frames [of "example_open\<lparr>rx_state_poisoned := True\<rparr>" rep_env "\<lparr>last_update = 0, port = [], cuts = []\<rparr>" "[]"
        "encode_record example_data" example_data 0] example_data_decode
    by simp
qed

end
