(* ===== verification/Programs.thy ===== *)
theory Programs
  imports Start Directory_Props Display_Props
begin

text \<open>
  The two programs side by side, from their arguments to the directory the receiver ends up with.
\<close>

text \<open>The files a round sends.\<close>

definition sent_in :: "bytes \<Rightarrow> scan_env \<times> source_node \<Rightarrow> bytes list list" where
  "sent_in dir = (\<lambda>(env, tree). filter (sendable env dir) (found tree))"

definition sent_over :: "bytes \<Rightarrow> (scan_env \<times> source_node) list \<Rightarrow> bytes list list" where
  "sent_over dir rounds = concat (map (sent_in dir) rounds)"

text \<open>Rounds over well-formed trees, in which every file to be sent can be read and removed.\<close>

definition rounds_ok :: "bytes \<Rightarrow> (bytes list \<Rightarrow> bytes) \<Rightarrow> (scan_env \<times> source_node) list \<Rightarrow> bool" where
  "rounds_ok dir content rounds \<longleftrightarrow>
     list_all (\<lambda>(env, tree). tree_ok tree
       \<and> (\<forall>ns. regular_at tree ns \<and> sendable env dir ns \<longrightarrow>
            source_holds (source_at env (path_join dir (join_slash ns))) (content ns))) rounds"

lemma sent_over_regular:
  "ns \<in> set (sent_over dir rounds) \<longleftrightarrow> (\<exists>(env, tree) \<in> set rounds. regular_at tree ns \<and> sendable env dir ns)"
  by (auto simp: sent_over_def sent_in_def found_regular(1))

lemma sender_rounds_wire:
  assumes "accepts (outcomes t)" and "rounds_ok (cfg_source_dir cfg) content rounds"
  defines "sent \<equiv> sent_over (cfg_source_dir cfg) rounds"
  shows "\<exists>t'. sender_rounds md5 enc cfg rounds t = Some t'
    \<and> wire t' = wire t @ concat (map (\<lambda>ns. file_wire md5 enc (join_slash ns) (content ns)) sent)
    \<and> removed t' = removed t @ map (\<lambda>ns. path_join (cfg_source_dir cfg) (join_slash ns)) sent"
  using assms(1,2) unfolding sent_def
proof (induction rounds arbitrary: t)
  case (Cons x rounds)
  obtain env tree where x: "x = (env, tree)" by fastforce
  have tree: "tree_ok tree" and holds: "\<forall>ns. regular_at tree ns \<and> sendable env (cfg_source_dir cfg) ns \<longrightarrow>
      source_holds (source_at env (path_join (cfg_source_dir cfg) (join_slash ns))) (content ns)"
    and rest: "rounds_ok (cfg_source_dir cfg) content rounds"
    using Cons.prems(2) by (simp_all add: rounds_ok_def x)
  obtain u where u: "send_files md5 enc (cfg_max_backoff cfg) env (cfg_source_dir cfg) tree t = Some u"
    "wire u = wire t @ concat (map (\<lambda>ns. file_wire md5 enc (join_slash ns) (content ns)) (sent_in (cfg_source_dir cfg) x))"
    "removed u = removed t @ map (\<lambda>ns. path_join (cfg_source_dir cfg) (join_slash ns)) (sent_in (cfg_source_dir cfg) x)"
    "outcomes u = outcomes t"
    using send_files_round(1) [OF Cons.prems(1) tree holds, of md5 enc "cfg_max_backoff cfg"]
    by (auto simp: sent_in_def x)
  from Cons.IH [OF _ rest, of u] Cons.prems(1) u show ?case by (auto simp: x sent_over_def)
qed (simp add: sent_over_def)

lemma receiver_start_mirror:
  assumes "receiver_start md5 fec args os f = Inr (env, w, display, tuned)"
    and "clean f" and "mirror (r_directory args) content {} f"
  shows "mirrors env content [] w" and "env_out env = r_directory args" and "env_md5 env = md5" and "unpoisoned w"
proof -
  let ?ds = "proper_prefixes (resolve (r_directory args))"
  have ds: "set ?ds = {d. d \<noteq> [] \<and> prefix d (resolve (r_directory args))}"
    using proper_prefixes_iff [of _ "resolve (r_directory args)"] by auto
  have "nodes f d = None \<or> nodes f d = Some Dir" if "d \<in> set ?ds" for d
    using assms(3) that by (auto simp: ds mirror_def)
  then obtain g where g: "make_dirs ?ds f = (True, g)" "clean g"
    "nodes g = (\<lambda>q. if q \<in> set ?ds then Some Dir else nodes f q)"
    using make_dirs_clean [OF assms(2)] by blast
  then have "create_dir_all (resolve (r_directory args)) f = (True, g)"
    using assms(2) by (simp add: create_dir_all_def)
  with assms(1) have w: "w = initial_rx g" "env_out env = r_directory args" "env_md5 env = md5"
    by (auto simp: receiver_start_def Let_def split: if_splits)
  have "mirror (r_directory args) content {} g"
    using assms(3) unfolding mirror_def g(3) ds by (auto split: option.splits node.splits)
  then show "mirrors env content [] w" "env_out env = r_directory args" "env_md5 env = md5" "unpoisoned w"
    using g(2) w worker_state_unpoisoned [of env g "[]"] by (simp_all add: mirrors_def initial_rx_def file_counts_def new_stats_def worker_state_def worker_run_def)
qed

text \<open>C1. The two programs. Let sender and receiver both come up, the receiver over an empty output
  directory, and let the sender go through any number of rounds, over a kernel that in the end takes
  every datagram. Then, with or without a display, the receiver's directory is a mirror of all files
  that were stable in one of the rounds: exactly these, under their names and with their bytes,
  and nothing besides but the directories above them. Each was sent once and its source removed; the
  receiver counts each as received and none as failed.
  The names sent may not begin with a backslash nor get in each other's way (as directories, or by
  the suffixes \<open>.partial\<close> and \<open>.failed\<close>), and no name is sent in two rounds.\<close>

theorem programs_mirror:
  assumes "sender_start sargs sos = Inr cfg"
    and "receiver_start md5 fec rargs ros f = Inr (env, w, display, tuned)"
    and "accepts (outcomes t)" and "wire t = []" and "md5_width md5" and "fec_shape enc"
    and "rounds_ok (s_directory sargs) content rounds"
    and "distinct (sent_over (s_directory sargs) rounds)"
    and "\<forall>ns \<in> set (sent_over (s_directory sargs) rounds).
      length (content ns) < 10 ^ 10 \<and> \<not> starts_with backslash (join_slash ns)
      \<and> (\<forall>ms \<in> set (sent_over (s_directory sargs) rounds). ns \<noteq> ms \<longrightarrow> apart ns ms)"
    and "clean f" and "mirror (r_directory rargs) content {} f"
  shows "\<exists>t'. sender_rounds md5 enc cfg rounds t = Some t'
    \<and> removed t' = removed t @ map (\<lambda>ns. path_join (s_directory sargs) (join_slash ns)) (sent_over (s_directory sargs) rounds)
    \<and> (\<forall>xs. map snd xs = wire t' \<longrightarrow>
        (let v = fst (display_run env w display xs) in
         mirror (r_directory rargs) content (set (sent_over (s_directory sargs) rounds)) (rx_fs v)
         \<and> file_counts v = (length (sent_over (s_directory sargs) rounds) mod 2 ^ 64, 0)))"
proof -
  let ?sent = "sent_over (s_directory sargs) rounds"
  have cfg: "cfg_source_dir cfg = s_directory sargs"
    using assms(1) by (auto simp: sender_start_def Let_def split: if_splits option.splits)
  obtain t' where t': "sender_rounds md5 enc cfg rounds t = Some t'"
    "wire t' = concat (map (\<lambda>ns. file_wire md5 enc (join_slash ns) (content ns)) ?sent)"
    "removed t' = removed t @ map (\<lambda>ns. path_join (s_directory sargs) (join_slash ns)) ?sent"
    using sender_rounds_wire [OF assms(3), of cfg content rounds md5 enc] assms(4,7) by (auto simp: cfg)
  note start = receiver_start_mirror [OF assms(2,10,11)]
  have ns: "names_ok ns \<and> path_ok (join_slash ns) \<and> length (content ns) < 10 ^ 10" if sent: "ns \<in> set ?sent" for ns
  proof -
    obtain env tree where reg: "(env, tree) \<in> set rounds" "regular_at tree ns" "sendable env (s_directory sargs) ns"
      using sent by (auto simp: sent_over_regular)
    then have "tree_ok tree" using assms(7) by (auto simp: rounds_ok_def list_all_iff)
    then have "names_ok ns" using reg(2) by (rule regular_at_names)
    with reg(3) sent assms(9) show ?thesis by (auto simp: sendable_def intro!: names_path_ok)
  qed
  have "mirrors env content ([] @ ?sent) (foldl (worker_step env) w (wire t'))"
    unfolding t'(2) start(3) [symmetric]
    using ns assms(5,6,8,9) start(3) by (intro mirrors_files start(1)) auto
  then show ?thesis
    using t'(1,3) start(2) by (auto simp: mirrors_def display_run_worker [OF start(4)] worker_run_def Let_def)
qed

text \<open>Two rounds: in the first \<open>a\<close> still grows and only \<open>d/b\<close> is sent, in the second \<open>a\<close> is.\<close>

definition calm_scan :: scan_env where
  "calm_scan = \<lparr>first_len = \<lambda>_. Some 3, second_len = \<lambda>_. Some 3, source_at = \<lambda>_. example_source\<rparr>"

definition example_rounds :: "(scan_env \<times> source_node) list" where
  "example_rounds = [(example_scan, example_tree), (calm_scan, Folder True [Some (ascii ''a'', RegularFile)])]"

definition example_sender_os :: "nat sender_os" where
  "example_sender_os = \<lparr>so_create_dir = True, so_bind = True, so_tune = \<lparr>set_rc = 0, get_rc = 0, got = 1\<rparr>,
     so_broadcast = True, so_addrs = \<lambda>_. Some [1, 2], so_clone = False\<rparr>"

definition example_receiver_os :: receiver_os where
  "example_receiver_os = \<lparr>ro_bind = True, ro_tune = \<lparr>set_rc = -1, get_rc = 0, got = 1\<rparr>, ro_clone = True,
     ro_serial = \<lambda>_. (True, 0, [None, Some 3]), ro_now = 0\<rparr>"

lemma example_sent: "sent_over (ascii ''/s'') example_rounds = [[ascii ''d'', ascii ''b''], [ascii ''a'']]"
  by code_simp

lemma example_rounds_ok: "rounds_ok (ascii ''/s'') (\<lambda>_. [7, 8, 9]) example_rounds"
proof -
  have "entry_name (ascii ''a'')" by code_simp
  then have "tree_ok (Folder True [Some (ascii ''a'', RegularFile)])"
    by (auto simp: tree_ok_folder intro: tree_ok.leaf simp del: ascii_Cons)
  then show ?thesis
    using example_tree_ok by (simp add: rounds_ok_def example_rounds_def calm_scan_def example_scan_def
        source_holds_def example_source_def example_reader_def reads_ok_def del: ascii_Cons)
qed

theorem programs_mirror_witness:
  "\<exists>cfg w display tuned t'.
      sender_start (sender_defaults (ascii ''/s'')) example_sender_os = Inr cfg
    \<and> receiver_start (env_md5 rep_env) rep_dec ((receiver_defaults (ascii ''o''))\<lparr>arduino := Some []\<rparr>) example_receiver_os
        example_fs = Inr (rep_env, w, display, tuned)
    \<and> sender_rounds (env_md5 rep_env) rep_enc cfg example_rounds example_tx = Some t'
    \<and> mirror (ascii ''o'') (\<lambda>_. [7, 8, 9]) {[ascii ''d'', ascii ''b''], [ascii ''a'']}
        (rx_fs (fst (display_run rep_env w display (map (\<lambda>raw. (0, raw)) (wire t')))))"
proof -
  let ?sargs = "sender_defaults (ascii ''/s'')" and ?rargs = "(receiver_defaults (ascii ''o''))\<lparr>arduino := Some []\<rparr>"
  obtain cfg where cfg: "sender_start ?sargs example_sender_os = Inr cfg"
    by (simp add: sender_start_def example_sender_os_def resolve_target_def sender_defaults_def Let_def del: ascii_Cons)
  have "create_dir_all (resolve (ascii ''o'')) example_fs = (True, example_fs)"
    by (simp add: create_dir_all_def example_names proper_prefixes_def next_fault_def example_fs_def del: ascii_Cons)
  then obtain w display tuned where start: "receiver_start (env_md5 rep_env) rep_dec ?rargs example_receiver_os example_fs
      = Inr (rep_env, w, display, tuned)"
    by (simp add: receiver_start_def receiver_defaults_def example_receiver_os_def rep_env_def Let_def del: ascii_Cons)
  have apart: "list_all (\<lambda>ns. \<not> starts_with backslash (join_slash ns)
      \<and> list_all (\<lambda>ms. ns = ms \<or> apart ns ms) (sent_over (ascii ''/s'') example_rounds))
      (sent_over (ascii ''/s'') example_rounds)"
    unfolding example_sent by code_simp
  have mirror: "mirror (ascii ''o'') (\<lambda>_. [7, 8, 9]) {} example_fs"
    by (auto simp: mirror_def example_names example_fs_def prefix_Cons simp del: ascii_Cons)
  have dirs: "s_directory ?sargs = ascii ''/s''" "r_directory ?rargs = ascii ''o''"
    by (simp_all add: sender_defaults_def receiver_defaults_def)
  have "[ascii ''d'', ascii ''b''] \<noteq> [ascii ''a'']" by simp
  then have "distinct (sent_over (ascii ''/s'') example_rounds)" by (simp add: example_sent del: ascii_Cons)
  then obtain t' where t': "sender_rounds (env_md5 rep_env) rep_enc cfg example_rounds example_tx = Some t'"
    "\<forall>xs. map snd xs = wire t' \<longrightarrow>
        (let v = fst (display_run rep_env w display xs) in
         mirror (ascii ''o'') (\<lambda>_. [7, 8, 9]) (set (sent_over (ascii ''/s'') example_rounds)) (rx_fs v)
         \<and> file_counts v = (length (sent_over (ascii ''/s'') example_rounds) mod 2 ^ 64, 0))"
    using programs_mirror [OF cfg start example_accepts _ example_width rep_shape, unfolded dirs,
        OF _ example_rounds_ok _ _ _ mirror] apart
    by (auto simp: example_tx_def clean_def example_fs_def list_all_iff)
  have "map snd (map (\<lambda>raw. (0 :: int, raw)) (wire t')) = wire t'" by (simp add: comp_def)
  with t'(2) have "mirror (ascii ''o'') (\<lambda>_. [7, 8, 9]) (set (sent_over (ascii ''/s'') example_rounds))
      (rx_fs (fst (display_run rep_env w display (map (\<lambda>raw. (0, raw)) (wire t')))))"
    unfolding Let_def by blast
  with cfg start t'(1) show ?thesis by (auto simp: example_sent simp del: ascii_Cons)
qed

end
