(* ===== verification/Reject_Props.thy ===== *)
theory Reject_Props
  imports Directory Examples
begin

text \<open>
  What becomes of files the receiver does not accept, and of files whose names clash with the
  names it uses for itself.
\<close>

section \<open>Files with refused names\<close>

lemma idle_step:
  assumes "rx_state w = new_receive_state" and "\<not> rx_state_poisoned w" and "decode_packet raw = Some p"
    and "pkg_type p \<in> {PKG_TYPE_DATA, PKG_TYPE_PARITY, PKG_TYPE_END}"
  shows "worker_step env w raw = w"
  using assms by (auto simp: worker_step_def acquire_state_def handle_packet_def new_receive_state_def pkg_type_defs)

lemma idle_run:
  assumes "rx_state w = new_receive_state" and "\<not> rx_state_poisoned w"
    and "\<forall>raw \<in> set raws. \<exists>p. decode_packet raw = Some p \<and> pkg_type p \<in> {PKG_TYPE_DATA, PKG_TYPE_PARITY, PKG_TYPE_END}"
  shows "foldl (worker_step env) w raws = w"
  using assms(3) by (induction raws) (auto simp: idle_step [OF assms(1,2)])

lemma refused_step:
  assumes "rx_state w = new_receive_state" and "\<not> rx_state_poisoned w" and "md5_width (env_md5 env)"
    and "n < 10 ^ 10" and "valid_utf8 rel" and "\<not> is_safe_rel_path rel"
  shows "worker_step env w (start_packet (env_md5 env) rel n) = count_failure w"
  using assms decode_start_packet [OF assms(3,4)]
  by (simp add: worker_step_packet handle_packet_def handle_start_def new_file_def abandon_previous_def
      reset_rx_def reset_transfer_def count_failure_def Let_def new_receive_state_def)

text \<open>C37. A file that cannot arrive. If the sender finds a file whose relative path the receiver's check
  refuses (on Unix a name starting with a backslash is one), then it sends the whole file, succeeds and
  removes the source, while the receiver keeps nothing at all: no file of its output changes, and
  the one file is counted as three failures, one per copy of START.\<close>

theorem refused_file_lost:
  assumes "accepts (outcomes t)" and "wire t = []"
    and "src_len src = Some (length F)" and "src_open src = Some r" and "rd_rest r = F"
    and "reads_ok r" and "src_remove src"
    and "md5_width (env_md5 env)" and "fec_shape enc" and "length F < 10 ^ 10"
    and "valid_utf8 rel" and "\<not> is_safe_rel_path rel"
  shows "\<exists>t'. send_file_chunks (env_md5 env) enc max_backoff src full_path rel t = Some (True, t')
    \<and> removed t' = removed t @ [full_path]
    \<and> rx_fs (worker_state env f (wire t')) = f
    \<and> file_counts (worker_state env f (wire t')) = (0, 3)"
proof -
  let ?start = "start_packet (env_md5 env) rel (length F)"
  let ?mid = "concat (map (batch_wire (env_md5 env) enc rel F) [0..<num_batches (length F)])"
  let ?fin = "end_packet rel (total_chunks (length F))"
  obtain t' where t': "send_file_chunks (env_md5 env) enc max_backoff src full_path rel t = Some (True, t')"
    "wire t' = file_wire (env_md5 env) enc rel F" "removed t' = removed t @ [full_path]"
    using send_file_chunks_emits [OF assms(1,3-7), of "env_md5 env" enc max_backoff full_path rel] assms(2)
    by auto
  let ?w = "count_failure (count_failure (count_failure (initial_rx f)))"
  have idle: "rx_state ?w = new_receive_state" "\<not> rx_state_poisoned ?w"
    by (simp_all add: count_failure_def initial_rx_def)
  have start: "foldl (worker_step env) (initial_rx f) (replicate 3 ?start) = ?w"
    using refused_step [OF _ _ assms(8,10-12)]
    by (simp add: numeral_3_eq_3 count_failure_def initial_rx_def)
  have "\<exists>p. decode_packet raw = Some p \<and> pkg_type p \<in> {PKG_TYPE_DATA, PKG_TYPE_PARITY, PKG_TYPE_END}"
    if raw: "raw \<in> set (?mid @ replicate 3 ?fin)" for raw
  proof -
    consider b where "b < num_batches (length F)" "raw \<in> set (batch_wire (env_md5 env) enc rel F b)" | "raw = ?fin"
      using raw unfolding set_append set_concat set_map set_upt by (elim UnE UN_E imageE) auto
    then show ?thesis
    proof cases
      case 1
      from arrives_all [OF assms(8) 1(1) assms(10) fec_shape_fits [OF assms(9)]]
      have "list_all chunk_packet (batch_wire (env_md5 env) enc rel F b)" by (auto dest: arrives_chunks)
      with 1(2) show ?thesis by (auto simp: list_all_iff chunk_packet_def)
    next
      case 2
      then show ?thesis using decode_end_packet [OF total_chunks_bound [OF assms(10)]] by simp
    qed
  qed
  then have "foldl (worker_step env) ?w (?mid @ replicate 3 ?fin) = ?w" by (intro idle_run idle) blast
  then have "worker_state env f (wire t') = ?w"
    using start by (simp add: t'(2) file_wire_def worker_state_def worker_run_def CONTROL_RESEND_def)
  then show ?thesis
    using t'(1,3) by (auto simp: count_failure_def initial_rx_def file_counts_def new_stats_def)
qed

text \<open>A file \<open>\\a\<close>.\<close>

theorem refused_file_lost_witness:
  "\<exists>t'. send_file_chunks (env_md5 rep_env) rep_enc 250 example_source (ascii ''s/'' @ [92, 97]) [92, 97] example_tx = Some (True, t')
    \<and> removed t' = [ascii ''s/'' @ [92, 97]]
    \<and> rx_fs (worker_state rep_env example_fs (wire t')) = example_fs
    \<and> file_counts (worker_state rep_env example_fs (wire t')) = (0, 3)"
proof -
  have "valid_utf8 [92, 97]" "\<not> is_safe_rel_path [92, 97]" by code_simp+
  moreover have "src_len example_source = Some (length [7 :: byte, 8, 9])" "src_open example_source = Some example_reader"
    "rd_rest example_reader = [7, 8, 9]" "reads_ok example_reader" "src_remove example_source"
    by (simp_all add: example_source_def example_reader_def reads_ok_def)
  moreover have "wire example_tx = []" "removed example_tx = []" by (simp_all add: example_tx_def)
  ultimately show ?thesis
    using refused_file_lost [OF example_accepts, of example_source "[7, 8, 9]" example_reader rep_env rep_enc "[92, 97]"
        250 "ascii ''s/'' @ [92, 97]" example_fs] example_width rep_shape
    by simp
qed

section \<open>Files named like a marker\<close>

text \<open>C38. Clashing names. The receiver's own names are not reserved: if it holds a file named
  \<open>x.failed\<close>, from an earlier transfer or otherwise, then receiving \<open>x\<close> deletes it, silently, while
  both transfers are counted as received.\<close>

theorem marker_name_deleted:
  assumes "md5_width (env_md5 env)" and "fec_shape enc" and "path_ok rel" and "length F < 10 ^ 10"
    and "rx_state w = new_receive_state" and "\<not> rx_state_poisoned w"
    and "fs_ready (env_out env) rel (rx_fs w)"
    and "nodes (rx_fs w) (final_at (env_out env) (rel @ ascii ''.failed'')) = Some (Reg c)"
  shows "let v = foldl (worker_step env) w (file_wire (env_md5 env) enc rel F) in
    nodes (rx_fs v) (final_at (env_out env) (rel @ ascii ''.failed'')) = None
    \<and> delivered env rel F (add64 (fst (file_counts w)) 1, snd (file_counts w)) v"
proof -
  have same: "failed_at (env_out env) rel = final_at (env_out env) (rel @ ascii ''.failed'')"
    by (simp add: failed_at_def final_at_def failed_name_def)
  then have "nodes (rx_fs w) (failed_at (env_out env) rel) \<noteq> Some Dir" using assms(8) by simp
  have arr: "\<exists>xs. arrives env rel F (batch_parity enc F) b xs (batch_wire (env_md5 env) enc rel F b)"
    if "b < num_batches (length F)" for b
    using arrives_all [OF assms(1) that assms(4) fec_shape_fits [OF assms(2)]] .
  have "replaced env rel F w (foldl (worker_step env) w (file_wire (env_md5 env) enc rel F))"
    unfolding file_wire_def
    by (rule deliver_replaced [OF assms(1,3-7) arr _ _ \<open>nodes (rx_fs w) (failed_at (env_out env) rel) \<noteq> Some Dir\<close>])
      (simp_all add: CONTROL_RESEND_def)
  then show ?thesis by (simp add: replaced_def same Let_def)
qed

text \<open>A file \<open>a.failed\<close> is there when \<open>a\<close> arrives.\<close>

definition marked_fs :: fs where
  "marked_fs = \<lparr>nodes = [[ascii ''o''] \<mapsto> Dir, [ascii ''o'', ascii ''a'' @ ascii ''.failed''] \<mapsto> Reg [1]], faults = []\<rparr>"

theorem marker_name_deleted_witness:
  "nodes (rx_fs (foldl (worker_step rep_env) (initial_rx marked_fs) (file_wire (env_md5 rep_env) rep_enc (ascii ''a'') [7])))
    (final_at (ascii ''o'') (ascii ''a'' @ ascii ''.failed'')) = None"
proof -
  let ?f = "rx_fs (initial_rx marked_fs)" and ?o = "ascii ''o''" and ?a = "ascii ''a''"
  have f: "?f = marked_fs" by (simp add: initial_rx_def)
  note form = path_ok_form [OF example_path]
  have parent: "parent_at ?o ?a = [?o]" "last (names ?a) = ?a"
    by (simp_all add: parent_at_def example_names del: ascii_Cons)
  note at = files_at [OF form, of ?o, unfolded parent]
  have failed: "final_at ?o (?a @ ascii ''.failed'') = failed_at ?o ?a"
    by (simp add: failed_at_def final_at_def failed_name_def)
  have "?a \<noteq> ?a @ ascii ''.failed''" "ascii ''.partial'' \<noteq> ascii ''.failed''" by simp_all
  then have "fs_ready (env_out rep_env) ?a ?f"
    unfolding f by (simp add: fs_ready_def at parent marked_fs_def clean_def proper_prefixes_def del: ascii_Cons)
  moreover have "nodes ?f (final_at (env_out rep_env) (?a @ ascii ''.failed'')) = Some (Reg [1])"
    unfolding f by (simp add: failed at marked_fs_def del: ascii_Cons)
  moreover have "rx_state (initial_rx marked_fs) = new_receive_state" "\<not> rx_state_poisoned (initial_rx marked_fs)"
    by (simp_all add: initial_rx_def)
  ultimately show ?thesis
    using marker_name_deleted [OF example_width rep_shape example_path, of "[7]" "initial_rx marked_fs" "[1]"]
    by (simp add: Let_def del: ascii_Cons)
qed

end
