(* ===== verification/Worker_Type.thy ===== *)
theory Worker_Type
  imports Worker_Facts Examples
begin

text \<open>
  What a poisoned state lock would do to the packet worker, after any datagrams.
\<close>

section \<open>A poisoned lock\<close>

lemma poisoned_idle:
  assumes "rx_state_poisoned w"
  shows "file_path (rx_state (acquire_state env w)) = None" "rx_stats (acquire_state env w) = rx_stats w"
    "rx_state_poisoned (acquire_state env w)" "data_buffer (rx_state (acquire_state env w)) = []"
    "parity_buffer (rx_state (acquire_state env w)) = []"
  using assms by (simp_all add: acquire_state_def new_receive_state_def)

lemma idle_start:
  assumes "file_path (rx_state w) = None" and "data_buffer (rx_state w) = []" and "parity_buffer (rx_state w) = []"
  shows "files_transferred (rx_stats (handle_start env p w)) = files_transferred (rx_stats w)"
    "rx_state_poisoned (handle_start env p w) = rx_state_poisoned w"
    "data_buffer (rx_state (handle_start env p w)) = []" "parity_buffer (rx_state (handle_start env p w)) = []"
  using assms
  by (auto simp: handle_start_def new_file_def abandon_previous_def begin_transfer_def reset_rx_def
      reset_transfer_def count_failure_def new_receive_state_def Let_def split: option.split prod.split)

lemma poisoned_step:
  assumes "rx_state_poisoned w"
  shows "rx_state_poisoned (worker_step env w raw)
    \<and> files_transferred (rx_stats (worker_step env w raw)) = files_transferred (rx_stats w)
    \<and> (decode_packet raw \<noteq> None \<longrightarrow>
        data_buffer (rx_state (worker_step env w raw)) = [] \<and> parity_buffer (rx_state (worker_step env w raw)) = [])"
  using poisoned_idle [OF assms, of env] idle_start [of "acquire_state env w" env] assms
  by (auto simp: worker_step_def handle_packet_def handle_udp_def Let_def split: option.split)

text \<open>C39. A poisoned lock. The recovery from a poisoned state lock does not recover: the flag stays set, so
  every later datagram resets the transfer before it is looked at, no file is ever received again and
  after each datagram no chunk is buffered. (The comment expects dropping the guard to clear the flag.)\<close>

theorem poisoned_never_receives:
  assumes "rx_state_poisoned w"
  shows "let v = worker_run env w raws in
    rx_state_poisoned v \<and> files_transferred (rx_stats v) = files_transferred (rx_stats w)
    \<and> (list_ex (\<lambda>raw. decode_packet raw \<noteq> None) raws \<longrightarrow>
        data_buffer (rx_state v) = [] \<and> parity_buffer (rx_state v) = [])"
proof (induction raws rule: rev_induct)
  case Nil
  then show ?case using assms by (simp add: worker_run_def)
next
  case (snoc raw raws)
  let ?u = "worker_run env w raws"
  have "worker_run env w (raws @ [raw]) = worker_step env ?u raw" by (simp add: worker_run_def)
  moreover have "worker_step env ?u raw = ?u" if "decode_packet raw = None"
    using that by (simp add: worker_step_def)
  ultimately show ?case
    using poisoned_step [of ?u env raw] snoc.IH by (cases "decode_packet raw") (auto simp: Let_def)
qed

text \<open>The flag is set while a file is received; the rest of the file does not bring it to an end.\<close>

theorem poisoned_never_receives_witness:
  "files_transferred (rx_stats (worker_run rep_env (example_open\<lparr>rx_state_poisoned := True\<rparr>)
      [encode_record example_data, end_packet (ascii ''a'') 1]))
    = files_transferred (rx_stats example_open)"
  using poisoned_never_receives [of "example_open\<lparr>rx_state_poisoned := True\<rparr>" rep_env
      "[encode_record example_data, end_packet (ascii ''a'') 1]"]
  by (simp add: Let_def del: ascii_Cons)

end
