(* ===== verification/Worker_Props.thy ===== *)
theory Worker_Props
  imports Examples Worker_Run
begin

text \<open>
  The properties of the receiver's packet worker, for every sequence of datagrams and every schedule
  of failing file calls.
\<close>

section \<open>Safety\<close>

text \<open>C5. Containment. Whatever datagrams arrive and whichever file calls fail, the receiver changes no
  file or directory outside the output directory: every name that is not strictly below it is in
  the tree exactly what it was when the receiver started.\<close>

theorem receiver_confined:
  assumes "out_ok (env_out env) f" and "\<not> below (env_out env) q"
  shows "nodes (rx_fs (worker_state env f raws)) q = nodes f q"
  using worker_run_stays [OF initial_rx_inv, of env f raws] assms
  by (simp add: stays_def same_except_def worker_state_def initial_rx_def)

theorem receiver_confined_witness:
  "nodes (rx_fs (worker_state rep_env example_fs
     [encode_packet PKG_TYPE_START 3 EMPTY_HASH (encode_parity_field 0) (ascii ''../x'')])) [ascii ''x''] = None"
proof -
  have out: "resolve (ascii ''o'') = [ascii ''o'']"
    by (simp add: resolve_def components_def starts_with_def slash_def dot_def dotdot_def pieces_def
        piece_component_def of_char_def)
  have "out_ok (env_out rep_env) example_fs" "\<not> below (env_out rep_env) [ascii ''x'']"
    by (simp_all add: rep_env_def example_fs_def out_ok_def below_def out proper_prefixes_def
        strict_prefix_def of_char_def del: ascii_Cons)
  from receiver_confined [OF this] show ?thesis
    by (simp add: example_fs_def of_char_def)
qed

text \<open>C7. Bounded memory. In every state the receiver reaches, the byte counter is exactly the
  number of buffered bytes, at most 1000 chunks and 100 parity shards are buffered, and the whole
  is at most 1036000 bytes; the cap of 8 MiB in the code is never reached.\<close>

theorem buffers_bounded:
  "let st = rx_state (worker_state env f raws) in
     bytes_buffered st = (\<Sum>e\<leftarrow>data_buffer st. length (snd e)) + (\<Sum>e\<leftarrow>parity_buffer st. length (snd e))
     \<and> length (data_buffer st) \<le> 1000 \<and> length (parity_buffer st) \<le> 100
     \<and> bytes_buffered st \<le> 1036000 \<and> 1036000 < BUFFER_BYTE_LIMIT"
proof -
  have inv: "st_inv (rx_state (worker_state env f raws))"
    by (rule rx_inv_st_inv [OF worker_state_inv])
  then show ?thesis
    using counts_bounded [OF inv] st_inv_buffered [OF inv]
    by (simp add: Let_def st_inv_def bt.weight_def batch_bytes_def const_defs)
qed

section \<open>The outcome of a transfer\<close>

lemma handle_end: "pkg_type pk = PKG_TYPE_END \<Longrightarrow> file_path (rx_state w) = Some p \<Longrightarrow>
    handle_packet env pk w = finish_file env w"
  by (simp add: handle_packet_def pkg_type_defs)

text \<open>C6. Every transfer ends in exactly one of two ways. When END arrives for a transfer in
  progress, whatever happened before and whichever file calls fail, the state is reset, and either
  one more file is counted as transferred, the partial file is gone and the final path holds a regular
  file of exactly the declared size; or one more file is counted as failed and no regular file that
  was not there before is at the final path.\<close>

theorem transfer_outcome:
  assumes "file_path (rx_state (worker_state env f raws)) = Some p" and "pkg_type pk = PKG_TYPE_END"
  shows "let w = worker_state env f raws; v = handle_packet env pk w in
     rx_state v = new_receive_state
     \<and> (ended_failed (env_out env) p w v
        \<or> ended_published (env_out env) p (file_size (rx_state w)) w v)"
proof -
  let ?w = "worker_state env f raws"
  note inv = worker_state_inv [of env f raws]
  have "plain p" using rx_inv_receiving [OF inv assms(1)] tr_open_path by blast
  then have "rx_state (finish_file env ?w) = new_receive_state"
    using assms(1) finish_failed_inv(1) publish_inv(1) by (simp add: finish_file_def Let_def)
  then show ?thesis
    using finish_file_ended [OF inv assms(1)] unfolding Let_def handle_end [OF assms(2,1)] by blast
qed

theorem transfer_outcome_witness:
  "let v = handle_packet rep_env \<lparr>pkg_type = 2, count = 1, pkt_path_hash = EMPTY_HASH,
       pkt_data_hash = EMPTY_HASH, pkt_data = []\<rparr> example_open in
     rx_state v = new_receive_state
     \<and> (ended_failed (ascii ''o'') (ascii ''a'') example_open v
        \<or> ended_published (ascii ''o'') (ascii ''a'') 3 example_open v)"
proof -
  have "file_size (rx_state example_open) = 3"
    using example_receiving by (simp add: receiving_def transfer_of_def)
  with transfer_outcome [of rep_env example_fs "[start_packet (env_md5 rep_env) (ascii ''a'') 3]" "ascii ''a''"
      "\<lparr>pkg_type = 2, count = 1, pkt_path_hash = EMPTY_HASH, pkt_data_hash = EMPTY_HASH, pkt_data = []\<rparr>"]
    example_path_in_progress
  show ?thesis
    by (simp add: example_open_def [symmetric] PKG_TYPE_END_def Let_def del: ascii_Cons)
qed

text \<open>C8. A data or recovery packet of a transfer in progress changes at most one file, the partial
  file of that transfer, and leaves it a regular file of exactly the declared size, whatever the
  packet holds and whichever file calls fail; the transfer stays in progress.\<close>

theorem running_packet_confined:
  assumes "file_path (rx_state (worker_state env f raws)) = Some p"
    and "decode_packet raw = Some pk" and "pkg_type pk \<in> {PKG_TYPE_DATA, PKG_TYPE_PARITY}"
  shows "let w = worker_state env f raws; v = handle_packet env pk w in
     file_path (rx_state v) = Some p \<and> file_size (rx_state v) = file_size (rx_state w)
     \<and> (\<forall>q. q \<noteq> partial_at (env_out env) p \<longrightarrow> nodes (rx_fs v) q = nodes (rx_fs w) q)
     \<and> (\<exists>c. nodes (rx_fs v) (partial_at (env_out env) p) = Some (Reg c) \<and> length c = file_size (rx_state v))"
proof -
  let ?w = "worker_state env f raws"
  note op = rx_inv_receiving [OF worker_state_inv assms(1)] and n = decode_packet_Some(3) [OF assms(2)]
  have v: "handle_packet env pk ?w \<in> {handle_data env pk ?w, handle_parity env pk ?w}"
    using assms(1,3) by (auto simp: handle_packet_def pkg_type_defs)
  have size: "file_size (rx_state (handle_packet env pk ?w)) = file_size (rx_state ?w)"
    using v handle_data_size handle_parity_size by auto
  have "tr_open (env_out env) p (rx_state (handle_packet env pk ?w)) (rx_fs (handle_packet env pk ?w))
      \<and> only_partial (env_out env) p (rx_fs ?w) (rx_fs (handle_packet env pk ?w))"
    using v handle_data_open [OF op n] handle_parity_open [OF op n] by auto
  with size show ?thesis
    by (auto simp: Let_def tr_open_def only_partial_def same_except_def partial_at_def)
qed

theorem running_packet_confined_witness:
  "let v = handle_packet rep_env example_data example_open in
     file_path (rx_state v) = Some (ascii ''a'') \<and> file_size (rx_state v) = file_size (rx_state example_open)
     \<and> nodes (rx_fs v) [ascii ''o''] = nodes (rx_fs example_open) [ascii ''o'']"
proof -
  have "partial_at (ascii ''o'') (ascii ''a'') = [ascii ''o'', ascii ''a.partial'']"
    using files_at(2) [OF path_ok_form [OF example_path]] by (simp add: parent_at_def example_names del: ascii_Cons)
      (simp add: ascii_def)
  with running_packet_confined [of rep_env example_fs "[start_packet (env_md5 rep_env) (ascii ''a'') 3]"
      "ascii ''a''", OF _ example_data_decode] example_path_in_progress
  show ?thesis
    by (simp add: example_open_def [symmetric] Let_def del: ascii_Cons)
qed

text \<open>C9. Duplicates change nothing. Once a data or recovery packet of a transfer in progress has been
  handled, receiving it again at any later time of the same transfer, that is after any datagrams
  that neither end the transfer nor start another path, leaves everything as it is: the state, the
  counters, the files and the queue, and no file call is made. This holds whether the first
  copy was buffered, refused, or failed the transfer.\<close>

theorem duplicate_packet_ignored:
  assumes "file_path (rx_state (worker_state env f raws)) = Some p"
    and "decode_packet raw = Some pk" and "pkg_type pk \<in> {PKG_TYPE_DATA, PKG_TYPE_PARITY}"
    and "list_all (within_transfer p) mid"
  shows "worker_state env f (raws @ [raw] @ mid @ [raw]) = worker_state env f (raws @ [raw] @ mid)"
proof -
  note inv = worker_state_inv [of env f raws] and ok = worker_state_unpoisoned [of env f raws]
  have "worker_run env (initial_rx f) (raws @ rest) = worker_run env (worker_state env f raws) rest" for rest
    by (simp add: worker_state_def worker_run_def)
  with duplicate_ignored [OF inv ok assms] show ?thesis
    by (simp only: worker_state_def [of env f "raws @ _"])
qed

text \<open>The only chunk of the file in progress comes again after a repeated START of the same file.\<close>

lemma example_within: "within_transfer (ascii ''a'') (start_packet (env_md5 rep_env) (ascii ''a'') 3)"
proof -
  have "from_utf8_lossy (ascii ''a'') = ascii ''a''" using example_path by (simp add: path_ok_def)
  then show ?thesis
    using decode_start_packet [OF example_width, of 3 "ascii ''a''"]
    by (simp add: within_transfer_def PKG_TYPE_START_def PKG_TYPE_END_def del: ascii_Cons)
qed

lemma decode_data_packet:
  assumes "md5_width md5" and "k < 10 ^ 10"
  shows "decode_packet (data_packet md5 rel F k) = Some \<lparr>pkg_type = PKG_TYPE_DATA, count = k,
    pkt_path_hash = md5_hex md5 rel, pkt_data_hash = md5_hex md5 (file_chunk F k), pkt_data = file_chunk F k\<rparr>"
  unfolding data_packet_def using assms(2)
  by (intro decode_encode_packet) (simp_all add: length_md5_hex [OF assms(1)] PKG_TYPE_DATA_def)

theorem duplicate_packet_ignored_witness:
  "let start = start_packet (env_md5 rep_env) (ascii ''a'') 3;
       chunk = data_packet (env_md5 rep_env) (ascii ''a'') [7, 8, 9] 0 in
   worker_state rep_env example_fs [start, chunk, start, chunk] = worker_state rep_env example_fs [start, chunk, start]"
proof -
  let ?start = "start_packet (env_md5 rep_env) (ascii ''a'') 3" and ?chunk = "data_packet (env_md5 rep_env) (ascii ''a'') [7, 8, 9] 0"
  obtain pk where "decode_packet ?chunk = Some pk" "pkg_type pk = PKG_TYPE_DATA"
    using decode_data_packet [OF example_width, of 0 "ascii ''a''" "[7, 8, 9]"] by auto
  with duplicate_packet_ignored [of rep_env example_fs "[?start]" "ascii ''a''" ?chunk pk "[?start]"]
    example_path_in_progress example_within
  show ?thesis by (simp add: example_open_def [symmetric] Let_def del: ascii_Cons)
qed

section \<open>Refused and repeated START packets\<close>

text \<open>C15. A START packet whose path fails the check, or holds a NUL byte, opens nothing. Between
  transfers it changes no file at all, not even to leave a failure marker, and counts one failed file.
  During a transfer it ends that transfer first: the partial file is removed, the failure marker of the path
  in progress is written, two files are counted as failed, and the receiver is idle afterwards.\<close>

theorem unsafe_start_refused:
  assumes "pkg_type pk = PKG_TYPE_START"
    and "\<not> is_safe_rel_path (from_utf8_lossy (pkt_data pk)) \<or> 0 \<in> set (from_utf8_lossy (pkt_data pk))"
  shows "let w = worker_state env f raws; ss = rx_stats w; failures = add64 (files_failed ss) 1 in
     handle_packet env pk w =
       (case file_path (rx_state w) of
          None \<Rightarrow> w\<lparr>rx_stats := ss\<lparr>files_failed := failures\<rparr>\<rparr>
        | Some p \<Rightarrow> w\<lparr>rx_state := new_receive_state,
            rx_fs := mark_failure (env_out env) p (snd (remove_file (partial_path (env_out env) p) (rx_fs w))),
            rx_stats := ss\<lparr>files_failed := add64 failures 1\<rparr>\<rparr>)"
proof (cases "file_path (rx_state (worker_state env f raws))")
  case None
  then have "rx_state (worker_state env f raws) = new_receive_state"
    using worker_state_inv [of env f raws] by (simp add: rx_inv_def)
  with None assms show ?thesis
    by (auto simp: Let_def handle_packet_def handle_start_def new_file_def abandon_previous_def
        reset_rx_def reset_transfer_def count_failure_def)
next
  case (Some p)
  have "is_safe_rel_path p \<and> 0 \<notin> set p"
    using rx_inv_receiving [OF worker_state_inv Some] by (simp add: tr_open_def)
  with assms(2) have "from_utf8_lossy (pkt_data pk) \<noteq> p" by auto
  with Some assms show ?thesis
    by (auto simp: Let_def handle_packet_def handle_start_def new_file_def abandon_previous_def
        reset_rx_def reset_transfer_def count_failure_def new_receive_state_def)
qed

text \<open>The path \<open>../x\<close>, between transfers and while \<open>a\<close> is being received.\<close>

theorem unsafe_start_refused_witness:
  "let pk = \<lparr>pkg_type = 0, count = 3, pkt_path_hash = EMPTY_HASH, pkt_data_hash = EMPTY_HASH,
     pkt_data = ascii ''../x''\<rparr> in
   files_failed (rx_stats (handle_packet rep_env pk (worker_state rep_env example_fs []))) = 1
   \<and> rx_fs (handle_packet rep_env pk example_open)
     = mark_failure (ascii ''o'') (ascii ''a'') (snd (remove_file (partial_path (ascii ''o'') (ascii ''a'')) (rx_fs example_open)))"
proof -
  let ?pk = "\<lparr>pkg_type = 0, count = 3, pkt_path_hash = EMPTY_HASH, pkt_data_hash = EMPTY_HASH, pkt_data = ascii ''../x''\<rparr>"
  have unsafe: "\<not> is_safe_rel_path (from_utf8_lossy (ascii ''../x''))" by code_simp
  note refused = unsafe_start_refused [of ?pk rep_env example_fs]
  show ?thesis
    using refused [of "[]"] refused [of "[start_packet (env_md5 rep_env) (ascii ''a'') 3]"] unsafe example_path_in_progress
    by (simp add: example_open_def [symmetric] worker_state_def [of _ _ "[]"] worker_run_def initial_rx_def
        new_stats_def new_receive_state_def PKG_TYPE_START_def Let_def del: ascii_Cons)
qed

text \<open>C33. Every START packet of a path that is not in progress is accounted for: whatever datagrams arrive and
  whichever file calls fail, the files received, the files failed and the one in progress together
  are as many as the START packets that named another path than the one in progress at their arrival,
  as the wrapping counters count. No transfer is lost from the statistics and none is counted twice.\<close>

theorem transfers_accounted:
  "let w = worker_state env f raws in
     (files_transferred (rx_stats w) + files_failed (rx_stats w)
       + (if file_path (rx_state w) = None then 0 else 1)) mod 2 ^ 64
     = fresh_starts env (initial_rx f) raws mod 2 ^ 64"
  using tally_run [OF initial_rx_inv, of f env raws] worker_state_unpoisoned [of env f "[]"]
  by (simp only: worker_state_def worker_run_def foldl_Nil tally_initial add_0 Let_def tally_def [symmetric])

text \<open>C40. A START packet for the path already in progress is ignored whole, whatever size, hash and
  parity count it declares: the first START of a path decides the transfer until END or a START of
  another path.\<close>

theorem start_in_progress_ignored:
  assumes "file_path (rx_state (worker_state env f raws)) = Some (from_utf8_lossy (pkt_data pk))"
    and "pkg_type pk = PKG_TYPE_START"
  shows "handle_packet env pk (worker_state env f raws) = worker_state env f raws"
  using assms by (simp add: handle_packet_def handle_start_def new_file_def Let_def)

theorem start_in_progress_ignored_witness:
  "handle_packet rep_env \<lparr>pkg_type = 0, count = 99, pkt_path_hash = EMPTY_HASH,
     pkt_data_hash = EMPTY_HASH, pkt_data = ascii ''a''\<rparr> example_open = example_open"
proof -
  have "from_utf8_lossy (ascii ''a'') = ascii ''a''" using example_path by (simp add: path_ok_def)
  with start_in_progress_ignored [of rep_env example_fs "[start_packet (env_md5 rep_env) (ascii ''a'') 3]"
      "\<lparr>pkg_type = 0, count = 99, pkt_path_hash = EMPTY_HASH, pkt_data_hash = EMPTY_HASH, pkt_data = ascii ''a''\<rparr>"]
    example_path_in_progress
  show ?thesis
    by (simp add: example_open_def [symmetric] PKG_TYPE_START_def del: ascii_Cons)
qed

section \<open>A batch that cannot be recovered\<close>

text \<open>C10. If END arrives while the batch being collected has fewer chunks and recovery shards together
  than it has chunks, then, when no file call fails, nothing is published: the final path and the partial
  file are absent, a failure marker is left, and one file is counted as failed.\<close>

theorem incomplete_batch_fails:
  assumes "file_path (rx_state (worker_state env f raws)) = Some p" and "pkg_type pk = PKG_TYPE_END"
    and "length (data_buffer (rx_state (worker_state env f raws)))
        + length (parity_buffer (rx_state (worker_state env f raws)))
      < batch_data_size (current_batch (rx_state (worker_state env f raws)))
          (file_size (rx_state (worker_state env f raws)))"
    and "fs_open (env_out env) p c (rx_fs (worker_state env f raws))" and "\<not> dir_form p"
    and "nodes (rx_fs (worker_state env f raws)) (failed_at (env_out env) p) \<noteq> Some Dir"
  shows "let w = worker_state env f raws; v = handle_packet env pk w in
     nodes (rx_fs v) (final_at (env_out env) p) = None \<and> nodes (rx_fs v) (partial_at (env_out env) p) = None
     \<and> (\<exists>m. nodes (rx_fs v) (failed_at (env_out env) p) = Some (Reg m))
     \<and> rx_stats v = (rx_stats w)\<lparr>files_failed := add64 (files_failed (rx_stats w)) 1\<rparr>"
proof -
  let ?w = "worker_state env f raws" and ?out = "env_out env"
  have "plain p" using rx_inv_receiving [OF worker_state_inv assms(1)] tr_open_path by blast
  then have form: "file_form p" using assms(5) by (simp add: file_form_def)
  let ?v = "finalize_last (env_fec env) ?w"
  have v: "rx_fs ?v = rx_fs ?w" "failed (rx_state ?v)" "rx_stats ?v = rx_stats ?w"
    "file_path (rx_state ?v) = Some p"
    using finalize_last_incomplete [OF assms(3), of "env_fec env"] assms(1) by simp_all
  have fin: "handle_packet env pk ?w = finish_failed ?out p ?v"
    unfolding handle_end [OF assms(2,1)] finish_file_def Let_def using assms(1) v(2) by simp
  show ?thesis
    using finish_failed_clean [OF form, of ?out c ?v] assms(4,6) v finish_failed_ended [OF \<open>plain p\<close> v(4), of ?out]
    unfolding Let_def fin by (auto simp: ended_failed_def)
qed

theorem incomplete_batch_fails_witness:
  "let v = handle_packet rep_env \<lparr>pkg_type = 2, count = 1, pkt_path_hash = EMPTY_HASH,
       pkt_data_hash = EMPTY_HASH, pkt_data = []\<rparr> example_open in
     nodes (rx_fs v) (final_at (ascii ''o'') (ascii ''a'')) = None
     \<and> (\<exists>m. nodes (rx_fs v) (failed_at (ascii ''o'') (ascii ''a'')) = Some (Reg m))"
proof -
  note open_facts = example_receiving [of "\<lambda>_. []", unfolded receiving_def transfer_of_def]
  have w: "length (data_buffer (rx_state example_open)) = 0" "length (parity_buffer (rx_state example_open)) = 0"
    using open_facts holds_length [of "data_buffer (rx_state example_open)"]
      holds_length [of "parity_buffer (rx_state example_open)"] by fastforce+
  have w': "batch_data_size (current_batch (rx_state example_open)) (file_size (rx_state example_open)) = 1"
    "fs_open (env_out rep_env) (ascii ''a'') (written [7, 8, 9] 0) (rx_fs example_open)"
    using open_facts
    by (simp_all add: chunk_pos_def batch_first_def batch_data_size_def div_ceil_def const_defs
        del: ascii_Cons rep_env_out)
  have "\<not> dir_form (ascii ''a'')" using example_path by (simp add: path_ok_def)
  from incomplete_batch_fails [of rep_env example_fs "[start_packet (env_md5 rep_env) (ascii ''a'') 3]" "ascii ''a''"
      "\<lparr>pkg_type = 2, count = 1, pkt_path_hash = EMPTY_HASH, pkt_data_hash = EMPTY_HASH, pkt_data = []\<rparr>",
      folded example_open_def, OF example_path_in_progress _ _ w'(2) this example_not_failed] w w'(1)
  show ?thesis by (simp add: PKG_TYPE_END_def Let_def del: ascii_Cons)
qed

end
