(* ===== verification/Path_Props.thy ===== *)
theory Path_Props
  imports Proto
begin

text \<open>The property of the path check: what it accepts, read off the string, and where that leads.\<close>

definition real_names :: "bytes \<Rightarrow> bytes list" where
  "real_names p = filter (\<lambda>n. n \<noteq> [] \<and> n \<noteq> dot) (split_slash p)"

lemma check_pieces: "check_components (pieces p) \<longleftrightarrow> dotdot \<notin> set (split_slash p)"
proof -
  have "check_components (concat (map piece_component ps)) \<longleftrightarrow> dotdot \<notin> set ps" for ps
    by (induction ps) (auto simp: piece_component_def dotdot_def dot_def)
  then show ?thesis by (simp add: pieces_def)
qed

lemma names_pieces:
  assumes "plain p"
  shows "names p = real_names p"
proof -
  have "dotdot \<notin> set (split_slash p)"
    using assms by (auto simp: check_components_iff plain_pieces(1) list_all_iff simp flip: check_pieces)
  moreover have "dotdot \<notin> set ps \<Longrightarrow>
      map comp_name (concat (map piece_component ps)) = filter (\<lambda>n. n \<noteq> [] \<and> n \<noteq> dot) ps" for ps
    by (induction ps) (auto simp: piece_component_def)
  moreover have "components p = pieces p"
    using plain_pieces(1) [OF assms] plain_components [OF assms] by simp
  ultimately show ?thesis by (simp add: names_def real_names_def pieces_def)
qed

text \<open>C34. The path check, read off the string. A path is accepted exactly if it is not empty, starts with
  neither a slash nor a backslash, has no \<open>..\<close> between its slashes, and its first piece is not \<open>.\<close>. So a
  \<open>.\<close> or an empty piece anywhere else is accepted, and so are a Windows drive root like \<open>C:\<close> with a
  backslash, a backslash after the first byte, and a NUL byte (which only \<open>new_file\<close> refuses, by a test of
  its own): the check promises less than its comment and the README say. Joined to any directory, an
  accepted path leads to its non-trivial pieces, at least one, below that directory.\<close>

theorem safe_path_spec:
  "(is_safe_rel_path p \<longleftrightarrow> p \<noteq> [] \<and> hd p \<noteq> slash \<and> hd p \<noteq> backslash
      \<and> dotdot \<notin> set (split_slash p) \<and> hd (split_slash p) \<noteq> dot)
    \<and> (is_safe_rel_path p \<longrightarrow>
        resolve (path_join base p) = resolve base @ real_names p \<and> real_names p \<noteq> [])"
proof (cases "p = []")
  case False
  then have head: "starts_with b p \<longleftrightarrow> hd p = b" for b by (cases p) (auto simp: starts_with_def)
  have "is_safe_rel_path p \<longleftrightarrow> hd p \<noteq> slash \<and> hd p \<noteq> backslash
      \<and> dotdot \<notin> set (split_slash p) \<and> hd (split_slash p) \<noteq> dot"
    using False head by (auto simp: is_safe_rel_path_def components_def check_pieces)
  moreover have "resolve (path_join base p) = resolve base @ real_names p \<and> real_names p \<noteq> []"
    if "is_safe_rel_path p"
    using that resolve_join [of p base] names_pieces [of p] names_not_Nil [of p] by (simp add: is_safe_plain)
  ultimately show ?thesis using False by blast
qed (simp add: is_safe_rel_path_def)

text \<open>
  Three paths the documents say the check refuses: one with \<open>.\<close> at its end, one under a Windows drive,
  and one with a NUL byte.
\<close>

theorem safe_path_spec_witness:
  "is_safe_rel_path (ascii ''a/.'') \<and> resolve (path_join (ascii ''o'') (ascii ''a/.'')) = [ascii ''o'', ascii ''a'']
    \<and> is_safe_rel_path (ascii ''C:'' @ [backslash] @ ascii ''x'') \<and> is_safe_rel_path (ascii ''a'' @ [0])"
proof -
  have dot_end: "ascii ''a/.'' \<noteq> []" "hd (ascii ''a/.'') \<noteq> slash" "hd (ascii ''a/.'') \<noteq> backslash"
    "dotdot \<notin> set (split_slash (ascii ''a/.''))" "hd (split_slash (ascii ''a/.'')) \<noteq> dot"
    "real_names (ascii ''a/.'') = [ascii ''a'']" "resolve (ascii ''o'') = [ascii ''o'']"
    by code_simp+
  let ?drive = "ascii ''C:'' @ [backslash] @ ascii ''x''"
  have drive: "?drive \<noteq> []" "hd ?drive \<noteq> slash" "hd ?drive \<noteq> backslash"
    "dotdot \<notin> set (split_slash ?drive)" "hd (split_slash ?drive) \<noteq> dot"
    by code_simp+
  let ?nul = "ascii ''a'' @ [0]"
  have nul: "?nul \<noteq> []" "hd ?nul \<noteq> slash" "hd ?nul \<noteq> backslash"
    "dotdot \<notin> set (split_slash ?nul)" "hd (split_slash ?nul) \<noteq> dot"
    by code_simp+
  have "is_safe_rel_path (ascii ''a/.'') \<and> resolve (path_join (ascii ''o'') (ascii ''a/.'')) = [ascii ''o'', ascii ''a'']"
    using safe_path_spec [of "ascii ''a/.''" "ascii ''o''"] dot_end by simp
  moreover have "is_safe_rel_path ?drive" using safe_path_spec [of ?drive] drive by blast
  moreover have "is_safe_rel_path ?nul" using safe_path_spec [of ?nul] nul by blast
  ultimately show ?thesis by blast
qed

end
