(* ===== verification/Udp_Send.thy ===== *)
theory Udp_Send
  imports Sender_Wire Udp
begin

text \<open>
  The sender's datagram forwarder (\<open>spawn_udp_forwarder\<close> of \<open>diode_send/src/main.rs\<close>): the
  thread that cuts each datagram into fragments and sends them twice. The clock is an input: one
  reading per datagram, in nanoseconds, \<open>0\<close> where \<open>duration_since\<close> fails.
\<close>

definition UDP_RESEND :: nat where "UDP_RESEND = 2"

text \<open>\<open>slice::chunks\<close>.\<close>

function slice_chunks :: "nat \<Rightarrow> bytes \<Rightarrow> bytes list" where
  "slice_chunks n xs = (if n = 0 \<or> xs = [] then [] else take n xs # slice_chunks n (drop n xs))"
  by pat_completeness auto
termination by (relation "measure (\<lambda>(n, xs). length xs)") auto

declare slice_chunks.simps [simp del]

fun send_fragments :: "nat \<Rightarrow> bytes \<Rightarrow> bytes \<Rightarrow> nat \<Rightarrow> bytes list \<Rightarrow> tx \<Rightarrow> tx option" where
  "send_fragments max_backoff data_length pkg_id n [] t = Some t"
| "send_fragments max_backoff data_length pkg_id n (c # cs) t =
     (case send_to_blocking max_backoff (encode_packet PKG_TYPE_UDP n data_length pkg_id c) t of
        None \<Rightarrow> None
      | Some (_, t) \<Rightarrow> send_fragments max_backoff data_length pkg_id (n + 1) cs t)"

fun send_copies :: "nat \<Rightarrow> nat \<Rightarrow> bytes \<Rightarrow> bytes \<Rightarrow> bytes list \<Rightarrow> tx \<Rightarrow> tx option" where
  "send_copies 0 max_backoff data_length pkg_id cs t = Some t"
| "send_copies (Suc n) max_backoff data_length pkg_id cs t =
     (case send_fragments max_backoff data_length pkg_id 0 cs t of
        None \<Rightarrow> None
      | Some t \<Rightarrow> send_copies n max_backoff data_length pkg_id cs t)"

definition forward_datagram :: "(bytes \<Rightarrow> bytes) \<Rightarrow> nat \<Rightarrow> nat \<Rightarrow> bytes \<Rightarrow> tx \<Rightarrow> tx option" where
  "forward_datagram md5 max_backoff now data t =
     (let pkg_id = md5_hex md5 (fmt_dec now);
          data_length = fmt_zero_padded 32 (length data)
      in send_copies UDP_RESEND max_backoff data_length pkg_id (slice_chunks CHUNK_SIZE data) t)"

text \<open>The loop over the queue.\<close>

fun forward_all :: "(bytes \<Rightarrow> bytes) \<Rightarrow> nat \<Rightarrow> (nat \<times> bytes) list \<Rightarrow> tx \<Rightarrow> tx option" where
  "forward_all md5 max_backoff [] t = Some t"
| "forward_all md5 max_backoff ((now, data) # ds) t =
     (case forward_datagram md5 max_backoff now data t of
        None \<Rightarrow> None
      | Some t \<Rightarrow> forward_all md5 max_backoff ds t)"

section \<open>What is sent\<close>

lemma slice_chunks_map:
  "slice_chunks CHUNK_SIZE (drop (k * CHUNK_SIZE) F) = map (file_chunk F) [k..<total_chunks (length F)]"
proof (induction "total_chunks (length F) - k" arbitrary: k)
  case 0
  then have "drop (k * CHUNK_SIZE) F = []" using drop_chunks_Nil [of k F] by simp
  with 0 show ?case by (simp add: slice_chunks.simps)
next
  case (Suc d)
  then have k: "k < total_chunks (length F)" by simp
  then have ne: "drop (k * CHUNK_SIZE) F \<noteq> []" using drop_chunks_Nil [of k F] by (simp del: drop_eq_Nil)
  have "slice_chunks CHUNK_SIZE (drop (Suc k * CHUNK_SIZE) F) = map (file_chunk F) [Suc k..<total_chunks (length F)]"
    using Suc(2) by (intro Suc(1)) simp
  moreover have "drop CHUNK_SIZE (drop (k * CHUNK_SIZE) F) = drop (Suc k * CHUNK_SIZE) F"
    by (simp add: add.commute)
  ultimately show ?case
    using ne k by (subst slice_chunks.simps)
      (simp add: upt_conv_Cons file_chunk_def [of F k] del: drop_eq_Nil drop_drop)
qed

lemma slice_chunks_all: "slice_chunks CHUNK_SIZE F = map (file_chunk F) [0..<total_chunks (length F)]"
  using slice_chunks_map [of 0 F] by simp

text \<open>Fragment \<open>k\<close> of a datagram, as a packet and on the wire.\<close>

definition udp_fragment :: "(bytes \<Rightarrow> bytes) \<Rightarrow> nat \<Rightarrow> bytes \<Rightarrow> nat \<Rightarrow> packet" where
  "udp_fragment md5 now data k =
     \<lparr>pkg_type = PKG_TYPE_UDP, count = k, pkt_path_hash = fmt_zero_padded 32 (length data),
      pkt_data_hash = md5_hex md5 (fmt_dec now), pkt_data = file_chunk data k\<rparr>"

definition udp_copy :: "(bytes \<Rightarrow> bytes) \<Rightarrow> nat \<Rightarrow> bytes \<Rightarrow> packet list" where
  "udp_copy md5 now data = map (udp_fragment md5 now data) [0..<total_chunks (length data)]"

definition udp_wire :: "(bytes \<Rightarrow> bytes) \<Rightarrow> nat \<Rightarrow> bytes \<Rightarrow> bytes list" where
  "udp_wire md5 now data = map encode_record (udp_copy md5 now data @ udp_copy md5 now data)"

lemma send_fragments_emits:
  assumes "accepts (outcomes t)"
  shows "\<exists>t'. send_fragments mb (fmt_zero_padded 32 (length data)) (md5_hex md5 (fmt_dec now)) k
      (map (file_chunk data) [k..<n]) t = Some t'
    \<and> emits t (map (encode_record \<circ> udp_fragment md5 now data) [k..<n]) t'"
  using assms
proof (induction "n - k" arbitrary: k t)
  case (Suc d)
  then have k: "k < n" by simp
  let ?p = "encode_record (udp_fragment md5 now data k)"
  obtain u where u: "send_to_blocking mb ?p t = Some (True, u)" "emits t [?p] u"
    using Suc(3) by (rule send_to_blocking_emits)
  obtain v where v: "send_fragments mb (fmt_zero_padded 32 (length data)) (md5_hex md5 (fmt_dec now)) (Suc k)
      (map (file_chunk data) [Suc k..<n]) u = Some v"
    "emits u (map (encode_record \<circ> udp_fragment md5 now data) [Suc k..<n]) v"
    using Suc(1) [of "Suc k" u, OF _ emits_accepts [OF u(2) Suc(3)]] Suc(2) by fastforce
  show ?case
    using u v k emits_trans [OF u(2) v(2)]
    by (simp add: upt_conv_Cons encode_record_def udp_fragment_def)
qed simp

lemma forward_datagram_emits:
  assumes "accepts (outcomes t)"
  shows "\<exists>t'. forward_datagram md5 mb now data t = Some t' \<and> emits t (udp_wire md5 now data) t'"
proof -
  let ?len = "fmt_zero_padded 32 (length data)" and ?id = "md5_hex md5 (fmt_dec now)"
  let ?cs = "slice_chunks CHUNK_SIZE data"
  have copy: "\<exists>t'. send_fragments mb ?len ?id 0 ?cs t = Some t'
      \<and> emits t (map encode_record (udp_copy md5 now data)) t'" if "accepts (outcomes t)" for t
    using send_fragments_emits [OF that, of mb data md5 now 0] by (simp add: slice_chunks_all udp_copy_def)
  obtain u where u: "send_fragments mb ?len ?id 0 ?cs t = Some u"
    "emits t (map encode_record (udp_copy md5 now data)) u" using copy [OF assms] by blast
  obtain v where v: "send_fragments mb ?len ?id 0 ?cs u = Some v"
    "emits u (map encode_record (udp_copy md5 now data)) v"
    using copy [OF emits_accepts [OF u(2) assms]] by blast
  show ?thesis
    using u v emits_trans [OF u(2) v(2)]
    by (simp add: forward_datagram_def UDP_RESEND_def numeral_2_eq_2 udp_wire_def)
qed

lemma udp_fragment_ok:
  assumes "md5_width md5" and "length data \<le> 65535" and "k < total_chunks (length data)"
  shows "wire_ok (udp_fragment md5 now data k)"
proof -
  have "total_chunks (length data) \<le> 65535"
    using assms(2) div_ceil_le [OF chunk_size_pos, of "length data"] unfolding total_chunks_def by linarith
  then have "k < 10 ^ 10" using assms(3) by simp
  moreover have "length (fmt_zero_padded 32 (length data)) = 32"
    using assms(2) by (intro length_fmt_zero_padded_fits [OF u64_digits]) (simp_all add: u64_max_def)
  ultimately show ?thesis
    using length_md5_hex [OF assms(1)] by (simp add: wire_ok_def udp_fragment_def PKG_TYPE_UDP_def)
qed

lemma udp_fragment_fields:
  assumes "length data \<le> 65535"
  shows "declared_size (udp_fragment md5 now data k) = Some (length data)"
    and "flow_id (udp_fragment md5 now data k) = take 8 (md5_hex md5 (fmt_dec now))"
proof -
  have "length data \<le> u64_max" using assms by (simp add: u64_max_def)
  then show "declared_size (udp_fragment md5 now data k) = Some (length data)"
    by (simp add: declared_size_def udp_fragment_def from_utf8_def fmt_zero_padded_digits decimal.dec_enc)
  show "flow_id (udp_fragment md5 now data k) = take 8 (md5_hex md5 (fmt_dec now))"
    by (simp add: flow_id_def udp_fragment_def)
qed

end
