(* ===== verification/Udp_Facts.thy ===== *)
theory Udp_Facts
  imports Udp_Send
begin

text \<open>
  What the datagram forwarder guarantees: nothing partial or mixed is ever sent, a flow is not
  pre-empted, and a complete copy of a datagram is delivered.
\<close>

section \<open>Where a datagram comes from\<close>

text \<open>
  \<open>fs\<close> are fragments \<open>0, 1, ...\<close> of one flow that declare \<open>n\<close> bytes, a subsequence of the
  packets \<open>ps\<close> taken from the queue.
\<close>

definition flow_in :: "packet list \<Rightarrow> bytes \<Rightarrow> nat \<Rightarrow> packet list \<Rightarrow> bool" where
  "flow_in ps x n fs \<longleftrightarrow>
     subseq fs ps \<and> map count fs = [0..<length fs]
     \<and> list_all (\<lambda>f. flow_id f = x \<and> declared_size f = Some n) fs"

definition assembled :: "packet list \<Rightarrow> bytes \<Rightarrow> bool" where
  "assembled ps d \<longleftrightarrow> (\<exists>fs x. fs \<noteq> [] \<and> flow_in ps x (length d) fs \<and> d = concat (map pkt_data fs))"

text \<open>The flow in progress, and everything sent, comes from such fragments.\<close>

definition traced :: "packet list \<Rightarrow> udp_state \<Rightarrow> bool" where
  "traced ps s \<longleftrightarrow>
     list_all (assembled ps) (udp_sent s)
     \<and> (\<forall>x. current_id s = Some x \<longrightarrow>
          (\<exists>fs. flow_in ps x (expected_size s) fs \<and> length fs = previous_count s + 1
             \<and> full_packet s = concat (map pkt_data fs) \<and> previous_count s < 2 ^ 64))
     \<and> (current_id s = None \<longrightarrow> previous_count s = 0)"

lemma flow_in_later: "flow_in ps x n fs \<Longrightarrow> flow_in (ps @ [p]) x n fs"
  by (auto simp: flow_in_def)

lemma flow_in_next:
  assumes "flow_in ps x n fs" and "count p = length fs" and "flow_id p = x" and "declared_size p = Some n"
  shows "flow_in (ps @ [p]) x n (fs @ [p])"
  using assms by (simp add: flow_in_def)

lemma flow_in_first: "count p = 0 \<Longrightarrow> declared_size p = Some n \<Longrightarrow> flow_in (ps @ [p]) (flow_id p) n [p]"
  by (simp add: flow_in_def subseq_singleton_left)

lemma assembled_later: "assembled ps d \<Longrightarrow> assembled (ps @ [p]) d"
  unfolding assembled_def using flow_in_later by blast

lemma traced_later: "traced ps s \<Longrightarrow> traced (ps @ [p]) s"
  unfolding traced_def list_all_iff using assembled_later flow_in_later by blast

lemma traced_reset: "traced ps s \<Longrightarrow> traced ps (udp_reset s)"
  by (simp add: traced_def udp_reset_def)

text \<open>Taking one more fragment, and sending when the flow is complete.\<close>

lemma traced_take:
  assumes "list_all (assembled ps) (udp_sent s)" and "current_id s = Some x"
    and "flow_in ps x (expected_size s) fs" and "fs \<noteq> []" and "length fs = previous_count s + 1"
    and "full_packet s = concat (map pkt_data fs)" and "previous_count s < 2 ^ 64"
  shows "traced ps (forward_if_full s)"
proof (cases "length (full_packet s) = expected_size s")
  case True
  then have "assembled ps (full_packet s)" using assms by (auto simp: assembled_def)
  with True assms(1) show ?thesis
    by (simp add: forward_if_full_def udp_forward_def udp_reset_def traced_def)
next
  case False
  with assms show ?thesis by (auto simp: forward_if_full_def traced_def)
qed

lemma first_fragment_traced:
  assumes "traced ps s" and "count (in_packet i) = 0" and "declared_size (in_packet i) = Some n"
  shows "traced (ps @ [in_packet i]) (first_fragment i n s)"
proof -
  let ?p = "in_packet i"
  let ?s = "(udp_reset s)\<lparr>current_id := Some (flow_id ?p), expected_size := n,
    full_packet := pkt_data ?p, last_activity := in_now i\<rparr>"
  have "first_fragment i n s \<in> {s, forward_if_full ?s}"
    by (simp add: first_fragment_def Let_def udp_reset_def)
  moreover have "traced (ps @ [?p]) (forward_if_full ?s)"
    using assms(1) flow_in_first [OF assms(2,3), of ps] assembled_later
    by (intro traced_take [where x = "flow_id ?p" and fs = "[?p]"])
      (auto simp: udp_reset_def traced_def list_all_iff)
  ultimately show ?thesis using traced_later [OF assms(1)] by auto
qed

lemma next_fragment_traced:
  assumes "traced ps s" and "count (in_packet i) \<noteq> 0" and "declared_size (in_packet i) = Some n"
  shows "traced (ps @ [in_packet i]) (next_fragment i n s)"
proof -
  let ?p = "in_packet i"
  let ?s = "s\<lparr>full_packet := full_packet s @ pkt_data ?p, previous_count := count ?p, last_activity := in_now i\<rparr>"
  have "next_fragment i n s \<in> {s, udp_reset s} \<or> next_fragment i n s = forward_if_full ?s
      \<and> current_id s = Some (flow_id ?p) \<and> count ?p = add64 (previous_count s) 1 \<and> n = expected_size s"
    by (simp add: next_fragment_def Let_def)
  moreover have "traced (ps @ [?p]) (forward_if_full ?s)"
    if c: "current_id s = Some (flow_id ?p)" "count ?p = add64 (previous_count s) 1" "n = expected_size s"
  proof -
    obtain fs where fs: "flow_in ps (flow_id ?p) (expected_size s) fs" "length fs = previous_count s + 1"
      "full_packet s = concat (map pkt_data fs)" "previous_count s < 2 ^ 64"
      using assms(1) c(1) by (auto simp: traced_def)
    have cnt: "count ?p = previous_count s + 1" "count ?p < 2 ^ 64"
    proof -
      have "previous_count s + 1 < 2 ^ 64"
      proof (rule ccontr)
        assume "\<not> previous_count s + 1 < 2 ^ 64"
        then have "previous_count s + 1 = 2 ^ 64" using fs(4) by linarith
        then have "count ?p = 0" using c(2) by (simp add: add64_def)
        with assms(2) show False ..
      qed
      then show "count ?p = previous_count s + 1" "count ?p < 2 ^ 64" using c(2) by simp_all
    qed
    show ?thesis
    proof (rule traced_take [where x = "flow_id ?p" and fs = "fs @ [?p]"])
      show "list_all (assembled (ps @ [?p])) (udp_sent ?s)"
        using assms(1) assembled_later by (auto simp: traced_def list_all_iff)
      show "flow_in (ps @ [?p]) (flow_id ?p) (expected_size ?s) (fs @ [?p])"
        using flow_in_next [OF fs(1)] cnt(1) fs(2) assms(3) c(3) by simp
      show "previous_count ?s < 2 ^ 64" using cnt(2) by simp
    qed (simp_all add: c(1) fs(2,3) cnt(1))
  qed
  ultimately show ?thesis
    using traced_later [OF assms(1)] traced_reset [OF traced_later [OF assms(1)]] by auto
qed

lemma udp_step_traced: "traced ps s \<Longrightarrow> traced (ps @ [in_packet i]) (udp_step s i)"
  by (auto simp: udp_step_def traced_later first_fragment_traced next_fragment_traced split: option.split)

lemma udp_run_traced: "traced ps s \<Longrightarrow> traced (ps @ map in_packet is) (udp_run s is)"
proof (induction "is" arbitrary: ps s)
  case (Cons i "is")
  from Cons.IH [OF udp_step_traced [OF Cons.prems]] show ?case by (simp add: udp_run_def)
qed (simp add: udp_run_def)

lemma traced_new: "traced [] (new_udp_state now)"
  by (simp add: traced_def new_udp_state_def)

section \<open>A complete copy is delivered\<close>

definition udp_open :: "bytes \<Rightarrow> bytes \<Rightarrow> nat \<Rightarrow> bytes list \<Rightarrow> udp_state \<Rightarrow> bool" where
  "udp_open x data k sent s \<longleftrightarrow>
     current_id s = Some x \<and> full_packet s = take (k * CHUNK_SIZE) data \<and> previous_count s + 1 = k
     \<and> expected_size s = length data \<and> udp_sent s = sent"

definition udp_done :: "bytes list \<Rightarrow> udp_state \<Rightarrow> bool" where
  "udp_done sent s \<longleftrightarrow> current_id s = None \<and> udp_sent s = sent"

lemma take_next_chunk: "take (k * CHUNK_SIZE) data @ file_chunk data k = take (Suc k * CHUNK_SIZE) data"
  using take_add [of "k * CHUNK_SIZE" CHUNK_SIZE data] by (simp add: file_chunk_def add.commute)

text \<open>After a fragment: complete or still open.\<close>

definition udp_after :: "bytes \<Rightarrow> bytes \<Rightarrow> nat \<Rightarrow> bytes list \<Rightarrow> udp_state \<Rightarrow> bool" where
  "udp_after x data k sent s \<longleftrightarrow>
     (if k = total_chunks (length data) then udp_done (sent @ [data]) s else udp_open x data k sent s)"

lemma length_prefix_full:
  assumes "k \<le> total_chunks (length data)"
  shows "length (take (k * CHUNK_SIZE) data) = length data \<longleftrightarrow> k = total_chunks (length data)"
  using assms less_total_chunks [of k "length data"] by (auto simp: min_def)

lemma udp_after_forward:
  assumes "udp_open x data k sent s" and "k \<le> total_chunks (length data)"
  shows "udp_after x data k sent (forward_if_full s)"
proof (cases "k = total_chunks (length data)")
  case True
  then have "full_packet s = data"
    using assms(1) less_total_chunks [of k "length data"] by (simp add: udp_open_def)
  with assms(1) True show ?thesis
    by (simp add: udp_after_def udp_done_def forward_if_full_def udp_forward_def udp_reset_def udp_open_def)
next
  case False
  then have "length (full_packet s) \<noteq> expected_size s"
    using assms length_prefix_full [OF assms(2)] by (simp add: udp_open_def)
  with assms(1) False show ?thesis by (simp add: udp_after_def forward_if_full_def)
qed

lemma chunk_fits:
  assumes "k < total_chunks (length data)"
  shows "file_chunk data k \<noteq> []" "length (file_chunk data k) \<le> CHUNK_SIZE"
    "length (take (k * CHUNK_SIZE) data) + length (file_chunk data k) \<le> length data"
proof -
  show "file_chunk data k \<noteq> []" using assms by (rule file_chunk_pos)
  show "length (file_chunk data k) \<le> CHUNK_SIZE" by (simp add: length_file_chunk chunk_len_le)
  have "length (take (k * CHUNK_SIZE) data) + length (file_chunk data k) = length (take (Suc k * CHUNK_SIZE) data)"
    unfolding take_next_chunk [symmetric] by simp
  then show "length (take (k * CHUNK_SIZE) data) + length (file_chunk data k) \<le> length data" by simp
qed

text \<open>One fragment of the copy, the first over any state that is idle or holds the same flow.\<close>

lemma first_copy_step:
  assumes "length data \<le> 65535" and "data \<noteq> []"
    and "in_packet i = udp_fragment md5 now data 0"
    and "current_id s \<in> {None, Some (take 8 (md5_hex md5 (fmt_dec now)))}
      \<or> in_elapsed_at i - last_activity s > UDP_FLOW_TIMEOUT"
  shows "udp_after (take 8 (md5_hex md5 (fmt_dec now))) data 1 (udp_sent s) (udp_step s i)"
proof -
  let ?x = "take 8 (md5_hex md5 (fmt_dec now))"
  have T: "0 < total_chunks (length data)" using assms(2) less_total_chunks [of 0 "length data"] by simp
  note fit = chunk_fits [OF T]
  note fields = udp_fragment_fields [OF assms(1), of md5 now 0]
  let ?s = "(udp_reset s)\<lparr>current_id := Some ?x, expected_size := length data,
    full_packet := file_chunk data 0, last_activity := in_now i\<rparr>"
  have "udp_step s i = first_fragment i (length data) s"
    by (simp add: udp_step_def assms(3) fields) (simp add: udp_fragment_def)
  also have "\<dots> = forward_if_full ?s"
    using assms fit fields(2)
    by (auto simp: first_fragment_def Let_def udp_reset_def udp_fragment_def UDP_MAX_FORWARD_BYTES_def
        split: option.split)
  finally have step: "udp_step s i = forward_if_full ?s" .
  have "udp_open ?x data 1 (udp_sent s) ?s"
    using take_next_chunk [of 0 data] by (simp add: udp_open_def udp_reset_def)
  from udp_after_forward [OF this] T show ?thesis unfolding step by simp
qed

lemma next_copy_step:
  assumes "length data \<le> 65535" and "k < total_chunks (length data)" and "0 < k"
    and "in_packet i = udp_fragment md5 now data k"
    and "udp_open (take 8 (md5_hex md5 (fmt_dec now))) data k sent s"
  shows "udp_after (take 8 (md5_hex md5 (fmt_dec now))) data (Suc k) sent (udp_step s i)"
proof -
  let ?x = "take 8 (md5_hex md5 (fmt_dec now))"
  note fit = chunk_fits [OF assms(2)] and fields = udp_fragment_fields [OF assms(1), of md5 now k]
  let ?s = "s\<lparr>full_packet := full_packet s @ file_chunk data k, previous_count := k, last_activity := in_now i\<rparr>"
  have T: "total_chunks (length data) \<le> 65535"
    using assms(1) div_ceil_le [OF chunk_size_pos, of "length data"] unfolding total_chunks_def by linarith
  have cnt: "add64 (previous_count s) 1 = k"
    using assms(2,5) T by (simp add: udp_open_def)
  have "udp_step s i = next_fragment i (length data) s"
    using assms(3) by (simp add: udp_step_def assms(4) fields) (simp add: udp_fragment_def)
  also have "\<dots> = forward_if_full ?s"
    using fit fields(2) cnt assms(5)
    by (simp add: next_fragment_def Let_def assms(4) udp_open_def) (simp add: udp_fragment_def)
  finally have step: "udp_step s i = forward_if_full ?s" .
  have "udp_open ?x data (Suc k) sent ?s"
    using assms(5) take_next_chunk [of k data] by (simp add: udp_open_def)
  from udp_after_forward [OF this] assms(2) show ?thesis unfolding step by simp
qed

lemma udp_copy_run:
  assumes "length data \<le> 65535" and "data \<noteq> []"
    and "map in_packet is = udp_copy md5 now data"
    and "current_id s \<in> {None, Some (take 8 (md5_hex md5 (fmt_dec now)))}
      \<or> in_elapsed_at (hd is) - last_activity s > UDP_FLOW_TIMEOUT"
  shows "udp_done (udp_sent s @ [data]) (udp_run s is)"
proof -
  let ?x = "take 8 (md5_hex md5 (fmt_dec now))" and ?T = "total_chunks (length data)"
  have T: "0 < ?T" using assms(2) less_total_chunks [of 0 "length data"] by simp
  have len: "length is = ?T" using arg_cong [OF assms(3), of length] by (simp add: udp_copy_def)
  have frag: "in_packet (is ! k) = udp_fragment md5 now data k" if "k < ?T" for k
    using arg_cong [OF assms(3), of "\<lambda>l. l ! k"] that len by (simp add: udp_copy_def)
  have "udp_after ?x data k (udp_sent s) (foldl udp_step s (take k is))" if "0 < k" "k \<le> ?T" for k
    using that
  proof (induction k)
    case (Suc k)
    have tk: "foldl udp_step s (take (Suc k) is) = udp_step (foldl udp_step s (take k is)) (is ! k)"
      using Suc.prems(2) len by (simp add: take_Suc_conv_app_nth)
    show ?case
    proof (cases "k = 0")
      case True
      have "in_packet (is ! 0) = udp_fragment md5 now data 0" using frag [OF T] .
      moreover have "is ! 0 = hd is" using len T by (intro hd_conv_nth [symmetric]) auto
      ultimately show ?thesis
        using first_copy_step [OF assms(1,2), of "is ! 0" md5 now s] assms(4) unfolding tk by (simp add: True)
    next
      case False
      then have k: "0 < k" "k < ?T" using Suc.prems(2) by simp_all
      have "udp_open ?x data k (udp_sent s) (foldl udp_step s (take k is))"
        using Suc.IH k by (simp add: udp_after_def)
      from next_copy_step [OF assms(1) k(2,1) frag [OF k(2)] this] show ?thesis unfolding tk .
    qed
  qed simp
  from this [OF T order_refl] len show ?thesis by (simp add: udp_after_def udp_run_def)
qed

section \<open>Loss, and traffic of other flows\<close>

lemma udp_step_sent: "prefix (udp_sent s) (udp_sent (udp_step s i))"
  by (simp add: udp_step_def first_fragment_def next_fragment_def forward_if_full_def udp_forward_def
      udp_reset_def Let_def split: option.split)

lemma udp_run_sent: "prefix (udp_sent s) (udp_sent (udp_run s is))"
proof (induction "is" arbitrary: s)
  case (Cons i "is")
  show ?case
    using prefix_order.trans [OF udp_step_sent Cons.IH, of s i] by (simp add: udp_run_def)
qed (simp add: udp_run_def)

text \<open>Packets of one flow leave the forwarder idle or in that flow.\<close>

lemma udp_step_same_flow:
  "flow_id (in_packet i) = x \<Longrightarrow> current_id s \<in> {None, Some x} \<Longrightarrow> current_id (udp_step s i) \<in> {None, Some x}"
  by (auto simp: udp_step_def first_fragment_def next_fragment_def forward_if_full_def udp_forward_def
      udp_reset_def Let_def split: option.split)

lemma udp_run_same_flow:
  "list_all (\<lambda>i. flow_id (in_packet i) = x) is \<Longrightarrow> current_id s \<in> {None, Some x} \<Longrightarrow>
    current_id (udp_run s is) \<in> {None, Some x}"
proof (induction "is" arbitrary: s)
  case (Cons i "is")
  then have "current_id (udp_step s i) \<in> {None, Some x}" by (intro udp_step_same_flow) simp_all
  with Cons show ?case by (simp add: udp_run_def)
qed (simp add: udp_run_def)

lemma udp_run_append: "udp_run s (is @ js) = udp_run (udp_run s is) js"
  by (simp add: udp_run_def)

lemma udp_step_foreign:
  assumes "current_id s = Some x" and "flow_id (in_packet i) \<noteq> x"
    and "in_elapsed_at i - last_activity s \<le> UDP_FLOW_TIMEOUT"
  shows "udp_step s i = s"
  using assms by (auto simp: udp_step_def first_fragment_def next_fragment_def Let_def split: option.split)

end
