(* ===== verification/Udp_Props.thy ===== *)
theory Udp_Props
  imports Udp_Facts
begin

text \<open>The properties of the receiver's datagram forwarder.\<close>

text \<open>C17. Nothing partial, mixed or rewritten is ever forwarded. Whatever packets are taken from the
  queue and whatever the clock reads, every datagram handed to the internal host is the concatenation,
  in order, of the payloads of fragments 0, 1, ... of one flow, that came in this order and all
  declared exactly the length of that datagram.\<close>

theorem forwarded_is_assembled:
  "list_all (assembled (map in_packet is)) (udp_sent (udp_run (new_udp_state now) is))"
  using udp_run_traced [OF traced_new, of "is" now] by (simp add: traced_def)

text \<open>C24. Bounds. In every state the forwarder reaches, a flow in progress holds at least one byte and
  fewer than it declared, at most 4 MiB (so the subtraction that computes the remaining length cannot
  underflow), between flows nothing is held, and every forwarded datagram has 1 to 4 Mi bytes.\<close>

theorem forwarder_bounded:
  "let s = udp_run (new_udp_state now) is in
     (case current_id s of
        None \<Rightarrow> full_packet s = []
      | Some _ \<Rightarrow> 0 < length (full_packet s) \<and> length (full_packet s) < expected_size s
          \<and> expected_size s \<le> 4194304)
     \<and> list_all (\<lambda>d. 0 < length d \<and> length d \<le> 4194304) (udp_sent s)"
  using udp_run_inv [OF udp_inv_new, of now "is"]
  by (auto simp: Let_def udp_inv_def UDP_MAX_FORWARD_BYTES_def list_all_iff split: option.splits)

text \<open>C23. A flow in progress is not pre-empted: packets of other flows, whatever their numbers, sizes
  and payloads, leave the forwarder exactly as it is, as long as they come within two seconds of the
  last accepted fragment.\<close>

theorem flow_not_preempted:
  assumes "current_id s = Some x"
    and "list_all (\<lambda>i. flow_id (in_packet i) \<noteq> x \<and> in_elapsed_at i - last_activity s \<le> UDP_FLOW_TIMEOUT) is"
  shows "udp_run s is = s"
  using assms
proof (induction "is")
  case (Cons i "is")
  then have "udp_step s i = s" by (intro udp_step_foreign [OF Cons.prems(1)]) auto
  with Cons show ?case by (simp add: udp_run_def)
qed (simp add: udp_run_def)

definition example_flow :: udp_state where
  "example_flow = \<lparr>current_id = Some (replicate 8 48), full_packet = [1], previous_count = 0,
     expected_size = 2, last_activity = 5, udp_sent = []\<rparr>"

definition example_intruder :: udp_input where
  "example_intruder = \<lparr>in_packet = \<lparr>pkg_type = PKG_TYPE_UDP, count = 0, pkt_path_hash = encode_parity_field 1,
     pkt_data_hash = replicate 32 49, pkt_data = [9]\<rparr>, in_elapsed_at = 2000000005, in_now = 7\<rparr>"

theorem flow_not_preempted_witness: "udp_run example_flow [example_intruder, example_intruder] = example_flow"
proof (rule flow_not_preempted)
  show "current_id example_flow = Some (replicate 8 48)" by (simp add: example_flow_def)
  have "flow_id (in_packet example_intruder) \<noteq> replicate 8 48" by code_simp
  then show "list_all (\<lambda>i. flow_id (in_packet i) \<noteq> replicate 8 48
      \<and> in_elapsed_at i - last_activity example_flow \<le> UDP_FLOW_TIMEOUT) [example_intruder, example_intruder]"
    by (simp add: example_flow_def UDP_FLOW_TIMEOUT_def) (simp add: example_intruder_def)
qed

text \<open>C21. Recovery. However the forwarder was left, with whatever flow half received, a complete copy of
  a datagram is delivered if it is of the same flow, or no flow is in progress, or its first fragment
  is taken more than two seconds after the last accepted one: no lost fragment can block it for good.\<close>

theorem complete_copy_delivered:
  assumes "1 \<le> length data" and "length data \<le> 65535"
    and "map in_packet is = udp_copy md5 now data"
    and "current_id s \<in> {None, Some (take 8 (md5_hex md5 (fmt_dec now)))}
      \<or> in_elapsed_at (hd is) - last_activity s > UDP_FLOW_TIMEOUT"
  shows "udp_sent (udp_run s is) = udp_sent s @ [data] \<and> current_id (udp_run s is) = None"
proof -
  have "data \<noteq> []" using assms(1) by auto
  from udp_copy_run [OF assms(2) this assms(3,4)] show ?thesis by (simp add: udp_done_def)
qed

theorem complete_copy_delivered_witness:
  "udp_sent (udp_run example_flow
     [\<lparr>in_packet = udp_fragment (\<lambda>_. replicate 16 0) 3 [4, 5] 0, in_elapsed_at = 3000000000, in_now = 3000000001\<rparr>])
   = [[4, 5]]"
proof -
  have T: "total_chunks 2 = 1" by (simp add: total_chunks_def div_ceil_def CHUNK_SIZE_def)
  show ?thesis
    using complete_copy_delivered [of "[4, 5]" "[\<lparr>in_packet = udp_fragment (\<lambda>_. replicate 16 0) 3 [4, 5] 0,
        in_elapsed_at = 3000000000, in_now = 3000000001\<rparr>]" "\<lambda>_. replicate 16 0" 3 example_flow]
    by (simp add: udp_copy_def T [unfolded numeral_2_eq_2] example_flow_def UDP_FLOW_TIMEOUT_def)
qed

text \<open>C22. Loss. The sender sends every datagram twice; if either copy arrives complete, with any part of
  the other before or after it, the datagram is delivered.\<close>

theorem one_copy_suffices:
  assumes "1 \<le> length data" and "length data \<le> 65535" and "current_id s = None"
    and "subseq (map in_packet is) (udp_copy md5 now data)" and "subseq (map in_packet js) (udp_copy md5 now data)"
    and "map in_packet is = udp_copy md5 now data \<or> map in_packet js = udp_copy md5 now data"
  shows "data \<in> set (udp_sent (udp_run s (is @ js)))"
proof -
  let ?x = "take 8 (md5_hex md5 (fmt_dec now))"
  have ne: "data \<noteq> []" using assms(1) by auto
  have "set (map in_packet is) \<subseteq> set (udp_copy md5 now data)"
    using assms(4) by (auto elim!: list_emb_set)
  then have flow: "list_all (\<lambda>i. flow_id (in_packet i) = ?x) is"
    using udp_fragment_fields(2) [OF assms(2)] by (fastforce simp: list_all_iff udp_copy_def)
  from assms(6) show ?thesis
  proof
    assume "map in_packet is = udp_copy md5 now data"
    from udp_copy_run [OF assms(2) ne this] assms(3)
    have "data \<in> set (udp_sent (udp_run s is))" by (simp add: udp_done_def)
    with udp_run_sent [of "udp_run s is" js] show ?thesis by (auto simp: udp_run_append prefix_def)
  next
    assume "map in_packet js = udp_copy md5 now data"
    moreover have "current_id (udp_run s is) \<in> {None, Some ?x}"
      using assms(3) by (intro udp_run_same_flow [OF flow]) simp
    ultimately have "udp_done (udp_sent (udp_run s is) @ [data]) (udp_run (udp_run s is) js)"
      using udp_copy_run [OF assms(2) ne, of js md5 now "udp_run s is"] by blast
    then show ?thesis by (simp add: udp_done_def udp_run_append)
  qed
qed

text \<open>The only fragment of a small datagram, the first copy lost.\<close>

theorem one_copy_suffices_witness:
  "[4, 5] \<in> set (udp_sent (udp_run (new_udp_state 0)
     ([] @ [\<lparr>in_packet = udp_fragment (\<lambda>_. replicate 16 0) 3 [4, 5] 0, in_elapsed_at = 1, in_now = 2\<rparr>])))"
proof (rule one_copy_suffices)
  have "total_chunks 2 = 1" by (simp add: total_chunks_def div_ceil_def CHUNK_SIZE_def)
  then have T: "udp_copy (\<lambda>_. replicate 16 0) 3 [4, 5] = [udp_fragment (\<lambda>_. replicate 16 0) 3 [4, 5] 0]"
    by (simp add: udp_copy_def numeral_2_eq_2)
  show "map in_packet [] = udp_copy (\<lambda>_. replicate 16 0) 3 [4, 5] \<or>
      map in_packet [\<lparr>in_packet = udp_fragment (\<lambda>_. replicate 16 0) 3 [4, 5] 0, in_elapsed_at = 1, in_now = 2\<rparr>]
        = udp_copy (\<lambda>_. replicate 16 0) 3 [4, 5]"
    and "subseq (map in_packet [\<lparr>in_packet = udp_fragment (\<lambda>_. replicate 16 0) 3 [4, 5] 0, in_elapsed_at = 1, in_now = 2\<rparr>])
        (udp_copy (\<lambda>_. replicate 16 0) 3 [4, 5])"
    by (simp_all add: T)
qed (simp_all add: new_udp_state_def)

end
