(* ===== verification/Sender_Props.thy ===== *)
theory Sender_Props
  imports Examples
begin

text \<open>
  The properties of the file sender: the back-off and what it does when the kernel never takes a
  datagram, reading chunks, and the order in which a file is sent and its source removed, under any
  answers of the kernel and the file system.
\<close>

section \<open>Back-off\<close>

lemma min_double: "1 \<le> i \<Longrightarrow> min (min (2 ^ i) m * 2) m = min (2 ^ Suc i) (m :: nat)"
  by (auto simp: min_def)

text \<open>The pause before attempt \<open>i + 1\<close>: one millisecond, then doubling up to the limit.\<close>

definition pause :: "nat \<Rightarrow> nat \<Rightarrow> nat" where
  "pause max_backoff i = (if i = 0 then ENOBUFS_INITIAL_BACKOFF else min (2 ^ i) max_backoff)"

lemma pause_Suc: "min (pause mb i * 2) mb = pause mb (Suc i)"
  by (cases i) (simp_all add: pause_def ENOBUFS_INITIAL_BACKOFF_def min_double del: power_Suc)

lemma send_loop_backoff:
  assumes "\<And>i. i < n \<Longrightarrow> outcomes t (attempts t + i) = Enobufs" and "outcomes t (attempts t + n) = Sent"
  shows "send_loop mb p (pause mb k) t =
    Some (True, t\<lparr>wire := wire t @ [p], attempts := attempts t + n + 1,
      sleeps := sleeps t @ map (pause mb) [k..<k + n], pacer_waits := pacer_waits t + 1\<rparr>)"
  using assms
proof (induction n arbitrary: k t)
  case 0
  then show ?case by (subst send_loop.simps) (simp add: Let_def)
next
  case (Suc n)
  let ?t = "t\<lparr>attempts := attempts t + 1, sleeps := sleeps t @ [pause mb k]\<rparr>"
  have "outcomes t (attempts t) = Enobufs" using Suc.prems(1) [of 0] by simp
  then have "send_loop mb p (pause mb k) t = send_loop mb p (pause mb (Suc k)) ?t"
    by (subst send_loop.simps) (simp add: Let_def pause_Suc)
  also have "\<dots> = Some (True, ?t\<lparr>wire := wire ?t @ [p], attempts := attempts ?t + n + 1,
      sleeps := sleeps ?t @ map (pause mb) [Suc k..<Suc k + n], pacer_waits := pacer_waits ?t + 1\<rparr>)"
  proof (rule Suc.IH)
    show "outcomes ?t (attempts ?t + i) = Enobufs" if "i < n" for i
      using Suc.prems(1) [of "Suc i"] that by simp
    show "outcomes ?t (attempts ?t + n) = Sent" using Suc.prems(2) by simp
  qed
  moreover have "[k..<k + Suc n] = k # [Suc k..<Suc k + n]" by (simp add: upt_conv_Cons del: upt_Suc)
  ultimately show ?case by (simp del: upt_Suc)
qed

text \<open>C20. Back-off. If the kernel reports no buffer space \<open>n\<close> times and then takes the datagram, the
  call returns, has handed over exactly that datagram, once, has consulted the pacer once, and has
  paused 1, 2, 4, ... milliseconds, never more than the configured maximum after the first pause.\<close>

theorem send_backoff:
  assumes "\<forall>i < n. outcomes t (attempts t + i) = Enobufs" and "outcomes t (attempts t + n) = Sent"
  shows "send_to_blocking max_backoff p t =
    Some (True, t\<lparr>wire := wire t @ [p], attempts := attempts t + n + 1,
      sleeps := sleeps t @ map (\<lambda>i. if i = 0 then 1 else min (2 ^ i) max_backoff) [0..<n],
      pacer_waits := pacer_waits t + 1\<rparr>)"
proof -
  have "pause max_backoff = (\<lambda>i. if i = 0 then 1 else min (2 ^ i) max_backoff)"
    by (simp add: fun_eq_iff pause_def ENOBUFS_INITIAL_BACKOFF_def)
  then show ?thesis
    using send_loop_backoff [of n t max_backoff p 0] assms
    by (simp add: send_to_blocking_def pause_def ENOBUFS_INITIAL_BACKOFF_def)
qed

definition busy_tx :: tx where
  "busy_tx = \<lparr>wire = [], outcomes = \<lambda>n. if n < 4 then Enobufs else Sent, attempts = 0, sleeps = [],
              pacer_waits = 0, removed = []\<rparr>"

theorem send_backoff_witness: "map_option (\<lambda>(ok, t). (ok, sleeps t, wire t)) (send_to_blocking 5 [1, 2] busy_tx)
    = Some (True, [1, 2, 4, 5], [[1, 2]])"
  using send_backoff [of 4 busy_tx 5 "[1, 2]"] by (simp add: busy_tx_def eval_nat_numeral)

section \<open>Returning\<close>

lemma send_loop_returns:
  assumes "send_loop mb p b t = Some r"
  shows "\<exists>m \<ge> attempts t. outcomes t m \<noteq> Enobufs"
proof (rule send_loop.raw_induct [where P = "\<lambda>mb p b t r. \<exists>m \<ge> attempts t. outcomes t m \<noteq> Enobufs",
      OF _ assms], goal_cases)
  case (1 loop mb p b t r)
  show ?case
  proof (cases "outcomes t (attempts t) = Enobufs")
    case True
    then have "loop mb p (min (b * 2) mb) (t\<lparr>attempts := attempts t + 1, sleeps := sleeps t @ [b]\<rparr>) = Some r"
      using 1(2) by (simp add: Let_def)
    from 1(1) [OF this] show ?thesis by (auto dest: Suc_leD)
  next
    case False
    then show ?thesis by blast
  qed
qed

lemma send_loop_total:
  assumes "attempts t \<le> m" and "outcomes t m \<noteq> Enobufs"
  shows "send_loop mb p b t \<noteq> None"
  using assms
proof (induction "m - attempts t" arbitrary: b t)
  case 0
  then have "outcomes t (attempts t) \<noteq> Enobufs" by simp
  then show ?case by (cases "outcomes t (attempts t)"; subst send_loop.simps) (simp_all add: Let_def)
next
  case (Suc d)
  show ?case
  proof (cases "outcomes t (attempts t) = Enobufs")
    case True
    have "send_loop mb p (min (b * 2) mb) (t\<lparr>attempts := attempts t + 1, sleeps := sleeps t @ [b]\<rparr>) \<noteq> None"
      using Suc True by (intro Suc(1)) (auto simp: le_less)
    with True show ?thesis by (subst send_loop.simps) (simp add: Let_def)
  next
    case False
    then show ?thesis by (cases "outcomes t (attempts t)"; subst send_loop.simps) (simp_all add: Let_def)
  qed
qed

text \<open>C19. When sending returns. A call of \<open>send_to_blocking\<close> returns exactly if the kernel at some later
  attempt answers with anything but lack of buffer space: there is no limit on the attempts, and a
  kernel that stays full blocks the sender for ever.\<close>

theorem send_returns_iff:
  "(\<exists>r. send_to_blocking max_backoff p t = Some r) = (\<exists>m \<ge> attempts t. outcomes t m \<noteq> Enobufs)"
  unfolding send_to_blocking_def using send_loop_returns send_loop_total by (metis not_None_eq)

section \<open>Sending and removing\<close>

text \<open>What a call may do to the wire and to the source files before the end of a file.\<close>

definition extends :: "tx \<Rightarrow> tx \<Rightarrow> bool" where
  "extends t t' \<longleftrightarrow> prefix (wire t) (wire t') \<and> removed t' = removed t"

lemma extends_refl [simp]: "extends t t"
  by (simp add: extends_def)

lemma extends_trans: "extends t u \<Longrightarrow> extends u v \<Longrightarrow> extends t v"
  by (auto simp: extends_def intro: prefix_order.trans)

lemma send_loop_extends:
  assumes "send_loop mb p b t = Some r"
  shows "extends t (snd r) \<and> wire (snd r) = wire t @ (if fst r then [p] else [])"
proof (rule send_loop.raw_induct [where P = "\<lambda>mb p b t r. extends t (snd r)
      \<and> wire (snd r) = wire t @ (if fst r then [p] else [])", OF _ assms], goal_cases)
  case (1 loop mb p b t r)
  show ?case
  proof (cases "outcomes t (attempts t) = Enobufs")
    case True
    then have "loop mb p (min (b * 2) mb) (t\<lparr>attempts := attempts t + 1, sleeps := sleeps t @ [b]\<rparr>) = Some r"
      using 1(2) by (simp add: Let_def)
    from 1(1) [OF this] show ?thesis by (simp add: extends_def)
  next
    case False
    with 1(2) show ?thesis by (cases "outcomes t (attempts t)") (auto simp: Let_def extends_def)
  qed
qed

lemma send_to_blocking_extends:
  "send_to_blocking mb p t = Some (ok, t') \<Longrightarrow> extends t t' \<and> wire t' = wire t @ (if ok then [p] else [])"
  using send_loop_extends [of mb p ENOBUFS_INITIAL_BACKOFF t "(ok, t')"] by (simp add: send_to_blocking_def)

lemma send_times_extends:
  "send_times mb n p t = Some (ok, t') \<Longrightarrow> extends t t' \<and> (ok \<longrightarrow> wire t' = wire t @ replicate n p)"
proof (induction n arbitrary: t)
  case (Suc n)
  obtain ok1 u where u: "send_to_blocking mb p t = Some (ok1, u)"
    using Suc.prems by (auto simp: and_then_def split: option.splits)
  note e = send_to_blocking_extends [OF u]
  show ?case
  proof (cases ok1)
    case True
    with u Suc.prems have "send_times mb n p u = Some (ok, t')" by (simp add: and_then_def)
    from Suc.IH [OF this] e True show ?thesis by (auto intro: extends_trans)
  next
    case False
    with u e Suc.prems show ?thesis by (auto simp: and_then_def)
  qed
qed simp

lemma send_with_retry_extends:
  "send_with_retry mb p n t = Some (ok, t') \<Longrightarrow> extends t t' \<and> (ok \<longrightarrow> wire t' = wire t @ replicate (max n 1) p)"
  unfolding send_with_retry_def by (rule send_times_extends)

lemma send_parity_loop_extends: "send_parity_loop md5 mb h base i ps t = Some t' \<Longrightarrow> extends t t'"
proof (induction ps arbitrary: i t)
  case (Cons p ps)
  then obtain ok u where "send_to_blocking mb (encode_packet PKG_TYPE_PARITY (add64 base i) h (md5_hex md5 p) p) t = Some (ok, u)"
    "send_parity_loop md5 mb h base (i + 1) ps u = Some t'"
    by (auto split: option.splits)
  with Cons.IH send_to_blocking_extends extends_trans show ?case by blast
qed simp

lemma send_parity_packets_extends:
  "send_parity_packets md5 enc mb h ps m b t = Some (ok, t') \<Longrightarrow> extends t t'"
  by (auto simp: send_parity_packets_def dest: send_parity_loop_extends split: if_splits option.splits)

lemma send_data_packet_extends:
  "send_data_packet md5 mb h c n t = Some (ok, t') \<Longrightarrow> extends t t'"
  unfolding send_data_packet_def using send_to_blocking_extends by blast

lemma send_chunks_loop_extends:
  "send_chunks_loop md5 enc mb h r s t = Some (x, t') \<Longrightarrow> extends t t'"
proof (induction md5 enc mb h r s t rule: send_chunks_loop.induct)
  case (1 md5 enc mb h r s t)
  note unfold = send_chunks_loop.simps [of md5 enc mb h r s t]
  obtain c r' where rd: "read_chunk r CHUNK_SIZE [] = (c, r')" by force
  show ?case
  proof (cases c)
    case None
    with rd "1.prems" show ?thesis by (simp add: unfold)
  next
    case (Some d)
    show ?thesis
    proof (cases "d = []")
      case True
      with Some rd "1.prems" show ?thesis by (simp add: unfold)
    next
      case False
      obtain ok u where u: "send_data_packet md5 mb h d (sp_count s) t = Some (ok, u)"
        using False Some rd "1.prems" by (auto simp: unfold split: option.splits)
      note eu = send_data_packet_extends [OF u]
      let ?s = "s\<lparr>sp_payloads := sp_payloads s @ [d], sp_count := sp_count s + 1\<rparr>"
      show ?thesis
      proof (cases ok)
        case ok: True
        show ?thesis
        proof (cases "length (sp_payloads ?s) = BATCH_DATA_CHUNKS")
          case True
          then obtain ok2 v where v: "send_parity_packets md5 enc mb h (sp_payloads ?s) BATCH_PARITY_CHUNKS (sp_batch ?s) u = Some (ok2, v)"
            and rest: "send_chunks_loop md5 enc mb h r' (?s\<lparr>sp_payloads := [], sp_batch := sp_batch ?s + 1\<rparr>) v = Some (x, t')"
            using ok u False Some rd "1.prems" by (auto simp: unfold Let_def split: option.splits)
          have "extends v t'"
            using "1.IH"(1) [OF rd [symmetric] Some False u _ _ refl True v _ rest] ok by simp
          with eu send_parity_packets_extends [OF v] show ?thesis by (blast intro: extends_trans)
        next
          case more: False
          then have rest: "send_chunks_loop md5 enc mb h r' ?s u = Some (x, t')"
            using ok u False Some rd "1.prems" by (simp add: unfold Let_def)
          have "extends u t'"
            using "1.IH"(2) [OF rd [symmetric] Some False u _ _ refl more rest] ok by simp
          with eu show ?thesis by (rule extends_trans)
        qed
      next
        case False
        with u eu \<open>d \<noteq> []\<close> Some rd "1.prems" show ?thesis by (simp add: unfold)
      qed
    qed
  qed
qed

text \<open>END three times and then the removal, or no removal.\<close>

lemma send_end_packet_extends:
  assumes "send_end_packet mb remove_ok full_path rel n w = Some (ok, t')"
  shows "if ok then wire t' = wire w @ replicate 3 (end_packet rel n) \<and> removed t' = removed w @ [full_path]
    else extends w t'"
proof -
  obtain ok3 y where y: "send_with_retry mb (end_packet rel n) CONTROL_RESEND w = Some (ok3, y)"
    using assms by (auto simp: send_end_packet_def and_then_def end_packet_def split: option.splits)
  then have "(ok, t') = (if ok3 \<and> remove_ok full_path then (True, y\<lparr>removed := removed y @ [full_path]\<rparr>) else (False, y))"
    using assms by (auto simp: send_end_packet_def and_then_def end_packet_def split: if_splits)
  with send_with_retry_extends [OF y] show ?thesis by (auto simp: extends_def CONTROL_RESEND_def split: if_splits)
qed

section \<open>What a file puts on the wire\<close>

text \<open>
  The datagrams \<open>ws\<close> were handed over in this order, except that recovery packets may be missing:
  one that the kernel refuses is logged and skipped.
\<close>

definition recovery_packet :: "bytes \<Rightarrow> bool" where
  "recovery_packet raw \<longleftrightarrow> take 1 raw = fmt_dec PKG_TYPE_PARITY"

definition sends :: "bytes list \<Rightarrow> tx \<Rightarrow> tx \<Rightarrow> bool" where
  "sends ws t t' \<longleftrightarrow> (\<exists>ys. wire t' = wire t @ ys \<and> subseq ys ws
     \<and> filter (\<lambda>y. \<not> recovery_packet y) ys = filter (\<lambda>y. \<not> recovery_packet y) ws)"

lemma recovery_data [simp]: "\<not> recovery_packet (data_packet md5 rel F k)"
  by (simp add: recovery_packet_def data_packet_def encode_packet_eq fmt_dec_digit digit_def
      PKG_TYPE_DATA_def PKG_TYPE_PARITY_def)

lemma recovery_parity [simp]: "recovery_packet (parity_packet md5 rel b i p)"
  by (simp add: recovery_packet_def parity_packet_def encode_packet_eq fmt_dec_digit PKG_TYPE_PARITY_def)

lemma sends_Nil [simp]: "sends [] t t"
  by (simp add: sends_def)

lemma sends_trans:
  assumes "sends xs t u" and "sends ys u v"
  shows "sends (xs @ ys) t v"
proof -
  let ?data = "filter (\<lambda>y. \<not> recovery_packet y)"
  obtain as bs where "wire u = wire t @ as" "subseq as xs" "?data as = ?data xs"
    "wire v = wire u @ bs" "subseq bs ys" "?data bs = ?data ys"
    using assms unfolding sends_def by blast
  then show ?thesis unfolding sends_def by (intro exI [of _ "as @ bs"]) (simp add: list_emb_append_mono)
qed

lemma send_to_blocking_sends:
  "send_to_blocking mb p t = Some (ok, u) \<Longrightarrow> ok \<or> recovery_packet p \<Longrightarrow> sends [p] t u"
  using send_to_blocking_extends [of mb p t ok u] by (auto simp: sends_def)

lemma send_parity_loop_sends:
  "send_parity_loop md5 mb (md5_hex md5 rel) (mul64 b BATCH_PARITY_CHUNKS) i ps t = Some u \<Longrightarrow>
    sends (map (\<lambda>(i, p). parity_packet md5 rel b i p) (enumerate i ps)) t u"
proof (induction ps arbitrary: i t)
  case (Cons p ps)
  obtain ok v where v: "send_to_blocking mb (parity_packet md5 rel b i p) t = Some (ok, v)"
    "send_parity_loop md5 mb (md5_hex md5 rel) (mul64 b BATCH_PARITY_CHUNKS) (i + 1) ps v = Some u"
    using Cons.prems by (auto simp: parity_packet_def split: option.splits)
  from sends_trans [OF send_to_blocking_sends [OF v(1)] Cons.IH [OF v(2)]] show ?case by simp
qed simp

lemma send_parity_packets_sends:
  assumes "send_parity_packets md5 enc mb (md5_hex md5 rel) (batch_payloads F b) BATCH_PARITY_CHUNKS b t = Some (ok, u)"
    and "batch_payloads F b \<noteq> []"
  shows "sends (parity_wire md5 enc rel F b) t u"
  using assms send_parity_loop_sends [of md5 mb rel b 0 _ t u]
  by (auto simp: send_parity_packets_def parity_wire_def batch_parity_def BATCH_PARITY_CHUNKS_def split: option.splits)

lemma read_chunk_Some:
  assumes "read_chunk r n [] = (Some d, r')"
  shows "d = take n (rd_rest r)" and "rd_rest r' = drop n (rd_rest r)"
proof -
  have "length d \<le> n \<and> (length d < n \<longrightarrow> rd_rest r' = [])"
    if "read_chunk r n acc = (Some d, r')" "length acc \<le> n" for acc
    using that
  proof (induction r n acc rule: read_chunk.induct)
    case (1 r n acc)
    note unfold = read_chunk.simps [of r n acc]
    show ?case
    proof (cases "length acc < n")
      case True
      obtain x r1 where rd: "read r (n - length acc) = (x, r1)" by force
      show ?thesis
      proof (cases x)
        case (Got e)
        note got = read_Got [OF rd [unfolded Got]]
        show ?thesis
        proof (cases "e = []")
          case True
          with \<open>length acc < n\<close> rd Got "1.prems" got(1,3) show ?thesis by (simp add: unfold)
        next
          case False
          have "read_chunk r1 n (acc @ e) = (Some d, r')" using True rd Got False "1.prems"(1) by (simp add: unfold)
          moreover have "length (acc @ e) \<le> n" using got(2) True by simp
          ultimately show ?thesis by (rule "1.IH"(1) [OF True rd [symmetric] Got False])
        qed
      next
        case WasInterrupted
        with True rd "1.prems"(1) have "read_chunk r1 n acc = (Some d, r')" by (simp add: unfold)
        from "1.IH"(2) [OF True rd [symmetric] WasInterrupted this "1.prems"(2)] show ?thesis .
      next
        case ReadFailed
        with True rd "1.prems" show ?thesis by (simp add: unfold)
      qed
    qed (use "1.prems" in \<open>simp add: unfold\<close>)
  qed
  from this [OF assms] have len: "length d \<le> n" "length d < n \<Longrightarrow> rd_rest r' = []" by simp_all
  have eq: "rd_rest r = d @ rd_rest r'" using read_chunk_conserves [OF assms] by simp
  show "d = take n (rd_rest r)" "rd_rest r' = drop n (rd_rest r)"
    unfolding eq using len by (cases "length d < n"; simp)+
qed

lemma send_chunks_loop_sends:
  assumes "send_chunks_loop md5 enc mb (md5_hex md5 rel) r (loop_state F k) t = Some (Some s, t')"
    and "rd_rest r = drop (k * CHUNK_SIZE) F" and "k \<le> total_chunks (length F)"
  shows "s = loop_state F (total_chunks (length F))
    \<and> sends (concat (map (chunk_wire md5 enc rel F) [k..<total_chunks (length F)])) t t'"
  using assms
proof (induction "total_chunks (length F) - k" arbitrary: k r t)
  case 0
  then have k: "k = total_chunks (length F)" by simp
  then have "rd_rest r = []" using 0(3) drop_chunks_Nil [of k F] by (simp del: drop_eq_Nil)
  with 0(2) read_chunk_Some(1) [of r CHUNK_SIZE] k show ?case
    by (subst (asm) send_chunks_loop.simps) (force split: prod.splits option.splits if_splits)
next
  case (Suc d)
  let ?T = "total_chunks (length F)" and ?h = "md5_hex md5 rel"
  have less: "k < ?T" using Suc(2) by simp
  obtain c r' where c: "read_chunk r CHUNK_SIZE [] = (c, r')" by force
  with Suc(3) obtain c' where c': "c = Some c'"
    by (subst (asm) send_chunks_loop.simps) (auto split: option.splits)
  have rd: "read_chunk r CHUNK_SIZE [] = (Some (file_chunk F k), r')"
    and r': "rd_rest r' = drop (Suc k * CHUNK_SIZE) F"
    using c read_chunk_Some [OF c [unfolded c']] Suc(4) c' by (simp_all add: file_chunk_def add.commute)
  have ne: "file_chunk F k \<noteq> []" using less by (rule file_chunk_pos)
  obtain ok u where u: "send_data_packet md5 mb ?h (file_chunk F k) k t = Some (ok, u)"
    using Suc(3) rd ne by (subst (asm) send_chunks_loop.simps) (auto simp: loop_state_def split: option.splits)
  have ok: "ok" using Suc(3) rd ne u by (subst (asm) send_chunks_loop.simps) (auto simp: loop_state_def split: if_splits)
  have one: "sends [data_packet md5 rel F k] t u"
    using u ok send_to_blocking_sends [of mb "data_packet md5 rel F k" t True u]
    by (simp add: send_data_packet_def data_packet_def)
  let ?ps = "map (file_chunk F) [batch_first (k div BATCH_DATA_CHUNKS)..<Suc k]"
  have upt: "[k..<?T] = k # [Suc k..<?T]" using less by (rule upt_conv_Cons)
  have IH: "s = loop_state F ?T \<and> sends (concat (map (chunk_wire md5 enc rel F) [Suc k..<?T])) v t'"
    if "send_chunks_loop md5 enc mb ?h r' (loop_state F (Suc k)) v = Some (Some s, t')" for v
    using Suc(2) less r' that by (intro Suc(1)) auto
  show ?case
  proof (cases "Suc k mod BATCH_DATA_CHUNKS = 0")
    case True
    have full: "?ps = batch_payloads F (k div BATCH_DATA_CHUNKS)"
      using batch_complete [OF True] less by (simp add: batch_payloads_def batch_end_def min_def)
    have ps: "batch_payloads F (k div BATCH_DATA_CHUNKS) \<noteq> []" unfolding full [symmetric] by simp
    obtain okp v where v: "send_parity_packets md5 enc mb ?h ?ps BATCH_PARITY_CHUNKS (k div BATCH_DATA_CHUNKS) u = Some (okp, v)"
      using Suc(3) rd ne u ok True batch_count [of k]
      by (subst (asm) send_chunks_loop.simps) (auto simp: loop_state_def Suc_diff_le Let_def split: option.splits)
    have "send_chunks_loop md5 enc mb ?h r' (loop_state F (Suc k)) v = Some (Some s, t')"
      using Suc(3) send_chunks_loop_complete [OF True rd ne _ v] u ok by simp
    with IH sends_trans [OF sends_trans [OF one send_parity_packets_sends [OF v [unfolded full] ps]]] True
    show ?thesis by (auto simp: upt chunk_wire_def)
  next
    case False
    have "send_chunks_loop md5 enc mb ?h r' (loop_state F (Suc k)) u = Some (Some s, t')"
      using Suc(3) send_chunks_loop_incomplete [where enc = enc, OF False rd ne] u ok by simp
    with IH sends_trans [OF one] False show ?thesis by (auto simp: upt chunk_wire_def)
  qed
qed

lemma file_data_packets:
  "filter (\<lambda>y. \<not> recovery_packet y) (concat (map (batch_wire md5 enc rel F) [0..<num_batches (length F)]))
    = map (data_packet md5 rel F) [0..<total_chunks (length F)]"
proof -
  have parity: "filter (\<lambda>y. \<not> recovery_packet y) (parity_wire md5 enc rel F b) = []" for b
    by (auto simp: parity_wire_def filter_empty_conv)
  then have chunk: "filter (\<lambda>y. \<not> recovery_packet y) (chunk_wire md5 enc rel F k) = [data_packet md5 rel F k]" for k
    by (simp add: chunk_wire_def)
  have "filter (\<lambda>y. \<not> recovery_packet y) (concat (map (chunk_wire md5 enc rel F) ks)) = map (data_packet md5 rel F) ks" for ks
    by (induction ks) (simp_all add: chunk)
  with parity show ?thesis by (simp flip: batches_of_total [OF refl refl])
qed

text \<open>The datagrams between START and END, when the call gets as far as END.\<close>

lemma send_batches:
  assumes "send_chunks_loop md5 enc mb (md5_hex md5 rel) r \<lparr>sp_count = 0, sp_batch = 0, sp_payloads = []\<rparr> u
      = Some (Some s, v)"
    and "(if sp_payloads s \<noteq> []
      then send_parity_packets md5 enc mb (md5_hex md5 rel) (sp_payloads s) BATCH_PARITY_CHUNKS (sp_batch s) v
      else Some (True, v)) = Some (ok, w)"
  shows "sp_count s = total_chunks (length (rd_rest r))
    \<and> sends (concat (map (batch_wire md5 enc rel (rd_rest r)) [0..<num_batches (length (rd_rest r))])) u w"
proof -
  let ?F = "rd_rest r" let ?T = "total_chunks (length ?F)" let ?q = "?T div BATCH_DATA_CHUNKS"
  have s0: "loop_state ?F 0 = \<lparr>sp_count = 0, sp_batch = 0, sp_payloads = []\<rparr>"
    by (simp add: loop_state_def batch_first_def)
  have s: "s = loop_state ?F ?T" "sends (concat (map (chunk_wire md5 enc rel ?F) [0..<?T])) u v"
    using send_chunks_loop_sends [of md5 enc mb rel r ?F 0 u s v] assms(1) by (simp_all add: s0)
  then have s': "sp_count s = ?T" "sp_batch s = ?q" by (simp_all add: loop_state_def)
  note pay = loop_state_payloads [OF refl refl, of ?F, folded s(1)]
  have "sends (if ?T mod BATCH_DATA_CHUNKS = 0 then [] else parity_wire md5 enc rel ?F ?q) v w"
  proof (cases "?T mod BATCH_DATA_CHUNKS = 0")
    case True
    with pay assms(2) show ?thesis by simp
  next
    case False
    with pay have "batch_payloads ?F ?q \<noteq> []" by auto
    with send_parity_packets_sends [of md5 enc mb rel ?F ?q v ok w] False pay assms(2) s'
    show ?thesis by simp
  qed
  from sends_trans [OF s(2) this] s'(1) show ?thesis unfolding batches_of_total [OF refl refl] by simp
qed

text \<open>C18. What a file puts on the wire, and when its source is removed. Whatever the kernel, the file
  system and the encoder answer: if the call succeeds, it has sent START three times with the length
  the metadata reported; then every data packet of the bytes the opened file held, in order, and the
  recovery packets of each batch after its chunks, where only recovery packets may be
  missing (one the kernel refuses is skipped); then END three times with the number of chunks; and only
  then has it removed the source file. If it fails, at whatever point, no source file is removed.\<close>

theorem source_removed_only_after_end:
  assumes "send_file_chunks md5 enc max_backoff src full_path rel t = Some (ok, t')"
  shows "if ok
    then removed t' = removed t @ [full_path]
      \<and> (\<exists>len r mid. src_len src = Some len \<and> src_open src = Some r
           \<and> wire t' = wire t @ replicate 3 (start_packet md5 rel len) @ mid
               @ replicate 3 (end_packet rel (total_chunks (length (rd_rest r))))
           \<and> subseq mid (concat (map (batch_wire md5 enc rel (rd_rest r)) [0..<num_batches (length (rd_rest r))]))
           \<and> filter (\<lambda>raw. \<not> recovery_packet raw) mid
               = map (data_packet md5 rel (rd_rest r)) [0..<total_chunks (length (rd_rest r))])
    else removed t' = removed t \<and> prefix (wire t) (wire t')"
proof (cases "src_len src")
  case None
  with assms show ?thesis by (auto simp: send_file_chunks_def)
next
  case (Some len)
  let ?h = "md5_hex md5 rel" and ?s0 = "\<lparr>sp_count = 0, sp_batch = 0, sp_payloads = []\<rparr>"
  obtain ok1 u where u: "send_start_packet max_backoff len rel ?h BATCH_PARITY_CHUNKS t = Some (ok1, u)"
    using assms Some by (auto simp: send_file_chunks_def and_then_def Let_def split: option.splits)
  have eu: "extends t u" "ok1 \<longrightarrow> wire u = wire t @ replicate 3 (start_packet md5 rel len)"
    using send_with_retry_extends [of max_backoff "start_packet md5 rel len" CONTROL_RESEND t ok1 u] u
    by (simp_all add: send_start_packet_def start_packet_def CONTROL_RESEND_def)
  show ?thesis
  proof (cases "ok1 \<and> src_open src \<noteq> None")
    case False
    then have "(ok, t') = (False, u)"
      using u assms Some by (cases ok1) (auto simp: send_file_chunks_def and_then_def Let_def)
    with eu show ?thesis by (simp add: extends_def)
  next
    case True
    then obtain r where r: "src_open src = Some r" and ok1 by auto
    obtain x v where v: "send_chunks_loop md5 enc max_backoff ?h r ?s0 u = Some (x, v)"
      using assms Some u r \<open>ok1\<close> by (auto simp: send_file_chunks_def and_then_def Let_def split: option.splits)
    note ev = extends_trans [OF eu(1) send_chunks_loop_extends [OF v]]
    show ?thesis
    proof (cases x)
      case None
      with v ev u r \<open>ok1\<close> assms Some show ?thesis
        by (auto simp: send_file_chunks_def and_then_def Let_def extends_def)
    next
      case (Some s)
      obtain ok2 w where w: "(if sp_payloads s \<noteq> []
          then send_parity_packets md5 enc max_backoff ?h (sp_payloads s) BATCH_PARITY_CHUNKS (sp_batch s) v
          else Some (True, v)) = Some (ok2, w)"
        using assms \<open>src_len src = Some len\<close> u r v Some \<open>ok1\<close>
        by (auto simp: send_file_chunks_def and_then_def Let_def split: option.splits if_splits)
      then have vw: "extends v w" by (auto dest: send_parity_packets_extends split: if_splits)
      have "send_end_packet max_backoff (\<lambda>_. src_remove src) full_path rel (sp_count s) w = Some (ok, t')"
        using assms \<open>src_len src = Some len\<close> u r v Some \<open>ok1\<close> w
        by (simp add: send_file_chunks_def and_then_def Let_def)
      note last = send_end_packet_extends [OF this] and mid = send_batches [OF v [unfolded Some] w]
      have tw: "removed w = removed t" "prefix (wire t) (wire w)"
        using extends_trans [OF ev vw] by (simp_all add: extends_def)
      show ?thesis
      proof (cases ok)
        case True
        with last mid eu(2) \<open>ok1\<close> \<open>src_len src = Some len\<close> r tw show ?thesis
          by (auto simp: sends_def file_data_packets)
      next
        case False
        with last tw show ?thesis by (auto simp: extends_def intro: prefix_order.trans)
      qed
    qed
  qed
qed

text \<open>A file of one chunk, sent over a kernel that is full twice.\<close>

theorem source_removed_only_after_end_witness:
  "\<exists>t' mid. send_file_chunks (env_md5 rep_env) rep_enc 250 example_source (ascii ''s/a'') (ascii ''a'') example_tx
      = Some (True, t') \<and> removed t' = [ascii ''s/a'']
    \<and> wire t' = replicate 3 (start_packet (env_md5 rep_env) (ascii ''a'') 3) @ mid @ replicate 3 (end_packet (ascii ''a'') 1)
    \<and> filter (\<lambda>raw. \<not> recovery_packet raw) mid = [data_packet (env_md5 rep_env) (ascii ''a'') [7, 8, 9] 0]"
proof -
  have "src_len example_source = Some (length [7 :: byte, 8, 9])" "src_open example_source = Some example_reader"
    "rd_rest example_reader = [7, 8, 9]" "reads_ok example_reader" "src_remove example_source"
    by (simp_all add: example_source_def example_reader_def reads_ok_def)
  from send_file_chunks_emits [OF example_accepts this, of "env_md5 rep_env" rep_enc 250 "ascii ''s/a''" "ascii ''a''"]
  obtain t' where t': "send_file_chunks (env_md5 rep_env) rep_enc 250 example_source (ascii ''s/a'') (ascii ''a'') example_tx
      = Some (True, t')" by blast
  have "total_chunks (Suc (Suc (Suc 0))) = 1" by (simp add: total_chunks_def div_ceil_def CHUNK_SIZE_def)
  with source_removed_only_after_end [OF t'] t' show ?thesis
    by (auto simp: example_tx_def example_source_def example_reader_def simp del: ascii_Cons)
qed

text \<open>C25. Reading. If no read fails, filling a buffer of \<open>n\<close> bytes gives exactly the next \<open>n\<close> bytes of the
  file, or all that is left, however the reads are cut short or interrupted; the rest stays to be read.\<close>

theorem read_chunk_exact:
  assumes "reads_ok r"
  shows "\<exists>r'. read_chunk r n [] = (Some (take n (rd_rest r)), r')
    \<and> rd_rest r' = drop n (rd_rest r) \<and> reads_ok r'"
  using read_chunk_full [OF assms, of "[]" n] by simp

theorem read_chunk_exact_witness:
  "\<exists>r'. read_chunk \<lparr>rd_rest = [1, 2, 3], rd_sched = [Interrupted, Short 0]\<rparr> 2 [] = (Some [1, 2], r') \<and> rd_rest r' = [3]"
  using read_chunk_exact [of "\<lparr>rd_rest = [1, 2, 3], rd_sched = [Interrupted, Short 0]\<rparr>" 2]
  by (auto simp: reads_ok_def)

end
