(* ===== verification/Digest.thy ===== *)
theory Digest
  imports Sender_Wire
begin

text \<open>
  Digests of files: the checksum tool of the release workflow (\<open>diode_receive/src/sha256.rs\<close>) and the
  function that digests a received file for the log (\<open>sha256_file\<close> of \<open>diode_receive/src/main.rs\<close>).
  The hasher of the \<open>sha2\<close> crate is a parameter, a record of its calls, of which only the documented
  law is used that feeding a message in pieces is feeding it whole.
\<close>

record 'h hasher =
  sha_new :: 'h
  sha_update :: "'h \<Rightarrow> bytes \<Rightarrow> 'h"
  sha_finalize :: "'h \<Rightarrow> bytes"

definition streams :: "'h hasher \<Rightarrow> (bytes \<Rightarrow> bytes) \<Rightarrow> bool" where
  "streams h digest \<longleftrightarrow> (\<forall>ds. sha_finalize h (foldl (sha_update h) (sha_new h) ds) = digest (concat ds))"

definition hex_encode :: "bytes \<Rightarrow> bytes" where
  "hex_encode s = concat (map fmt_hex2 s)"

section \<open>Digesting a file\<close>

text \<open>The reading loop with a buffer of \<open>n\<close> bytes; \<open>None\<close> if a read fails. Unlike the sender's
  \<open>read_chunk\<close> it also gives up when a read is interrupted.\<close>

function hash_loop :: "'h hasher \<Rightarrow> nat \<Rightarrow> reader \<Rightarrow> 'h \<Rightarrow> 'h option" where
  "hash_loop h n r s =
     (case read r n of
        (Got d, r') \<Rightarrow> if d = [] then Some s else hash_loop h n r' (sha_update h s d)
      | (WasInterrupted, r') \<Rightarrow> None
      | (ReadFailed, r') \<Rightarrow> None)"
  by pat_completeness auto
termination
proof (relation "measure (\<lambda>(h, n, r, s). length (rd_rest r))", goal_cases)
  case (2 h n r s x r' d)
  then have "read r n = (Got d, r')" by simp
  from arg_cong [OF read_Got(1) [OF this], of length] 2 show ?case by (cases d) auto
qed simp

declare hash_loop.simps [simp del]

definition hash_reader :: "'h hasher \<Rightarrow> nat \<Rightarrow> reader option \<Rightarrow> bytes option" where
  "hash_reader h n opened =
     (case opened of
        None \<Rightarrow> None
      | Some r \<Rightarrow> map_option (\<lambda>s. hex_encode (sha_finalize h s)) (hash_loop h n r (sha_new h)))"

definition hash_file :: "'h hasher \<Rightarrow> (bytes \<Rightarrow> reader option) \<Rightarrow> bytes \<Rightarrow> bytes option" where
  "hash_file h open_file path = hash_reader h 1024 (open_file path)"

text \<open>Behind a \<open>BufReader\<close>, whose short answers are short reads like any other.\<close>

definition sha256_file :: "'h hasher \<Rightarrow> (bytes \<Rightarrow> reader option) \<Rightarrow> bytes \<Rightarrow> bytes option" where
  "sha256_file h open_file path = hash_reader h (64 * 1024) (open_file path)"

section \<open>The tool\<close>

datatype exit_code = Exit_Success | Exit_Failure

datatype complaint = Usage | Cannot_Write | Cannot_Hash bytes

text \<open>\<open>can_write k\<close> is whether line \<open>k\<close> can be written to the standard output.\<close>

record sha_out =
  out_lines :: "bytes list"
  complaints :: "complaint list"
  writes :: nat

definition sum_line :: "bytes \<Rightarrow> bytes \<Rightarrow> bytes" where
  "sum_line hex arg = hex @ ascii ''  '' @ arg"

fun hash_args ::
  "'h hasher \<Rightarrow> (bytes \<Rightarrow> reader option) \<Rightarrow> (nat \<Rightarrow> bool) \<Rightarrow> bytes list \<Rightarrow> bool \<Rightarrow> sha_out \<Rightarrow> bool \<times> sha_out" where
  "hash_args h open_file can_write [] any_failed out = (any_failed, out)"
| "hash_args h open_file can_write (arg # args) any_failed out =
     (case hash_file h open_file arg of
        Some hex \<Rightarrow>
          if can_write (writes out)
          then hash_args h open_file can_write args any_failed
            (out\<lparr>out_lines := out_lines out @ [sum_line hex arg], writes := writes out + 1\<rparr>)
          else hash_args h open_file can_write args True
            (out\<lparr>complaints := complaints out @ [Cannot_Write], writes := writes out + 1\<rparr>)
      | None \<Rightarrow>
          hash_args h open_file can_write args True
            (out\<lparr>complaints := complaints out @ [Cannot_Hash arg]\<rparr>))"

definition sha_main ::
  "'h hasher \<Rightarrow> (bytes \<Rightarrow> reader option) \<Rightarrow> (nat \<Rightarrow> bool) \<Rightarrow> bytes list \<Rightarrow> exit_code \<times> sha_out" where
  "sha_main h open_file can_write args =
     (let out = \<lparr>out_lines = [], complaints = [], writes = 0\<rparr>
      in if args = [] then (Exit_Failure, out\<lparr>complaints := [Usage]\<rparr>)
         else let (any_failed, out) = hash_args h open_file can_write args False out
              in (if any_failed then Exit_Failure else Exit_Success, out))"

section \<open>Facts\<close>

text \<open>A file whose reads neither fail nor are interrupted.\<close>

definition undisturbed :: "reader \<Rightarrow> bool" where
  "undisturbed r \<longleftrightarrow> (\<forall>e \<in> set (rd_sched r). \<exists>n. e = Short n)"

lemma hash_loop_all:
  assumes "hash_loop h n r (foldl (sha_update h) s ds) = Some t" and "0 < n"
  shows "\<exists>es. t = foldl (sha_update h) s (ds @ es) \<and> concat es = rd_rest r"
  using assms(1)
proof (induction "length (rd_rest r)" arbitrary: r ds rule: less_induct)
  case less
  note unfold = hash_loop.simps [of h n r]
  obtain x r' where rd: "read r n = (x, r')" by force
  with less.prems obtain d where d: "x = Got d" by (cases x) (auto simp: unfold)
  note got = read_Got [OF rd [unfolded d]]
  show ?case
  proof (cases "d = []")
    case True
    then show ?thesis using less.prems got(3) assms(2) by (intro exI [of _ "[]"]) (simp add: unfold rd d)
  next
    case False
    then have "length (rd_rest r') < length (rd_rest r)" using arg_cong [OF got(1), of length] by (cases d) auto
    moreover have "hash_loop h n r' (foldl (sha_update h) s (ds @ [d])) = Some t"
      using less.prems False by (simp add: unfold rd d)
    ultimately obtain es where "t = foldl (sha_update h) s ((ds @ [d]) @ es)" "concat es = rd_rest r'"
      using less.hyps by blast
    with got(1) show ?thesis by (intro exI [of _ "d # es"]) simp
  qed
qed

lemma hash_loop_returns: "undisturbed r \<Longrightarrow> \<exists>t. hash_loop h n r s = Some t"
proof (induction "length (rd_rest r)" arbitrary: r s rule: less_induct)
  case less
  note unfold = hash_loop.simps [of h n r]
  obtain x r' where rd: "read r n = (x, r')" by force
  have "\<exists>d. x = Got d" "undisturbed r'"
    using rd less.prems by (auto simp: read_def undisturbed_def Let_def split: list.splits read_event.splits)
  then obtain d where d: "x = Got d" by blast
  note got = read_Got [OF rd [unfolded d]]
  show ?case
  proof (cases "d = []")
    case False
    then have "length (rd_rest r') < length (rd_rest r)" using arg_cong [OF got(1), of length] by (cases d) auto
    from less.hyps [OF this \<open>undisturbed r'\<close>] False show ?thesis by (simp add: unfold rd d)
  qed (simp add: unfold rd d)
qed

lemma hash_reader_digest:
  assumes "streams h digest" and "0 < n" and "hash_reader h n opened = Some hex"
  shows "\<exists>r. opened = Some r \<and> hex = hex_encode (digest (rd_rest r))"
proof -
  obtain r t where r: "opened = Some r" "hash_loop h n r (sha_new h) = Some t" "hex = hex_encode (sha_finalize h t)"
    using assms(3) by (auto simp: hash_reader_def split: option.splits)
  obtain es where "t = foldl (sha_update h) (sha_new h) es" "concat es = rd_rest r"
    using hash_loop_all [of h n r "sha_new h" "[]" t] r(2) assms(2) by auto
  with r assms(1) show ?thesis by (auto simp: streams_def)
qed

definition line_of :: "'h hasher \<Rightarrow> (bytes \<Rightarrow> reader option) \<Rightarrow> bytes \<Rightarrow> bytes \<Rightarrow> bool" where
  "line_of h open_file line arg \<longleftrightarrow> (\<exists>hex. hash_file h open_file arg = Some hex \<and> line = sum_line hex arg)"

lemma hash_args_lines:
  assumes "hash_args h open_file can_write args any_failed out = (any_failed', out')"
  shows "\<exists>lines cs. out_lines out' = out_lines out @ lines \<and> complaints out' = complaints out @ cs
    \<and> (any_failed' \<longleftrightarrow> any_failed \<or> cs \<noteq> [])
    \<and> (\<forall>line \<in> set lines. \<exists>arg \<in> set args. line_of h open_file line arg)
    \<and> (cs = [] \<longrightarrow> list_all2 (line_of h open_file) lines args)"
  using assms
proof (induction args arbitrary: any_failed out)
  case (Cons arg args)
  have complain: ?case if "hash_args h open_file can_write args True u = (any_failed', out')"
    "out_lines u = out_lines out" "complaints u = complaints out @ [c]" for u c
  proof -
    from Cons.IH [OF that(1)] obtain lines cs where "out_lines out' = out_lines u @ lines"
      "complaints out' = complaints u @ cs" "any_failed'"
      "\<forall>line \<in> set lines. \<exists>arg \<in> set args. line_of h open_file line arg" by auto
    then show ?thesis using that(2,3) by (intro exI [of _ lines] exI [of _ "c # cs"]) auto
  qed
  show ?case
  proof (cases "hash_file h open_file arg")
    case None
    with Cons.prems
    have "hash_args h open_file can_write args True (out\<lparr>complaints := complaints out @ [Cannot_Hash arg]\<rparr>) = (any_failed', out')"
      by simp
    from complain [OF this] show ?thesis by simp
  next
    case (Some hex)
    then have line: "line_of h open_file (sum_line hex arg) arg" by (simp add: line_of_def)
    show ?thesis
    proof (cases "can_write (writes out)")
      case True
      let ?u = "out\<lparr>out_lines := out_lines out @ [sum_line hex arg], writes := writes out + 1\<rparr>"
      have "hash_args h open_file can_write args any_failed ?u = (any_failed', out')"
        using Cons.prems Some True by simp
      from Cons.IH [OF this] obtain lines cs where "out_lines out' = out_lines ?u @ lines"
        "complaints out' = complaints ?u @ cs" "any_failed' \<longleftrightarrow> any_failed \<or> cs \<noteq> []"
        "\<forall>line \<in> set lines. \<exists>arg \<in> set args. line_of h open_file line arg"
        "cs = [] \<longrightarrow> list_all2 (line_of h open_file) lines args" by blast
      then show ?thesis
        using line by (intro exI [of _ "sum_line hex arg # lines"] exI [of _ cs]) auto
    next
      case False
      with Cons.prems Some
      have "hash_args h open_file can_write args True
          (out\<lparr>complaints := complaints out @ [Cannot_Write], writes := writes out + 1\<rparr>) = (any_failed', out')"
        by simp
      from complain [OF this] show ?thesis by simp
    qed
  qed
qed simp

lemma hash_args_all:
  assumes "\<forall>arg \<in> set args. hash_file h open_file arg \<noteq> None" and "\<forall>k. can_write k"
  shows "\<not> fst (hash_args h open_file can_write args False out)"
  using assms by (induction args arbitrary: out) auto

text \<open>The line for a file: the digest of all that is in it.\<close>

definition sum_of :: "(bytes \<Rightarrow> bytes) \<Rightarrow> (bytes \<Rightarrow> reader option) \<Rightarrow> bytes \<Rightarrow> bytes \<Rightarrow> bool" where
  "sum_of digest open_file line arg \<longleftrightarrow>
     (\<exists>r. open_file arg = Some r \<and> line = sum_line (hex_encode (digest (rd_rest r))) arg)"

text \<open>C36. The checksum tool. It exits successfully exactly if it was given files and complained about
  none. Every line it prints carries, for one of the arguments, the digest of the whole content of
  that file, never of a part of it, however short the reads; after a successful exit there is one
  line for each argument, in order. It succeeds whenever each file opens and can be read
  undisturbed and every line can be written.\<close>

theorem checksums:
  assumes "streams h digest" and "sha_main h open_file can_write args = (exit, out)"
  shows "(exit = Exit_Success \<longleftrightarrow> args \<noteq> [] \<and> complaints out = [])
    \<and> (\<forall>line \<in> set (out_lines out). \<exists>arg \<in> set args. sum_of digest open_file line arg)
    \<and> (exit = Exit_Success \<longrightarrow> list_all2 (sum_of digest open_file) (out_lines out) args)
    \<and> (args \<noteq> [] \<and> (\<forall>arg \<in> set args. \<exists>r. open_file arg = Some r \<and> undisturbed r) \<and> (\<forall>k. can_write k)
        \<longrightarrow> exit = Exit_Success)"
proof (cases "args = []")
  case True
  with assms(2) show ?thesis by (auto simp: sha_main_def)
next
  case False
  obtain any_failed where run: "hash_args h open_file can_write args False \<lparr>out_lines = [], complaints = [], writes = 0\<rparr>
      = (any_failed, out)" and exit: "exit = (if any_failed then Exit_Failure else Exit_Success)"
    using assms(2) False by (auto simp: sha_main_def Let_def split: prod.splits)
  have line: "sum_of digest open_file line arg" if "line_of h open_file line arg" for line arg
    using that hash_reader_digest [OF assms(1), of 1024 "open_file arg"]
    by (auto simp: line_of_def hash_file_def sum_of_def)
  have "hash_file h open_file arg \<noteq> None" if "open_file arg = Some r" "undisturbed r" for arg r
    using hash_loop_returns [OF that(2)] that(1) by (auto simp: hash_file_def hash_reader_def)
  then have "\<not> any_failed" if "\<forall>arg \<in> set args. \<exists>r. open_file arg = Some r \<and> undisturbed r" "\<forall>k. can_write k"
    using hash_args_all [of args h open_file can_write] that run by (metis fst_conv)
  moreover obtain lines cs where l: "out_lines out = lines" "complaints out = cs" "any_failed \<longleftrightarrow> cs \<noteq> []"
    "\<forall>line \<in> set lines. \<exists>arg \<in> set args. line_of h open_file line arg"
    "cs = [] \<longrightarrow> list_all2 (line_of h open_file) lines args"
    using hash_args_lines [OF run] by auto
  moreover have "\<forall>line \<in> set lines. \<exists>arg \<in> set args. sum_of digest open_file line arg" using l(4) line by blast
  moreover have "cs = [] \<longrightarrow> list_all2 (sum_of digest open_file) lines args"
    using l(5) line list_all2_mono [of "line_of h open_file" lines args] by blast
  ultimately show ?thesis using False exit by auto
qed

text \<open>A digest that only counts, a file read in two pieces, and one that does not open.\<close>

definition counter :: "nat hasher" where
  "counter = \<lparr>sha_new = 0, sha_update = \<lambda>s d. s + length d, sha_finalize = \<lambda>s. [of_nat s]\<rparr>"

definition two_pieces :: "bytes \<Rightarrow> reader option" where
  "two_pieces p = (if p = ascii ''a'' then Some \<lparr>rd_rest = [1, 2, 3], rd_sched = [Short 0]\<rparr> else None)"

theorem checksums_witness:
  "fst (sha_main counter two_pieces (\<lambda>_. True) [ascii ''a'']) = Exit_Success
    \<and> list_all2 (sum_of (\<lambda>m. [of_nat (length m)]) two_pieces)
      (out_lines (snd (sha_main counter two_pieces (\<lambda>_. True) [ascii ''a'']))) [ascii ''a'']"
proof -
  have "foldl (\<lambda>s d. s + length d) n ds = n + length (concat ds)" for n and ds :: "bytes list"
    by (induction ds arbitrary: n) simp_all
  then have "streams counter (\<lambda>m. [of_nat (length m)])" by (simp add: streams_def counter_def)
  from checksums [OF this, of two_pieces "\<lambda>_. True" "[ascii ''a'']"
      "fst (sha_main counter two_pieces (\<lambda>_. True) [ascii ''a''])"
      "snd (sha_main counter two_pieces (\<lambda>_. True) [ascii ''a''])"]
  show ?thesis by (simp add: two_pieces_def undisturbed_def del: ascii_Cons)
qed

end
