(* ===== verification/Logging.thy ===== *)
theory Logging
  imports Receiver "HOL-Library.Signed_Division"
begin

text \<open>
  The logger both programs share (\<open>diode_common/src/logging.rs\<close>): the time stamp of a line and
  what a record is turned into. The clock, the syslog connection and the arguments of a record are
  inputs.
\<close>

section \<open>Time stamps\<close>

text \<open>Casts between machine integers, and unsigned subtraction as it wraps in a release build.\<close>

definition u64_as_i64 :: "nat \<Rightarrow> int" where
  "u64_as_i64 n = sint (of_nat n :: 64 word)"

definition i64_as_u64 :: "int \<Rightarrow> nat" where
  "i64_as_u64 k = unat (of_int k :: 64 word)"

definition i64_as_i32 :: "int \<Rightarrow> int" where
  "i64_as_i32 k = sint (of_int k :: 32 word)"

definition sub64 :: "nat \<Rightarrow> nat \<Rightarrow> nat" where
  "sub64 a b = (a + (2 ^ 64 - b)) mod 2 ^ 64"

record stamp =
  st_year :: int
  st_month :: nat
  st_day :: nat
  st_hour :: nat
  st_min :: nat
  st_sec :: nat

text \<open>The calendar computation of \<open>fmt_now\<close>, from the seconds since 1970.\<close>

definition stamp_of :: "nat \<Rightarrow> stamp" where
  "stamp_of as_secs =
     (let secs = u64_as_i64 as_secs;
          s = nat (secs mod 60);
          m = nat ((secs sdiv 60) mod 60);
          h = nat ((secs sdiv 3600) mod 24);
          days = secs div 86400;
          z = days + 719468;
          era = (if z \<ge> 0 then z else z - 146096) sdiv 146097;
          doe = i64_as_u64 (z - era * 146097);
          yoe = sub64 (add64 (sub64 doe (doe div 1460)) (doe div 36524)) (doe div 146096) div 365;
          y = int yoe + era * 400;
          doy = sub64 doe (sub64 (add64 (mul64 365 yoe) (yoe div 4)) (yoe div 100));
          mp = add64 (mul64 5 doy) 2 div 153;
          d = add64 (sub64 doy (add64 (mul64 153 mp) 2 div 5)) 1;
          mo = (if mp < 10 then mp + 3 else sub64 mp 9);
          year = i64_as_i32 (if mo \<le> 2 then y + 1 else y)
      in \<lparr>st_year = year, st_month = mo, st_day = d, st_hour = h, st_min = m, st_sec = s\<rparr>)"

text \<open>\<open>{:04}\<close> of a signed number.\<close>

definition fmt_signed_padded :: "nat \<Rightarrow> int \<Rightarrow> bytes" where
  "fmt_signed_padded w k =
     (if k < 0 then ascii ''-'' @ fmt_zero_padded (w - 1) (nat (- k)) else fmt_zero_padded w (nat k))"

text \<open>\<open>None\<close> is a clock that stands before 1970.\<close>

definition fmt_now :: "(nat \<times> nat) option \<Rightarrow> bytes" where
  "fmt_now clock =
     (let (secs, ms) = (case clock of None \<Rightarrow> (0, 0) | Some t \<Rightarrow> t); t = stamp_of secs in
      fmt_signed_padded 4 (st_year t) @ ascii ''-'' @ fmt_zero_padded 2 (st_month t) @ ascii ''-''
      @ fmt_zero_padded 2 (st_day t) @ ascii '' '' @ fmt_zero_padded 2 (st_hour t) @ ascii '':''
      @ fmt_zero_padded 2 (st_min t) @ ascii '':'' @ fmt_zero_padded 2 (st_sec t) @ ascii '',''
      @ fmt_zero_padded 3 ms)"

section \<open>Records\<close>

text \<open>The levels of the \<open>log\<close> crate in its order: \<open>Error\<close> is the least verbose.\<close>

datatype level = Error | Warn | Info | Debug | Trace

fun level_rank :: "level \<Rightarrow> nat" where
  "level_rank Error = 1" | "level_rank Warn = 2" | "level_rank Info = 3" | "level_rank Debug = 4"
| "level_rank Trace = 5"

instantiation level :: linorder
begin

definition less_eq_level :: "level \<Rightarrow> level \<Rightarrow> bool" where
  "less_eq_level a b \<longleftrightarrow> level_rank a \<le> level_rank b"

definition less_level :: "level \<Rightarrow> level \<Rightarrow> bool" where
  "less_level a b \<longleftrightarrow> level_rank a < level_rank b"

instance
proof
  fix a b :: level
  show "a \<le> b \<Longrightarrow> b \<le> a \<Longrightarrow> a = b"
    by (cases a; cases b) (simp_all add: less_eq_level_def)
qed (auto simp: less_eq_level_def less_level_def)

end

fun level_name :: "level \<Rightarrow> bytes" where
  "level_name Error = ascii ''ERROR''" | "level_name Warn = ascii ''WARN''" | "level_name Info = ascii ''INFO''"
| "level_name Debug = ascii ''DEBUG''" | "level_name Trace = ascii ''TRACE''"

datatype severity = Sev_err | Sev_warning | Sev_info

text \<open>
  What the logger has written: lines to the standard error stream and messages to syslog.
  \<open>syslog\<close> is \<open>Some lock_ok\<close> when the connection was opened; with a poisoned lock nothing is sent.
\<close>

record log_out =
  stderr_lines :: "bytes list"
  syslog_msgs :: "(severity \<times> bytes) list"

definition log_enabled :: "level \<Rightarrow> bool" where
  "log_enabled l \<longleftrightarrow> l \<le> Info"

definition log_record ::
  "(nat \<times> nat) option \<Rightarrow> bool option \<Rightarrow> level \<Rightarrow> bytes \<Rightarrow> log_out \<Rightarrow> log_out" where
  "log_record clock syslog l args out =
     (if \<not> log_enabled l then out
      else
        let out = out\<lparr>stderr_lines := stderr_lines out @ [fmt_now clock @ ascii '' '' @ level_name l @ ascii '': '' @ args]\<rparr>
        in case syslog of
             Some True \<Rightarrow>
               out\<lparr>syslog_msgs := syslog_msgs out
                 @ [(case l of Error \<Rightarrow> Sev_err | Warn \<Rightarrow> Sev_warning | _ \<Rightarrow> Sev_info, args)]\<rparr>
           | _ \<Rightarrow> out)"

text \<open>Setting up: the syslog connection, if it opened, and the most verbose level let through.\<close>

definition init_logger :: "bool \<Rightarrow> bool option \<times> level" where
  "init_logger opened = ((if opened then Some True else None), Info)"

end
