(* ===== verification/Worker_Log.thy ===== *)
theory Worker_Log
  imports Worker_Run Digest Logging
begin

text \<open>
  What the receiver's packet worker writes to its log: every call of \<open>info!\<close>, \<open>warn!\<close> and
  \<open>error!\<close> of \<open>is_chunk_valid\<close>, \<open>buffer_data\<close>, \<open>buffer_parity\<close>, \<open>reset_transfer\<close>,
  \<open>new_file\<close>, \<open>finalize_current_batch\<close>, \<open>advance_to_batch\<close>, \<open>finish_file\<close> and the worker loop
  (\<open>diode_receive/src/main.rs\<close>), with its level and its text. The functions follow the control flow of
  the operations in \<open>Receiver\<close> and \<open>Worker\<close> and give the messages of one round in their order.
\<close>

section \<open>Quoting\<close>

text \<open>
  The texts that come from outside: the messages of the operating system and of the Reed-Solomon
  crate for the call that failed (in one round at most one does whose message is logged), what the
  finished file gives when it is opened for its digest and asked for its length, and which characters
  outside ASCII the standard library's tables call printable.
\<close>

record 'h log_env =
  le_io :: bytes
  le_fec :: bytes
  le_hasher :: "'h hasher"
  le_open :: "bytes \<Rightarrow> reader option"
  le_len :: "bytes \<Rightarrow> nat option"
  le_shown :: "bytes \<Rightarrow> bool"

fun fmt_hex :: "nat \<Rightarrow> bytes" where
  "fmt_hex n = (if n < 16 then [hex_digit n] else fmt_hex (n div 16) @ [hex_digit (n mod 16)])"

declare fmt_hex.simps [simp del]

fun code_point :: "bytes \<Rightarrow> nat" where
  "code_point [b] = unat b"
| "code_point [b, c] = (unat b mod 32) * 64 + unat c mod 64"
| "code_point [b, c, d] = ((unat b mod 16) * 64 + unat c mod 64) * 64 + unat d mod 64"
| "code_point [b, c, d, e] = (((unat b mod 8) * 64 + unat c mod 64) * 64 + unat d mod 64) * 64 + unat e mod 64"
| "code_point _ = 0"

text \<open>\<open>char::escape_debug\<close>, with the quotes to be escaped: \<open>str\<close> leaves the single quote alone.\<close>

definition debug_char :: "(bytes \<Rightarrow> bool) \<Rightarrow> bytes list \<Rightarrow> bytes \<Rightarrow> bytes" where
  "debug_char shown quotes c =
     (if c = [0] then [backslash, of_char (CHR ''0'')]
      else if c = [9] then [backslash, of_char (CHR ''t'')]
      else if c = [13] then [backslash, of_char (CHR ''r'')]
      else if c = [10] then [backslash, of_char (CHR ''n'')]
      else if c = [backslash] \<or> c \<in> set quotes then backslash # c
      else if (if length c = 1 then 0x20 \<le> hd c \<and> hd c \<le> 0x7E else shown c) then c
      else [backslash] @ ascii ''u{'' @ fmt_hex (code_point c) @ ascii ''}'')"

definition debug_quoted :: "(bytes \<Rightarrow> bool) \<Rightarrow> bytes list \<Rightarrow> bytes \<Rightarrow> bytes" where
  "debug_quoted shown quotes s = [0x22] @ concat (map (debug_char shown quotes) (str_chars s)) @ [0x22]"

text \<open>\<open>{:?}\<close> of a string and of a path, and the pair \<open>{:?} (safe: {:?})\<close> many messages use.\<close>

definition debug_str :: "'h log_env \<Rightarrow> bytes \<Rightarrow> bytes" where
  "debug_str le s = debug_quoted (le_shown le) [[0x22]] s"

definition debug_path :: "'h log_env \<Rightarrow> bytes \<Rightarrow> bytes" where
  "debug_path le s = debug_quoted (le_shown le) [[0x22], [0x27]] s"

definition quoted :: "'h log_env \<Rightarrow> bytes \<Rightarrow> bytes" where
  "quoted le s = debug_str le s @ ascii '' (safe: '' @ debug_str le (log_safe s) @ ascii '')''"

definition path_or_unknown :: "receive_state \<Rightarrow> bytes" where
  "path_or_unknown st = (case file_path st of None \<Rightarrow> ascii ''?'' | Some p \<Rightarrow> p)"

type_synonym message = "level \<times> bytes"

section \<open>Chunks and buffers\<close>

definition chunk_log :: "(bytes \<Rightarrow> bytes) \<Rightarrow> packet \<Rightarrow> receive_state \<Rightarrow> nat \<Rightarrow> message list" where
  "chunk_log md5 p st t =
     (if (case path_hash st of None \<Rightarrow> False | Some ph \<Rightarrow> pkt_path_hash p \<noteq> ph)
      then [(Warn, ascii ''Path hash mismatch in chunk '' @ fmt_dec (count p))]
      else if t = PKG_TYPE_DATA \<and> \<not> (1 \<le> length (pkt_data p) \<and> length (pkt_data p) \<le> CHUNK_SIZE)
      then [(Warn, ascii ''DATA chunk '' @ fmt_dec (count p) @ ascii '' size '' @ fmt_dec (length (pkt_data p))
              @ ascii '' outside 1..='' @ fmt_dec CHUNK_SIZE)]
      else if t = PKG_TYPE_PARITY \<and> length (pkt_data p) \<noteq> SHARD_SIZE
      then [(Warn, ascii ''PARITY shard '' @ fmt_dec (count p) @ ascii '' size '' @ fmt_dec (length (pkt_data p))
              @ ascii '' != SHARD_SIZE ('' @ fmt_dec SHARD_SIZE @ ascii '')'')]
      else if md5_hex md5 (pkt_data p) \<noteq> pkt_data_hash p
      then [(Warn, ascii ''Data hash mismatch in chunk '' @ fmt_dec (count p))]
      else [])"

definition limit_log :: "'h log_env \<Rightarrow> bytes \<Rightarrow> receive_state \<Rightarrow> message" where
  "limit_log le what st =
     (Error, what @ ascii '' buffer size limit ('' @ fmt_dec BUFFER_BYTE_LIMIT @ ascii '' bytes) exceeded for ''
        @ quoted le (path_or_unknown st))"

definition buffer_data_log :: "'h log_env \<Rightarrow> receive_state \<Rightarrow> packet \<Rightarrow> message list" where
  "buffer_data_log le st p =
     (if bt_get (data_buffer st) (count p) \<noteq> None then []
      else if sat_add64 (bytes_buffered st) (length (pkt_data p)) > BUFFER_BYTE_LIMIT
      then [limit_log le (ascii ''Data'') st] else [])"

definition buffer_parity_log :: "'h log_env \<Rightarrow> receive_state \<Rightarrow> packet \<Rightarrow> nat \<Rightarrow> message list" where
  "buffer_parity_log le st p idx_in_batch =
     (if bt_get (parity_buffer st) idx_in_batch \<noteq> None then []
      else if sat_add64 (bytes_buffered st) (length (pkt_data p)) > BUFFER_BYTE_LIMIT
      then [limit_log le (ascii ''Parity'') st] else [])"

definition reset_log :: "'h log_env \<Rightarrow> receive_state \<Rightarrow> bool \<Rightarrow> message list" where
  "reset_log le st success =
     (case file_path st of
        None \<Rightarrow> []
      | Some p \<Rightarrow> if success then [(Info, ascii ''Finished receiving '' @ quoted le p)] else [])"

section \<open>Starting a file\<close>

definition new_file_log :: "'h log_env \<Rightarrow> bytes \<Rightarrow> bytes \<Rightarrow> nat \<Rightarrow> nat \<Rightarrow> rx \<Rightarrow> message list" where
  "new_file_log le out path fsize ppb w =
     (if file_path (rx_state w) = Some path then []
      else
        (case file_path (rx_state w) of
           None \<Rightarrow> []
         | Some prev \<Rightarrow>
             [(Error, ascii ''Unfinished previous transfer of '' @ log_safe prev @ ascii '' failed'')]
             @ reset_log le (rx_state w) False)
        @ (let w = abandon_previous out w
           in if \<not> is_safe_rel_path path
              then (Error, ascii ''Rejected unsafe START path: '' @ quoted le path) # reset_log le (rx_state w) False
              else if 0 \<in> set path
              then (Error, ascii ''Rejected START path containing NUL: '' @ quoted le path) # reset_log le (rx_state w) False
              else
                (let f = snd (remove_file (path_join out path) (rx_fs w));
                     f = snd (remove_file (partial_path out path) f);
                     f = snd (remove_file (path_join out (failed_name path)) f)
                 in case fst (open_output_file out path fsize f) of
                      None \<Rightarrow> [(Error, ascii ''Failed to open output file '' @ log_safe path @ ascii '': '' @ le_io le)]
                    | Some h \<Rightarrow>
                        [(Info, ascii ''Receiving file '' @ log_safe path @ ascii '' (size '' @ fmt_dec fsize
                            @ ascii '', parity per batch '' @ fmt_dec ppb @ ascii '')'')])))"

section \<open>Batches\<close>

text \<open>
  The text of an error of \<open>finalize_current_batch\<close>, read off the state it was called in, which an
  error leaves as it is.
\<close>

definition shard_len :: "bytes option \<Rightarrow> nat" where
  "shard_len s = (case s of None \<Rightarrow> 0 | Some d \<Rightarrow> length d)"

definition finalize_text :: "'d fec_decoder \<Rightarrow> 'h log_env \<Rightarrow> receive_state \<Rightarrow> finalize_error \<Rightarrow> bytes" where
  "finalize_text fec le st e =
     (let batch_idx = current_batch st;
          data_size = batch_data_size batch_idx (file_size st);
          total_chunks = div_ceil (file_size st) CHUNK_SIZE;
          remainder = file_size st mod CHUNK_SIZE;
          last_len = (if remainder = 0 then CHUNK_SIZE else remainder);
          batch_start = mul64 batch_idx BATCH_DATA_CHUNKS;
          expected = (\<lambda>k. if k + 1 = total_chunks then last_len else CHUNK_SIZE);
          restored = (case restore_missing fec st data_size batch_start of Inl _ \<Rightarrow> [] | Inr r \<Rightarrow> r)
      in case e of
           FecDisabled \<Rightarrow> ascii ''Batch '' @ fmt_dec batch_idx @ ascii '' missing ''
             @ fmt_dec (data_size - length (data_buffer st)) @ ascii '' chunks and FEC is disabled''
         | Insufficient \<Rightarrow> ascii ''Batch '' @ fmt_dec batch_idx @ ascii '' insufficient: ''
             @ fmt_dec (length (data_buffer st)) @ ascii '' data + '' @ fmt_dec (length (parity_buffer st))
             @ ascii '' parity, need '' @ fmt_dec data_size
         | DecoderNew \<Rightarrow> ascii ''FEC decoder for batch '' @ fmt_dec batch_idx @ ascii '': '' @ le_fec le
         | AddOriginal i \<Rightarrow> ascii ''FEC add_original['' @ fmt_dec i @ ascii '']: '' @ le_fec le
         | AddRecovery i \<Rightarrow> ascii ''FEC add_recovery['' @ fmt_dec i @ ascii '']: '' @ le_fec le
         | DecodeFailed \<Rightarrow> ascii ''FEC decode batch '' @ fmt_dec batch_idx @ ascii '': '' @ le_fec le
         | NoOutputFile \<Rightarrow> ascii ''No output file open''
         | SeekFailed \<Rightarrow> ascii ''seek to '' @ fmt_dec (mul64 batch_start CHUNK_SIZE) @ ascii '': '' @ le_io le
         | ChunkTooShort k \<Rightarrow> ascii ''Chunk '' @ fmt_dec k @ ascii '' too short: ''
             @ fmt_dec (shard_len (bt_get (data_buffer st) k)) @ ascii '' < '' @ fmt_dec (expected k)
         | RestoredTooShort k \<Rightarrow> ascii ''Restored chunk '' @ fmt_dec k @ ascii '' too short: ''
             @ fmt_dec (shard_len (bt_get restored (k - batch_start))) @ ascii '' < '' @ fmt_dec (expected k)
         | StillMissing k \<Rightarrow> ascii ''Chunk '' @ fmt_dec k @ ascii '' still missing after reconstruction''
         | WriteFailed \<Rightarrow> ascii ''write: '' @ le_io le)"

definition finalize_log :: "'d fec_decoder \<Rightarrow> receive_state \<Rightarrow> message list" where
  "finalize_log fec st =
     (let data_size = batch_data_size (current_batch st) (file_size st)
      in if data_size = 0 \<or> length (data_buffer st) \<ge> data_size then []
         else case restore_missing fec st data_size (mul64 (current_batch st) BATCH_DATA_CHUNKS) of
                Inl _ \<Rightarrow> []
              | Inr restored \<Rightarrow>
                  [(Info, ascii ''FEC reconstructed '' @ fmt_dec (length restored) @ ascii '' chunk(s) for batch ''
                      @ fmt_dec (current_batch st))])"

function advance_log :: "'d fec_decoder \<Rightarrow> 'h log_env \<Rightarrow> nat \<Rightarrow> receive_state \<Rightarrow> fs \<Rightarrow> message list" where
  "advance_log fec le target st f =
     (if \<not> failed st \<and> current_batch st < target
      then finalize_log fec st
        @ (case finalize_current_batch fec st f of
             (Inl e, st', f') \<Rightarrow>
               [(Error, ascii ''Batch '' @ fmt_dec (current_batch st') @ ascii '' finalize failed for ''
                   @ quoted le (path_or_unknown st') @ ascii '': '' @ finalize_text fec le st e)]
           | (Inr _, st', f') \<Rightarrow> advance_log fec le target (st'\<lparr>current_batch := current_batch st' + 1\<rparr>) f')
      else [])"
  by pat_completeness auto
termination
  by (relation "measure (\<lambda>(fec, le, target, st, f). target - current_batch st)")
    (auto dest!: sym [of _ "finalize_current_batch _ _ _"] finalize_current_batch_same(1))

declare advance_log.simps [simp del]

section \<open>Finishing a file\<close>

text \<open>
  The warning about a digest that could not be computed: \<open>sha256_file\<close> puts the path into its error
  text as it is. \<open>what\<close> is the call that failed.
\<close>

definition digest_warning :: "'h log_env \<Rightarrow> bytes \<Rightarrow> bytes \<Rightarrow> bytes \<Rightarrow> message" where
  "digest_warning le out rel_path what =
     (Warn, ascii ''Failed to compute SHA-256 of '' @ quoted le rel_path @ ascii '': ''
        @ what @ ascii '' '' @ path_join out rel_path @ ascii '': '' @ le_io le)"

definition digest_log :: "'h log_env \<Rightarrow> bytes \<Rightarrow> bytes \<Rightarrow> message" where
  "digest_log le out rel_path =
     (let final_path = path_join out rel_path
      in case sha256_file (le_hasher le) (le_open le) final_path of
           Some digest \<Rightarrow>
             (Info, ascii ''Received file '' @ quoted le rel_path @ ascii '' size ''
                @ fmt_dec (case le_len le final_path of None \<Rightarrow> 0 | Some n \<Rightarrow> n) @ ascii '' SHA-256 '' @ digest)
         | None \<Rightarrow>
             digest_warning le out rel_path
               (if le_open le final_path = None then ascii ''open'' else ascii ''read''))"

definition publish_log :: "'h log_env \<Rightarrow> bytes \<Rightarrow> bytes \<Rightarrow> rx \<Rightarrow> message list" where
  "publish_log le out rel_path w =
     (if fst (rename_file (partial_path out rel_path) (path_join out rel_path) (rx_fs w))
      then digest_log le out rel_path # reset_log le (rx_state w) True
      else (Error, ascii ''Failed to rename '' @ quoted le rel_path @ ascii '' -> ''
              @ debug_path le (path_join out rel_path) @ ascii '': '' @ le_io le)
           # reset_log le (rx_state w) False)"

definition finish_log :: "'d rx_env \<Rightarrow> 'h log_env \<Rightarrow> rx \<Rightarrow> message list" where
  "finish_log env le w =
     (case file_path (rx_state w) of
        None \<Rightarrow> []
      | Some rel_path \<Rightarrow>
          (if failed (rx_state w) then []
           else finalize_log (env_fec env) (rx_state w)
             @ (case fst (finalize_current_batch (env_fec env) (rx_state w) (rx_fs w)) of
                  Inl e \<Rightarrow> [(Error, ascii ''Final batch failed for '' @ quoted le rel_path @ ascii '': ''
                              @ finalize_text (env_fec env) le (rx_state w) e)]
                | Inr _ \<Rightarrow> []))
          @ (let w = finalize_last (env_fec env) w
             in if failed (rx_state w) then reset_log le (rx_state w) False
                else publish_log le (env_out env) rel_path w))"

section \<open>The worker loop\<close>

definition advance_rx_log :: "'d rx_env \<Rightarrow> 'h log_env \<Rightarrow> nat \<Rightarrow> rx \<Rightarrow> message list" where
  "advance_rx_log env le batch w =
     (if batch > current_batch (rx_state w) then advance_log (env_fec env) le batch (rx_state w) (rx_fs w) else [])"

definition data_log :: "'d rx_env \<Rightarrow> 'h log_env \<Rightarrow> packet \<Rightarrow> rx \<Rightarrow> message list" where
  "data_log env le p w =
     (if failed (rx_state w) then []
      else chunk_log (env_md5 env) p (rx_state w) PKG_TYPE_DATA
        @ (if is_chunk_valid (env_md5 env) p (rx_state w) PKG_TYPE_DATA
           then let batch = batch_for_data (count p); v = advance_rx env batch w
                in advance_rx_log env le batch w
                  @ (if \<not> failed (rx_state v) \<and> batch = current_batch (rx_state v)
                     then buffer_data_log le (rx_state v) p else [])
           else []))"

definition parity_log :: "'d rx_env \<Rightarrow> 'h log_env \<Rightarrow> packet \<Rightarrow> rx \<Rightarrow> message list" where
  "parity_log env le p w =
     (if failed (rx_state w) then []
      else chunk_log (env_md5 env) p (rx_state w) PKG_TYPE_PARITY
        @ (if is_chunk_valid (env_md5 env) p (rx_state w) PKG_TYPE_PARITY
           then let batch = batch_for_parity (count p); v = advance_rx env batch w
                in advance_rx_log env le batch w
                  @ (if \<not> failed (rx_state v) \<and> batch = current_batch (rx_state v)
                     then buffer_parity_log le (rx_state v) p (count p mod BATCH_PARITY_CHUNKS) else [])
           else []))"

definition packet_log :: "'d rx_env \<Rightarrow> 'h log_env \<Rightarrow> packet \<Rightarrow> rx \<Rightarrow> message list" where
  "packet_log env le p w =
     (let receiving = (file_path (rx_state w) \<noteq> None) in
      if pkg_type p = PKG_TYPE_START
      then new_file_log le (env_out env) (from_utf8_lossy (pkt_data p)) (count p)
             (case decode_parity_field (pkt_data_hash p) of None \<Rightarrow> 0 | Some n \<Rightarrow> n) w
      else if pkg_type p = PKG_TYPE_DATA \<and> receiving then data_log env le p w
      else if pkg_type p = PKG_TYPE_PARITY \<and> receiving then parity_log env le p w
      else if pkg_type p = PKG_TYPE_END \<and> receiving then finish_log env le w
      else [])"

definition lock_log :: "rx \<Rightarrow> message list" where
  "lock_log w =
     (if rx_state_poisoned w
      then [(Error, ascii ''State lock poisoned (a prior handler panicked); resetting in-flight transfer and dropping this packet''),
            (Error, ascii ''Re-locked a still-poisoned lock (should be unreachable)'')] else [])
     @ (if rx_stats_poisoned w
        then [(Error, ascii ''Stats lock poisoned; recovering''),
              (Error, ascii ''Re-locked a still-poisoned stats lock (should be unreachable)'')] else [])"

text \<open>What one round of the worker loop logs, and the lines it thereby writes to the error stream.\<close>

definition step_log :: "'d rx_env \<Rightarrow> 'h log_env \<Rightarrow> rx \<Rightarrow> bytes \<Rightarrow> message list" where
  "step_log env le w raw =
     (case decode_packet raw of
        None \<Rightarrow> [(Error, ascii ''Failed to decode packet'')]
      | Some p \<Rightarrow> lock_log w @ packet_log env le p (acquire_state env w))"

definition log_messages :: "(nat \<times> nat) option \<Rightarrow> bool option \<Rightarrow> message list \<Rightarrow> log_out \<Rightarrow> log_out" where
  "log_messages clock syslog ms out = foldl (\<lambda>out (l, text). log_record clock syslog l text out) out ms"

end
