(* ===== verification/Calendar.thy ===== *)
theory Calendar
  imports Logging
begin

text \<open>
  The Gregorian calendar, counted day by day from the first of January 1970, and the proof that the
  closed formulas of \<open>fmt_now\<close> compute it.
\<close>

section \<open>The calendar\<close>

definition leap_year :: "int \<Rightarrow> bool" where
  "leap_year y \<longleftrightarrow> y mod 4 = 0 \<and> (y mod 100 \<noteq> 0 \<or> y mod 400 = 0)"

definition month_days :: "int \<Rightarrow> nat \<Rightarrow> nat" where
  "month_days y m =
     (if m = 2 then (if leap_year y then 29 else 28)
      else if m \<in> {4, 6, 9, 11} then 30 else 31)"

fun next_day :: "int \<times> nat \<times> nat \<Rightarrow> int \<times> nat \<times> nat" where
  "next_day (y, m, d) =
     (if d < month_days y m then (y, m, d + 1)
      else if m < 12 then (y, m + 1, 1)
      else (y + 1, 1, 1))"

definition date_after :: "nat \<Rightarrow> int \<times> nat \<times> nat" where
  "date_after n = (next_day ^^ n) (1970, 1, 1)"

section \<open>The formulas of \<open>fmt_now\<close> without wrap-around\<close>

text \<open>Days before year \<open>k\<close> of a 400-year era that begins on a first of March, and days before
  month \<open>m\<close> of such a year.\<close>

definition year_start :: "nat \<Rightarrow> nat" where
  "year_start k = 365 * k + k div 4 - k div 100 + k div 400"

definition month_start :: "nat \<Rightarrow> nat" where
  "month_start m = (153 * m + 2) div 5"

definition year_of :: "nat \<Rightarrow> nat" where
  "year_of doe = (doe - doe div 1460 + doe div 36524 - doe div 146096) div 365"

definition month_of :: "nat \<Rightarrow> nat" where
  "month_of doy = (5 * doy + 2) div 153"

text \<open>A step function brackets every value between two of its steps.\<close>

lemma bracket: "f 0 \<le> x \<Longrightarrow> x < f n \<Longrightarrow> \<exists>k < n. f k \<le> x \<and> x < f (Suc k)" for f :: "nat \<Rightarrow> nat"
  by (induction n) (fastforce simp: not_less less_Suc_eq)+

lemma year_of_parts:
  assumes "c \<le> 3" "j \<le> 24" "r \<le> 3" "t < 366" "t = 365 \<longrightarrow> r = 3 \<and> (j < 24 \<or> c = 3)"
  shows "year_of (36524 * c + 1461 * j + 365 * r + t) = 100 * c + 4 * j + r"
proof (cases "c = 3 \<and> j = 24 \<and> t = 365")
  case True
  then show ?thesis using assms by (simp add: year_of_def)
next
  case False
  let ?doe = "36524 * c + 1461 * j + 365 * r + t"
  obtain e where e: "e \<le> 1" "e \<le> t" "t < 365 + e" "e * 1460 \<le> 24 * c + j + 365 * r + t"
    "24 * c + j + 365 * r + t < e * 1460 + 1460"
  proof (cases "1460 \<le> 24 * c + j + 365 * r + t")
    case True
    with assms that [of 1] show ?thesis by linarith
  next
    case False
    with assms that [of 0] show ?thesis by linarith
  qed
  have a: "?doe div 1460 = 25 * c + j + e" using e by (intro div_nat_eqI) simp_all
  have "1461 * j + 365 * r + t < 36524" using assms False by (cases "t = 365") auto
  then have b: "?doe div 36524 = c" by (intro div_nat_eqI) simp_all
  have d: "?doe div 146096 = 0" using assms False by (intro div_less) linarith
  have "?doe - (25 * c + j + e) + c - 0 = (100 * c + 4 * j + r) * 365 + (t - e)" using e(2) by simp
  then show ?thesis unfolding year_of_def a b d using e(2,3) by simp
qed

lemma year_start_parts:
  assumes "c \<le> 3" "j \<le> 24" "r \<le> 3"
  shows "year_start (100 * c + 4 * j + r) = 36524 * c + 1461 * j + 365 * r"
proof -
  have "(100 * c + 4 * j + r) div 4 = 25 * c + j" using assms by (intro div_nat_eqI) simp_all
  moreover have "(100 * c + 4 * j + r) div 100 = c" using assms by (intro div_nat_eqI) simp_all
  moreover have "(100 * c + 4 * j + r) div 400 = 0" using assms by (intro div_less) linarith
  ultimately show ?thesis unfolding year_start_def by simp
qed

text \<open>Days of the year that begins in March of year \<open>k\<close> and ends with February of the next.\<close>

definition year_days :: "nat \<Rightarrow> nat" where
  "year_days k = (if Suc k mod 4 = 0 \<and> (Suc k mod 100 \<noteq> 0 \<or> Suc k mod 400 = 0) then 366 else 365)"

lemma mod_400: "n mod 400 = 0 \<Longrightarrow> n mod 100 = 0" "n mod 100 = 0 \<Longrightarrow> n mod 4 = 0" for n :: nat
  by (auto simp: mod_eq_0_iff_dvd elim: dvd_trans [rotated])

lemma leap_count: "b \<le> 365 * k \<Longrightarrow> (C \<Longrightarrow> B) \<Longrightarrow> (B \<Longrightarrow> A) \<Longrightarrow>
    365 * Suc k + (a + of_bool A) - (b + of_bool B) + (c + of_bool C)
    = 365 * k + a - b + c + (if A \<and> (\<not> B \<or> C) then 366 else 365)" for a b c k :: nat
  by (cases A; cases B; cases C) auto

lemma div_Suc_of_bool: "Suc k div n = k div n + of_bool (Suc k mod n = 0)"
  by (simp add: div_Suc)

lemma year_start_Suc: "year_start (Suc k) = year_start k + year_days k"
proof -
  have "k div 100 \<le> 365 * k" by (rule le_trans [OF div_le_dividend]) simp
  then show ?thesis
    unfolding year_start_def year_days_def div_Suc_of_bool
    by (rule leap_count) (fact mod_400)+
qed

lemma year_split: "k < 400 \<Longrightarrow> \<exists>c j r. c \<le> 3 \<and> j \<le> 24 \<and> r \<le> 3 \<and> k = 100 * c + 4 * j + r" for k :: nat
  by (intro exI [of _ "k div 100"] exI [of _ "k mod 100 div 4"] exI [of _ "k mod 100 mod 4"] conjI) auto

lemma long_year_parts:
  assumes "year_days (100 * c + 4 * j + r) = 366" and "c \<le> 3" "j \<le> 24" "r \<le> 3"
  shows "r = 3 \<and> (j < 24 \<or> c = 3)"
proof -
  let ?n = "Suc (100 * c + 4 * j + r)"
  have l: "?n mod 4 = 0 \<and> (?n mod 100 \<noteq> 0 \<or> ?n mod 400 = 0)"
    using assms(1) by (simp add: year_days_def split: if_splits)
  have "?n = Suc r + 4 * (25 * c + j)" by simp
  then have "?n mod 4 = Suc r mod 4" by (simp only: mod_mult_self2)
  moreover have "r = 0 \<or> r = 1 \<or> r = 2 \<or> r = 3" using assms(4) by linarith
  ultimately have r: "r = 3" using l by (elim disjE) simp_all
  have "c = 3" if "j = 24"
  proof -
    have n: "?n = 100 * (c + 1)" using r that by simp
    have "100 * (c + 1) mod 400 = 0" using l unfolding n by simp
    moreover have "c = 0 \<or> c = 1 \<or> c = 2 \<or> c = 3" using assms(2) by linarith
    ultimately show ?thesis by (elim disjE) simp_all
  qed
  with r assms(3) show ?thesis by linarith
qed

lemma year_of_start:
  assumes "k < 400" and "doy < year_days k"
  shows "year_of (year_start k + doy) = k"
proof -
  obtain c j r where p: "c \<le> 3" "j \<le> 24" "r \<le> 3" "k = 100 * c + 4 * j + r"
    using year_split [OF assms(1)] by blast
  have "r = 3 \<and> (j < 24 \<or> c = 3)" if "doy = 365"
    using assms(2) that p by (intro long_year_parts) (simp_all add: year_days_def split: if_splits)
  moreover have "doy < 366" using assms(2) by (simp add: year_days_def split: if_splits)
  ultimately show ?thesis using year_of_parts [OF p(1-3), of doy] year_start_parts [OF p(1-3)] p(4) by simp
qed

lemma doe_split:
  assumes "doe < 146097"
  obtains k doy where "k < 400" "doe = year_start k + doy" "doy < year_days k"
proof -
  have "year_start 0 \<le> doe" "doe < year_start 400" using assms by (simp_all add: year_start_def)
  from bracket [of year_start, OF this] obtain k where k: "k < 400" "year_start k \<le> doe" "doe < year_start (Suc k)"
    by blast
  then show thesis using that [of k "doe - year_start k"] by (simp add: year_start_Suc)
qed

lemma month_of_start:
  assumes "m < 12" and "month_start m + dd < month_start (Suc m)"
  shows "month_of (month_start m + dd) = m"
proof -
  have "list_all (\<lambda>m. month_of (month_start m) = m \<and> month_of (month_start (Suc m) - 1) = m) [0..<12]"
    by code_simp
  then have ends: "month_of (month_start m) = m" "month_of (month_start (Suc m) - 1) = m"
    using assms(1) by (simp_all add: list_all_iff)
  have mono: "a \<le> b \<Longrightarrow> month_of a \<le> month_of b" for a b by (simp add: month_of_def div_le_mono)
  from mono [of "month_start m" "month_start m + dd"] mono [of "month_start m + dd" "month_start (Suc m) - 1"]
  show ?thesis using ends assms(2) by linarith
qed

lemma doy_split:
  assumes "doy < 366"
  obtains m dd where "m < 12" "doy = month_start m + dd" "doy < month_start (Suc m)"
proof -
  have "month_start 0 \<le> doy" "doy < month_start 12" using assms by (simp_all add: month_start_def)
  from bracket [of month_start, OF this] obtain m where m: "m < 12" "month_start m \<le> doy" "doy < month_start (Suc m)"
    by blast
  then show thesis using that [of m "doy - month_start m"] by simp
qed

section \<open>The formulas step with the calendar\<close>

definition civil_month :: "nat \<Rightarrow> nat" where
  "civil_month m = (if m < 10 then m + 3 else m - 9)"

definition civil_year :: "nat \<Rightarrow> nat \<Rightarrow> nat \<Rightarrow> int" where
  "civil_year era k m = int (400 * era + k) + (if civil_month m \<le> 2 then 1 else 0)"

definition civil :: "nat \<Rightarrow> nat \<Rightarrow> int \<times> nat \<times> nat" where
  "civil era doe =
     (let k = year_of doe; doy = doe - year_start k; m = month_of doy
      in (civil_year era k m, civil_month m, doy - month_start m + 1))"

lemma civil_parts:
  assumes "k < 400" and "m < 12" and "month_start m + dd < year_days k" and "month_start m + dd < month_start (Suc m)"
  shows "civil era (year_start k + (month_start m + dd)) = (civil_year era k m, civil_month m, dd + 1)"
  using year_of_start [OF assms(1,3)] month_of_start [OF assms(2,4)] by (simp add: civil_def Let_def)

text \<open>The length of month \<open>m\<close> of the March-based year \<open>k\<close>.\<close>

lemma leap_year_mod: "leap_year (y mod 400) = leap_year y"
  by (simp add: leap_year_def mod_mod_cancel)

lemma leap_year_int: "leap_year (int n) \<longleftrightarrow> n mod 4 = 0 \<and> (n mod 100 \<noteq> 0 \<or> n mod 400 = 0)"
proof -
  have "int n mod 4 = int (n mod 4)" "int n mod 100 = int (n mod 100)" "int n mod 400 = int (n mod 400)"
    by (simp_all add: zmod_int)
  then show ?thesis by (simp only: leap_year_def of_nat_eq_0_iff)
qed

lemma leap_civil: "leap_year (int (400 * era + k) + 1) \<longleftrightarrow> year_days k = 366"
proof -
  have "int (400 * era + k) + 1 = int (Suc k) + 400 * int era" by simp
  then have "(int (400 * era + k) + 1) mod 400 = int (Suc k) mod 400" by (simp only: mod_mult_self2)
  then have "leap_year (int (400 * era + k) + 1) = leap_year (int (Suc k))" by (metis leap_year_mod)
  then show ?thesis unfolding leap_year_int by (simp add: year_days_def)
qed

lemma month_cases: "m < 11 \<Longrightarrow> m \<in> {0, 1, 2, 3, 4, 5, 6, 7, 8, 9, 10}" for m :: nat
  by simp presburger

lemma civil_month_days:
  shows "m < 11 \<Longrightarrow> month_days (civil_year era k m) (civil_month m) = month_start (Suc m) - month_start m"
    and "month_days (civil_year era k 11) (civil_month 11) = year_days k - month_start 11"
proof -
  show "m < 11 \<Longrightarrow> month_days (civil_year era k m) (civil_month m) = month_start (Suc m) - month_start m"
    by (drule month_cases) (elim insertE; simp add: month_days_def civil_month_def month_start_def)
  show "month_days (civil_year era k 11) (civil_month 11) = year_days k - month_start 11"
    using leap_civil [of era k] unfolding month_days_def civil_month_def civil_year_def
    by (simp add: month_start_def add.commute) (simp add: year_days_def)
qed

lemma next_month:
  "m < 11 \<Longrightarrow> \<not> d < month_days (civil_year era k m) (civil_month m) \<Longrightarrow>
    next_day (civil_year era k m, civil_month m, d) = (civil_year era k (Suc m), civil_month (Suc m), 1)"
  by (drule month_cases) (elim insertE; simp add: civil_month_def civil_year_def)

lemma year_start_mono: "i \<le> j \<Longrightarrow> year_start i \<le> year_start j"
  by (rule lift_Suc_mono_le [of year_start]) (simp_all add: year_start_Suc)

lemma year_start_400: "year_start 400 = 146097"
  by (simp add: year_start_def)

lemma month_late: "m < 11 \<Longrightarrow> month_start (Suc m) < year_days k"
  by (drule month_cases) (elim insertE; simp add: month_start_def year_days_def)

lemma month_before_end: "m < 12 \<Longrightarrow> month_start m < month_start (Suc m)"
  by (simp add: month_start_def)

lemma month_0: "month_start 0 = 0"
  by (simp add: month_start_def)

lemma year_0: "year_start 0 = 0"
  by (simp add: year_start_def)

text \<open>One more day, inside a month, at the end of a month, and at the end of February.\<close>

text \<open>Before the first of March.\<close>

lemma civil_year_end:
  assumes "k < 400" and doe: "Suc doe = year_start (Suc k)"
    and nxt: "next_day (civil era doe) = (int (400 * era + Suc k), 3, 1)"
  shows "next_day (civil era doe) = (if Suc doe = 146097 then civil (Suc era) 0 else civil era (Suc doe))"
proof -
  have first: "civil e (year_start i) = (int (400 * e + i), 3, 1)" if "i < 400" for e i
    using civil_parts [OF that, of 0 0 e] month_before_end [of 0]
    by (simp add: month_0 civil_year_def civil_month_def year_days_def)
  show ?thesis
  proof (cases "Suc k < 400")
    case True
    have "Suc doe \<noteq> 146097"
      using year_start_mono [of "Suc (Suc k)" 400] True doe
      by (simp add: year_start_Suc [of "Suc k"] year_start_400 year_days_def split: if_splits)
    then show ?thesis using True nxt doe first [OF True] by simp
  next
    case False
    then have "Suc k = 400" using assms(1) by simp
    moreover have "civil (Suc era) 0 = (int (400 * Suc era), 3, 1)"
      using first [of 0 "Suc era"] by (simp add: year_0)
    ultimately show ?thesis using nxt doe by (simp add: year_start_400)
  qed
qed

lemma civil_Suc:
  assumes "doe < 146097"
  shows "next_day (civil era doe) = (if Suc doe = 146097 then civil (Suc era) 0 else civil era (Suc doe))"
proof -
  obtain k doy where k: "k < 400" "doe = year_start k + doy" "doy < year_days k"
    using assms by (rule doe_split)
  have "doy < 366" using k(3) by (simp add: year_days_def split: if_splits)
  then obtain m dd where m: "m < 12" "doy = month_start m + dd" "doy < month_start (Suc m)" by (rule doy_split)
  note here = civil_parts [OF k(1) m(1) k(3) [unfolded m(2)] m(3) [unfolded m(2)], of era, folded m(2), folded k(2)]
  have next_year: "Suc doe < 146097" if "Suc doy < year_days k"
    using year_start_mono [of "Suc k" 400] k(1,2) that by (simp add: year_start_Suc year_start_400)
  consider (inside) "Suc doy < month_start (Suc m)" "Suc doy < year_days k"
    | (month_end) "m < 11" "Suc doy = month_start (Suc m)"
    | (year_end) "m = 11" "Suc doy = year_days k"
  proof (cases "m < 11")
    case True
    then show thesis using that(1,2) m(3) month_late [OF True, of k] by linarith
  next
    case False
    then have "m = 11" using m(1) by simp
    moreover have "year_days k < month_start 12" by (simp add: year_days_def month_start_def)
    ultimately show thesis using that(1,3) k(3) by (cases "Suc doy = year_days k") simp_all
  qed
  then show ?thesis
  proof cases
    case inside
    have "Suc dd < month_days (civil_year era k m) (civil_month m)"
    proof (cases "m < 11")
      case True
      then show ?thesis using inside(1) by (simp add: civil_month_days(1) m(2))
    next
      case False
      then have "m = 11" using m(1) by simp
      then show ?thesis using inside(2) civil_month_days(2) [of era k] by (simp add: m(2))
    qed
    then show ?thesis
      using civil_parts [OF k(1) m(1), of "Suc dd" era] inside here next_year [OF inside(2)]
      by (simp add: m(2) k(2))
  next
    case month_end
    have less: "Suc doy < year_days k" using month_end month_late [of m k] by simp
    have "\<not> dd + 1 < month_days (civil_year era k m) (civil_month m)"
      using month_end by (simp add: civil_month_days(1) m(2))
    from next_month [OF month_end(1) this] here
    have "next_day (civil era doe) = (civil_year era k (Suc m), civil_month (Suc m), 1)" by simp
    also have "\<dots> = civil era (Suc doe)"
      using civil_parts [OF k(1), of "Suc m" 0 era] month_end less month_before_end [of "Suc m"]
      by (simp add: k(2) flip: add_Suc_right)
    finally show ?thesis using next_year [OF less] by simp
  next
    case year_end
    have "month_days (civil_year era k 11) (civil_month 11) = dd + 1"
      using year_end by (simp add: civil_month_days(2) m(2))
    then have "next_day (civil era doe) = (int (400 * era + Suc k), 3, 1)"
      using here year_end(1) by (simp add: civil_year_def civil_month_def)
    with year_end(2) show ?thesis
      by (intro civil_year_end [OF k(1)]) (simp_all add: k(2) year_start_Suc)
  qed
qed

lemma step_div_mod: "(if Suc (z mod n) = n then f (Suc (z div n)) 0 else f (z div n) (Suc (z mod n)))
    = f (Suc z div n) (Suc z mod n)"
  by (simp add: div_Suc mod_Suc)

lemma date_after_civil: "date_after n = civil ((n + 719468) div 146097) ((n + 719468) mod 146097)"
proof (induction n)
  case 0
  have "civil 4 135080 = (1970, 1, 1)"
    by (simp add: civil_def year_of_def year_start_def month_of_def month_start_def civil_year_def civil_month_def)
  then show ?case by (simp add: date_after_def)
next
  case (Suc n)
  let ?z = "n + 719468"
  have "date_after (Suc n) = next_day (date_after n)" by (simp add: date_after_def)
  also have "\<dots> = (if Suc (?z mod 146097) = 146097 then civil (Suc (?z div 146097)) 0
      else civil (?z div 146097) (Suc (?z mod 146097)))"
    unfolding Suc by (rule civil_Suc) simp
  also have "\<dots> = civil (Suc ?z div 146097) (Suc ?z mod 146097)"
    by (rule step_div_mod)
  finally show ?case by simp
qed

section \<open>The code\<close>

lemma u64_as_i64_small: "n < 2 ^ 63 \<Longrightarrow> u64_as_i64 n = int n"
proof -
  assume "n < 2 ^ 63"
  then have "signed_take_bit 63 (int n) = int n" by (intro signed_take_bit_int_eq_self) simp_all
  moreover have "(of_nat n :: 64 word) = word_of_int (int n)" by simp
  ultimately show ?thesis unfolding u64_as_i64_def by (simp only: sint_sbintrunc') simp
qed

lemma i64_as_i32_small: "- (2 ^ 31) \<le> k \<Longrightarrow> k < 2 ^ 31 \<Longrightarrow> i64_as_i32 k = k"
proof -
  assume "- (2 ^ 31) \<le> k" "k < 2 ^ 31"
  then have "signed_take_bit 31 k = k" by (intro signed_take_bit_int_eq_self) simp_all
  then show ?thesis unfolding i64_as_i32_def sint_sbintrunc' by simp
qed

lemma i64_as_u64_small: "n < 2 ^ 64 \<Longrightarrow> i64_as_u64 (int n) = n"
  by (simp add: i64_as_u64_def unat_of_nat)

lemma sub64_exact [simp]: "b \<le> a \<Longrightarrow> a < 2 ^ 64 \<Longrightarrow> sub64 a b = a - b"
proof -
  assume "b \<le> a" "a < 2 ^ 64"
  then have "a + (2 ^ 64 - b) = (a - b) + 2 ^ 64" by simp
  then have "sub64 a b = (a - b) mod 2 ^ 64" unfolding sub64_def by (simp only: mod_add_self2)
  then show ?thesis using \<open>a < 2 ^ 64\<close> by simp
qed

lemma sdiv_pos: "0 \<le> a \<Longrightarrow> 0 < b \<Longrightarrow> a sdiv b = a div b" for a b :: int
  by (simp add: signed_divide_int_def sgn_if)

lemma year_code:
  assumes "doe < 146097"
  shows "sub64 (add64 (sub64 doe (doe div 1460)) (doe div 36524)) (doe div 146096) div 365 = year_of doe"
proof -
  have b: "doe div 1460 \<le> doe" "doe div 36524 \<le> doe" by simp_all
  have "doe div 146096 \<le> doe - doe div 1460 + doe div 36524"
  proof (cases "doe < 146096")
    case False
    then have "doe = 146096" using assms by simp
    then show ?thesis by simp
  qed simp
  then show ?thesis using assms b by (simp add: year_of_def)
qed

lemma month_code:
  assumes "k < 400" and "m < 12" and "month_start m + dd < year_days k" and "month_start m + dd < month_start (Suc m)"
  shows "sub64 (year_start k + (month_start m + dd)) (sub64 (add64 (mul64 365 k) (k div 4)) (k div 100)) = month_start m + dd"
    and "add64 (mul64 5 (month_start m + dd)) 2 div 153 = m"
    and "add64 (sub64 (month_start m + dd) (add64 (mul64 153 m) 2 div 5)) 1 = dd + 1"
    and "(if m < 10 then m + 3 else sub64 m 9) = civil_month m"
proof -
  have y: "365 * k + k div 4 - k div 100 = year_start k" using assms(1) by (simp add: year_start_def)
  have small: "year_start k + (month_start m + dd) < 146463" and days: "month_start m + dd < 366"
    using year_start_mono [of k 400] assms(1,3) by (auto simp: year_start_400 year_days_def split: if_splits)
  have "k div 100 \<le> 365 * k + k div 4" using div_le_dividend [of k 100] by linarith
  then show "sub64 (year_start k + (month_start m + dd)) (sub64 (add64 (mul64 365 k) (k div 4)) (k div 100))
      = month_start m + dd"
    using assms(1) small y by simp
  show "add64 (mul64 5 (month_start m + dd)) 2 div 153 = m"
    using month_of_start [OF assms(2,4)] days by (simp add: month_of_def)
  show "add64 (sub64 (month_start m + dd) (add64 (mul64 153 m) 2 div 5)) 1 = dd + 1"
    using assms(2) days by (simp add: month_start_def)
  show "(if m < 10 then m + 3 else sub64 m 9) = civil_month m"
    using assms(2) by (simp add: civil_month_def)
qed

lemma civil_split:
  fixes N :: nat
  defines "doe \<equiv> N mod 146097"
  obtains k m dd where "k < 400" "m < 12" "month_start m + dd < year_days k"
    "month_start m + dd < month_start (Suc m)" "N mod 146097 = year_start k + (month_start m + dd)"
    "civil (N div 146097) (N mod 146097) = (civil_year (N div 146097) k m, civil_month m, dd + 1)"
proof -
  obtain k doy where k: "k < 400" "doe = year_start k + doy" "doy < year_days k"
    using doe_split [of doe] unfolding doe_def by auto
  have "doy < 366" using k(3) by (simp add: year_days_def split: if_splits)
  then obtain m dd where m: "m < 12" "doy = month_start m + dd" "doy < month_start (Suc m)" by (rule doy_split)
  have "civil (N div 146097) doe = (civil_year (N div 146097) k m, civil_month m, dd + 1)"
    using civil_parts [OF k(1) m(1), of dd "N div 146097"] k(2,3) m(2,3) by simp
  with that [OF k(1) m(1), of dd] k(2,3) m(2,3) show thesis by (simp add: doe_def)
qed

lemma stamp_of_civil:
  assumes "n < 2 ^ 55"
  defines "date \<equiv> date_after (n div 86400)"
  shows "stamp_of n = \<lparr>st_year = fst date, st_month = fst (snd date), st_day = snd (snd date),
    st_hour = n div 3600 mod 24, st_min = n div 60 mod 60, st_sec = n mod 60\<rparr>"
proof -
  define N where "N = n div 86400 + 719468"
  let ?era = "N div 146097"
  obtain k m dd where p: "k < 400" "m < 12" "month_start m + dd < year_days k"
    "month_start m + dd < month_start (Suc m)" "N mod 146097 = year_start k + (month_start m + dd)"
    "civil ?era (N mod 146097) = (civil_year ?era k m, civil_month m, dd + 1)"
    by (rule civil_split)
  have date: "date = (civil_year ?era k m, civil_month m, dd + 1)"
    unfolding date_def date_after_civil N_def [symmetric] p(6) ..
  have secs: "u64_as_i64 n = int n" using assms(1) by (intro u64_as_i64_small) simp
  have time: "nat (int n mod 60) = n mod 60" "nat ((int n sdiv 60) mod 60) = n div 60 mod 60"
    "nat ((int n sdiv 3600) mod 24) = n div 3600 mod 24"
    by (simp_all add: sdiv_pos zdiv_int [symmetric] nat_mod_distrib nat_div_distrib)
  have z: "int n div 86400 + 719468 = int N" by (simp add: N_def zdiv_int)
  have era: "(if int N \<ge> 0 then int N else int N - 146096) sdiv 146097 = int ?era"
    by (simp add: sdiv_pos zdiv_int)
  have "int N - int ?era * 146097 = int (N mod 146097)"
    by (metis minus_div_mult_eq_mod of_nat_numeral zdiv_int zmod_int)
  moreover have "i64_as_u64 (int (N mod 146097)) = N mod 146097"
    by (rule i64_as_u64_small, rule less_trans [OF mod_less_divisor]) simp_all
  ultimately have doe: "i64_as_u64 (int N - int ?era * 146097) = year_start k + (month_start m + dd)"
    by (simp only: p(5))
  have k: "year_of (year_start k + (month_start m + dd)) = k" using year_of_start [OF p(1,3)] .
  have less: "year_start k + (month_start m + dd) < 146097"
    using mod_less_divisor [of 146097 N] unfolding p(5) by simp
  note code = year_code [OF less, unfolded k] month_code [OF p(1-4)]
  have "?era < 2 ^ 22" using assms(1) by (simp add: N_def less_mult_imp_div_less)
  then have "0 \<le> civil_year ?era k m" "civil_year ?era k m < 2 ^ 31"
    using p(1) by (simp_all add: civil_year_def)
  then have year: "i64_as_i32 (if civil_month m \<le> 2 then int k + int ?era * 400 + 1 else int k + int ?era * 400)
      = civil_year ?era k m"
    by (subst i64_as_i32_small) (simp_all add: civil_year_def split: if_splits)
  show ?thesis
    unfolding stamp_of_def Let_def secs time z era doe code year date by simp
qed

end
