(* ===== verification/Logging_Props.thy ===== *)
theory Logging_Props
  imports Calendar
begin

text \<open>The properties of the logger: its time stamps, and the bytes it adds to a message.\<close>

text \<open>C30. Time stamps. The closed formulas of \<open>fmt_now\<close>, with all their machine arithmetic, give the
  Gregorian date reached by counting days one at a time from the first of January 1970, and the hour,
  minute and second of the day, for the next thousand million years.\<close>

theorem stamp_is_calendar:
  assumes "secs < 2 ^ 55"
  shows "let t = stamp_of secs in
      (st_year t, st_month t, st_day t) = (next_day ^^ (secs div 86400)) (1970, 1, 1)
    \<and> st_hour t < 24 \<and> st_min t < 60 \<and> st_sec t < 60
    \<and> (st_hour t * 60 + st_min t) * 60 + st_sec t = secs mod 86400"
proof -
  have "secs mod 86400 = (secs div 3600 mod 24) * 3600 + secs mod 3600"
    using mod_mult2_eq [of secs 3600 24] by simp
  moreover have "secs mod 3600 = (secs div 60 mod 60) * 60 + secs mod 60"
    using mod_mult2_eq [of secs 60 60] by simp
  ultimately show ?thesis
    by (simp add: stamp_of_civil [OF assms] Let_def) (simp add: date_after_def)
qed

text \<open>The leap day of the year 2000.\<close>

theorem stamp_is_calendar_witness:
  "stamp_of 951868799 = \<lparr>st_year = 2000, st_month = 2, st_day = 29, st_hour = 23, st_min = 59, st_sec = 59\<rparr>
    \<and> (2000, 2, 29) = (next_day ^^ (951868799 div 86400)) (1970, 1, 1)"
proof -
  have "stamp_of 951868799 = \<lparr>st_year = 2000, st_month = 2, st_day = 29, st_hour = 23, st_min = 59, st_sec = 59\<rparr>"
    by code_simp
  with stamp_is_calendar [of 951868799] show ?thesis by (simp add: Let_def)
qed

section \<open>Log lines\<close>

definition printable :: "byte \<Rightarrow> bool" where
  "printable b \<longleftrightarrow> b = 0x09 \<or> 0x20 \<le> b \<and> b \<le> 0x7E"

lemma printable_digits: "list_all is_digit s \<Longrightarrow> list_all printable s"
  by (auto simp: list_all_iff is_digit_def printable_def word_le_nat_alt)

lemma printable_fmt [simp]: "list_all printable (fmt_zero_padded w n)"
  by (rule printable_digits [OF fmt_zero_padded_digits])

lemma printable_signed [simp]: "list_all printable (fmt_signed_padded w k)"
  by (simp add: fmt_signed_padded_def) (simp add: printable_def)

lemma printable_now: "list_all printable (fmt_now clock)"
  by (simp add: fmt_now_def Let_def split: prod.split) (simp add: printable_def)

lemma printable_level: "list_all printable (level_name l)"
  by (cases l) (simp_all add: printable_def)

lemma printable_log_safe: "list_all printable (log_safe s)"
proof -
  have "list_all printable c" if "is_ascii_graphic c \<or> c = [0x20] \<or> c = [0x09]" for c
  proof (cases "is_ascii_graphic c")
    case True
    then obtain b where "c = [b]" by (auto simp: is_ascii_graphic_def length_Suc_conv)
    with True show ?thesis by (auto simp: is_ascii_graphic_def printable_def word_le_nat_alt)
  qed (use that in \<open>auto simp: printable_def\<close>)
  then show ?thesis by (auto simp: log_safe_def list_all_iff)
qed

end
