(* ===== verification/Worker_Log_Props.thy ===== *)
theory Worker_Log_Props
  imports Worker_Log Logging_Props Examples
begin

text \<open>
  That what the receiver logs about remote data stays on one line, except for the one message that
  carries a path as it is.
\<close>

section \<open>One line\<close>

text \<open>No ASCII control byte but the tab: nothing a terminal or a log file takes for the end of a line.\<close>

definition text_byte :: "byte \<Rightarrow> bool" where
  "text_byte b \<longleftrightarrow> b = 9 \<or> 0x20 \<le> b \<and> b \<noteq> 0x7F"

definition one_line :: "bytes \<Rightarrow> bool" where
  "one_line s \<longleftrightarrow> list_all text_byte s"

lemma one_line_append [simp]: "one_line (s @ t) \<longleftrightarrow> one_line s \<and> one_line t"
  by (simp add: one_line_def)

lemma one_line_Nil [simp]: "one_line []"
  by (simp add: one_line_def)

lemma one_line_Cons [simp]: "one_line (b # s) \<longleftrightarrow> text_byte b \<and> one_line s"
  by (simp add: one_line_def)

lemma printable_one_line: "list_all printable s \<Longrightarrow> one_line s"
  by (auto simp: one_line_def list_all_iff printable_def text_byte_def word_le_nat_alt)

lemma one_line_dec [simp]: "one_line (fmt_dec n)"
  by (rule printable_one_line [OF printable_digits [OF fmt_dec_digits]])

lemma one_line_safe [simp]: "one_line (log_safe s)"
  by (rule printable_one_line [OF printable_log_safe])

lemma text_hex_digit: "d < 16 \<Longrightarrow> text_byte (hex_digit d)"
  using unat_digit [of d] by (auto simp: hex_digit_def text_byte_def word_le_nat_alt unat_of_nat unat_arith_simps)

lemma one_line_hex [simp]: "one_line (fmt_hex n)"
proof (induction n rule: fmt_hex.induct)
  case (1 n)
  then show ?case by (simp add: fmt_hex.simps [of n] one_line_def text_hex_digit)
qed

lemma one_line_hex_encode [simp]: "one_line (hex_encode s)"
proof -
  have "unat b div 16 < 16" for b :: byte using unsigned_less [of b, where 'a = nat] by (simp add: less_mult_imp_div_less)
  then show ?thesis
    by (induction s) (simp_all add: hex_encode_def fmt_hex2_def one_line_def text_hex_digit)
qed

text \<open>A character of a string is one byte, or has no ASCII byte at all.\<close>

lemma utf8_next_high:
  assumes "utf8_next s = (True, n)" and "n \<noteq> 1" and "i < n"
  shows "0x80 \<le> byte_at s i"
proof -
  have n: "n \<in> {2, 3, 4}" and b: "0x80 \<le> byte_at s 0"
    using assms(1,2) by (auto simp: utf8_next_def Let_def word_le_nat_alt word_less_nat_alt split: if_splits)
  have c: "0x80 \<le> byte_at s 1"
    using assms(1,2) by (auto simp: utf8_next_def Let_def second_ok_def is_cont_def word_le_nat_alt split: if_splits)
  have d: "0x80 \<le> byte_at s 2" if "2 < n"
    using assms(1) that by (auto simp: utf8_next_def Let_def is_cont_def split: if_splits)
  have e: "0x80 \<le> byte_at s 3" if "3 < n"
    using assms(1) that by (auto simp: utf8_next_def Let_def is_cont_def split: if_splits)
  have "i = 0 \<or> i = 1 \<or> i = 2 \<or> i = 3" using n assms(3) by auto
  with b c d e assms(3) show ?thesis by auto
qed

lemma chars_high: "list_all (\<lambda>c. length c = 1 \<or> list_all (\<lambda>b. 0x80 \<le> b) c) (str_chars s)"
proof (induction s rule: utf8_chunks.induct)
  case (1 s)
  show ?case
  proof (cases "s = []")
    case True
    then show ?thesis by (simp add: str_chars_def)
  next
    case False
    obtain ok n where n: "utf8_next s = (ok, n)" by force
    have "length (take n s) = 1 \<or> list_all (\<lambda>b. 0x80 \<le> b) (take n s)" if ok
    proof (cases "n = 1")
      case True
      with False show ?thesis by (cases s) auto
    next
      case n1: False
      have "0x80 \<le> b" if "b \<in> set (take n s)" for b
      proof -
        from that obtain i where "i < n" "i < length s" "b = s ! i" by (auto simp: in_set_conv_nth)
        with utf8_next_high [OF n [unfolded eqTrueI [OF \<open>ok\<close>]] n1 \<open>i < n\<close>] show ?thesis by (simp add: byte_at_def)
      qed
      then show ?thesis by (simp add: list_all_iff)
    qed
    with "1.IH" [OF False n [symmetric] refl] False n show ?thesis
      by (simp add: str_chars_def utf8_chunks.simps [of s])
  qed
qed

lemma one_line_high: "list_all (\<lambda>b. 0x80 \<le> b) c \<Longrightarrow> one_line c"
  by (auto simp: one_line_def list_all_iff text_byte_def word_le_nat_alt)

lemma one_line_debug_char:
  assumes "length c = 1 \<or> list_all (\<lambda>b. 0x80 \<le> b) c" and "list_all one_line quotes"
  shows "one_line (debug_char shown quotes c)"
proof -
  have "one_line c" if "length c = 1 \<longrightarrow> 0x20 \<le> hd c \<and> hd c \<le> 0x7E"
  proof (cases "length c = 1")
    case True
    then obtain b where "c = [b]" by (auto simp: length_Suc_conv)
    with that show ?thesis by (intro printable_one_line) (simp add: printable_def)
  qed (use assms(1) one_line_high in auto)
  moreover have "one_line c" if "c \<in> set quotes" using that assms(2) by (simp add: list_all_iff)
  moreover have "text_byte backslash" by (simp add: backslash_def text_byte_def)
  ultimately show ?thesis
    by (auto simp: debug_char_def split: if_splits) (simp_all add: text_byte_def backslash_def)
qed

lemma one_line_debug:
  assumes "list_all one_line quotes"
  shows "one_line (debug_quoted shown quotes s)"
proof -
  have "one_line (concat (map (debug_char shown quotes) cs))"
    if "list_all (\<lambda>c. length c = 1 \<or> list_all (\<lambda>b. 0x80 \<le> b) c) cs" for cs
    using that by (induction cs) (simp_all add: one_line_debug_char [OF _ assms])
  from this [OF chars_high] show ?thesis
    by (simp add: debug_quoted_def text_byte_def)
qed

lemma one_line_debug_str [simp]: "one_line (debug_str le s)" "one_line (debug_path le s)"
  by (simp_all add: debug_str_def debug_path_def one_line_debug text_byte_def)

section \<open>The messages\<close>

definition calm :: "message list \<Rightarrow> bool" where
  "calm ms \<longleftrightarrow> list_all (\<lambda>m. log_enabled (fst m) \<and> one_line (snd m)) ms"

lemma enabled_levels [simp]: "log_enabled Error" "log_enabled Warn" "log_enabled Info"
  by (simp_all add: log_enabled_def less_eq_level_def)

lemma calm_simps [simp]:
  "calm []" "calm (m # ms) \<longleftrightarrow> log_enabled (fst m) \<and> one_line (snd m) \<and> calm ms" "calm (ms @ ns) \<longleftrightarrow> calm ms \<and> calm ns"
  by (simp_all add: calm_def)

lemma one_line_quoted [simp]: "one_line (quoted le s)"
  by (simp add: quoted_def text_byte_def)

lemma calm_chunk: "calm (chunk_log md5 p st t)"
  by (simp add: chunk_log_def text_byte_def)

lemma calm_buffer: "calm (buffer_data_log le st p)" "calm (buffer_parity_log le st p i)"
  by (simp_all add: buffer_data_log_def buffer_parity_log_def limit_log_def text_byte_def)

lemma calm_reset: "calm (reset_log le st success)"
  by (simp add: reset_log_def text_byte_def split: option.split)

lemma calm_new_file: "one_line (le_io le) \<Longrightarrow> calm (new_file_log le out path n ppb w)"
  by (simp add: new_file_log_def Let_def calm_reset text_byte_def split: option.split)

lemma one_line_finalize_text:
  "one_line (le_io le) \<Longrightarrow> one_line (le_fec le) \<Longrightarrow> one_line (finalize_text fec le st e)"
  by (cases e) (simp_all add: finalize_text_def Let_def text_byte_def)

lemma calm_finalize: "calm (finalize_log fec st)"
  by (simp add: finalize_log_def Let_def text_byte_def split: sum.split)

lemma calm_advance: "one_line (le_io le) \<Longrightarrow> one_line (le_fec le) \<Longrightarrow> calm (advance_log fec le target st f)"
proof (induction fec le target st f rule: advance_log.induct)
  case (1 fec le target st f)
  then show ?case
    by (subst advance_log.simps)
      (simp add: calm_finalize one_line_finalize_text text_byte_def split: prod.split sum.split)
qed

lemma calm_data:
  assumes "one_line (le_io le)" and "one_line (le_fec le)"
  shows "calm (data_log env le p w)" and "calm (parity_log env le p w)"
  by (simp_all add: data_log_def parity_log_def advance_rx_log_def Let_def calm_chunk calm_buffer calm_advance [OF assms])

lemma calm_lock: "calm (lock_log w)"
  by (simp add: lock_log_def text_byte_def)

lemma one_line_digest_warning:
  assumes "one_line (le_io le)" and "one_line what"
  shows "one_line (snd (digest_warning le out p what)) \<longleftrightarrow> one_line (path_join out p)"
  using assms by (simp add: digest_warning_def text_byte_def)

text \<open>The one message that need not be one line: the path in progress stands in it as it is.\<close>

definition raw_path_warning :: "'d rx_env \<Rightarrow> 'h log_env \<Rightarrow> rx \<Rightarrow> message \<Rightarrow> bool" where
  "raw_path_warning env le w m \<longleftrightarrow>
     (\<exists>p. file_path (rx_state w) = Some p \<and> \<not> one_line (path_join (env_out env) p)
        \<and> (m = digest_warning le (env_out env) p (ascii ''open'')
           \<or> m = digest_warning le (env_out env) p (ascii ''read'')))"

definition lines_ok :: "'d rx_env \<Rightarrow> 'h log_env \<Rightarrow> rx \<Rightarrow> message list \<Rightarrow> bool" where
  "lines_ok env le w ms \<longleftrightarrow> list_all (\<lambda>m. log_enabled (fst m) \<and> (one_line (snd m) \<or> raw_path_warning env le w m)) ms"

lemma lines_ok_calm: "calm ms \<Longrightarrow> lines_ok env le w ms"
  by (auto simp: calm_def lines_ok_def list_all_iff)

lemma lines_ok_append [simp]: "lines_ok env le w (ms @ ns) \<longleftrightarrow> lines_ok env le w ms \<and> lines_ok env le w ns"
  by (simp add: lines_ok_def)

lemma lines_ok_Cons: "lines_ok env le w (m # ms) \<longleftrightarrow>
    log_enabled (fst m) \<and> (one_line (snd m) \<or> raw_path_warning env le w m) \<and> lines_ok env le w ms"
  by (simp add: lines_ok_def)

lemma sha256_one_line: "sha256_file h open_file path = Some digest \<Longrightarrow> one_line digest"
  by (auto simp: sha256_file_def hash_reader_def split: option.splits)

lemma digest_log_lines:
  assumes "one_line (le_io le)" and "file_path (rx_state w) = Some p"
  shows "one_line (snd (digest_log le (env_out env) p)) \<or> raw_path_warning env le w (digest_log le (env_out env) p)"
proof (cases "sha256_file (le_hasher le) (le_open le) (path_join (env_out env) p)")
  case None
  have "one_line (ascii ''open'')" "one_line (ascii ''read'')" by (simp_all add: text_byte_def)
  with None one_line_digest_warning [OF assms(1), of _ "env_out env" p] assms(2) show ?thesis
    by (auto simp: digest_log_def raw_path_warning_def)
next
  case (Some digest)
  with sha256_one_line [OF Some] show ?thesis by (simp add: digest_log_def Let_def text_byte_def)
qed

lemma digest_log_level: "log_enabled (fst (digest_log le out p))"
  by (simp add: digest_log_def digest_warning_def Let_def split: option.split)

lemma publish_log_lines:
  assumes "one_line (le_io le)" and "file_path (rx_state w) = Some p"
  shows "lines_ok env le w (publish_log le (env_out env) p v)"
  using digest_log_lines [OF assms, of env] assms(1)
  by (simp add: publish_log_def lines_ok_Cons lines_ok_calm digest_log_level calm_reset text_byte_def)

lemma finish_log_lines:
  assumes "one_line (le_io le)" and "one_line (le_fec le)"
  shows "lines_ok env le w (finish_log env le w)"
proof (cases "file_path (rx_state w)")
  case None
  then show ?thesis by (simp add: finish_log_def lines_ok_calm)
next
  case (Some p)
  have "calm (case r of Inl e \<Rightarrow> [(Error, ascii ''Final batch failed for '' @ quoted le p @ ascii '': ''
      @ finalize_text (env_fec env) le (rx_state w) e)] | Inr u \<Rightarrow> [])" for r :: "finalize_error + unit"
    by (simp add: one_line_finalize_text [OF assms] text_byte_def split: sum.split)
  with Some show ?thesis
    by (simp add: finish_log_def Let_def lines_ok_calm calm_finalize calm_reset publish_log_lines [OF assms(1)])
qed

lemma step_log_lines:
  assumes "one_line (le_io le)" and "one_line (le_fec le)" and "unpoisoned w"
  shows "lines_ok env le w (step_log env le w raw)"
proof (cases "decode_packet raw")
  case None
  have "calm [(Error, ascii ''Failed to decode packet'')]" by (simp add: text_byte_def)
  with None show ?thesis by (simp add: step_log_def lines_ok_calm)
next
  case (Some p)
  have "acquire_state env w = w" using assms(3) by (simp add: acquire_state_def unpoisoned_def)
  moreover have "lines_ok env le w (packet_log env le p w)"
    using finish_log_lines [OF assms(1,2), of env w]
    by (auto simp: packet_log_def Let_def intro!: lines_ok_calm calm_new_file calm_data assms)
  ultimately show ?thesis using Some by (simp add: step_log_def lines_ok_calm calm_lock)
qed

section \<open>The error stream\<close>

text \<open>The line a message is on the error stream.\<close>

definition stderr_line :: "(nat \<times> nat) option \<Rightarrow> message \<Rightarrow> bytes" where
  "stderr_line clock m = fmt_now clock @ ascii '' '' @ level_name (fst m) @ ascii '': '' @ snd m"

lemma one_line_stderr [simp]: "one_line (stderr_line clock m) \<longleftrightarrow> one_line (snd m)"
  by (simp add: stderr_line_def printable_one_line [OF printable_now] printable_one_line [OF printable_level] text_byte_def)

lemma stderr_log_messages:
  "list_all (\<lambda>m. log_enabled (fst m)) ms \<Longrightarrow>
    stderr_lines (log_messages clock syslog ms out) = stderr_lines out @ map (stderr_line clock) ms"
proof (induction ms arbitrary: out)
  case (Cons m ms)
  have "stderr_lines (log_record clock syslog (fst m) (snd m) out) = stderr_lines out @ [stderr_line clock m]"
    using Cons.prems by (simp add: log_record_def stderr_line_def Let_def split: option.split bool.split)
  with Cons show ?case by (simp add: log_messages_def case_prod_beta')
qed (simp add: log_messages_def)

text \<open>C31. Log lines. Whatever datagrams have arrived, handling one more puts every message of the
  receiver's worker on the error stream as one line, without control bytes except tabs, provided the
  messages of the system and the crate are such, with one exception: when the digest of the received
  file cannot be computed, the warning quotes the path a second time as it is, through the error of
  \<open>sha256_file\<close>, and is one line only if that path is.\<close>

theorem log_lines_safe:
  assumes "one_line (le_io le)" and "one_line (le_fec le)"
  shows "let w = worker_state env f raws; ms = step_log env le w raw in
     stderr_lines (log_messages clock syslog ms out) = stderr_lines out @ map (stderr_line clock) ms
     \<and> list_all (\<lambda>m. one_line (stderr_line clock m) \<or> raw_path_warning env le w m) ms"
proof -
  have "lines_ok env le (worker_state env f raws) (step_log env le (worker_state env f raws) raw)"
    by (rule step_log_lines [OF assms worker_state_unpoisoned])
  then have "list_all (\<lambda>m. log_enabled (fst m)) (step_log env le (worker_state env f raws) raw)"
    "list_all (\<lambda>m. one_line (snd m) \<or> raw_path_warning env le (worker_state env f raws) m)
      (step_log env le (worker_state env f raws) raw)"
    by (simp_all add: lines_ok_def list_all_iff)
  then show ?thesis by (simp add: Let_def stderr_log_messages)
qed

section \<open>A forged line\<close>

text \<open>
  A file of no bytes whose name holds a line break. The check accepts the name. If the digest cannot be computed, because opening the file fails for lack of descriptors, say, the
  warning is more than one line.
\<close>

definition forged_path :: bytes where
  "forged_path = ascii ''a'' @ [10] @ ascii ''b''"

definition quiet_log :: "unit log_env" where
  "quiet_log = \<lparr>le_io = [], le_fec = [], le_hasher = \<lparr>sha_new = (), sha_update = \<lambda>s d. s, sha_finalize = \<lambda>s. []\<rparr>,
     le_open = \<lambda>p. None, le_len = \<lambda>p. None, le_shown = \<lambda>c. True\<rparr>"

lemma empty_file_log:
  assumes "receiving env rel [] par c 0 {} {} w" and "file_form rel" and "n < 10 ^ 10" and "unpoisoned w"
  shows "step_log env le w (end_packet rel n) = [digest_log le (env_out env) rel, (Info, ascii ''Finished receiving '' @ quoted le rel)]"
proof -
  let ?out = "env_out env"
  have tr: "transfer_of env rel [] 0 w" using assms(1) by (simp add: receiving_def)
  then have fin: "finalize_current_batch (env_fec env) (rx_state w) (rx_fs w) = (Inr (), clear_buffers (rx_state w), rx_fs w)"
    "finalize_log (env_fec env) (rx_state w) = []"
    by (simp_all add: finalize_current_batch_def finalize_log_def batch_data_size_def transfer_of_def Let_def)
  have fs: "fs_open ?out rel [] (rx_fs w)" and st: "file_path (rx_state w) = Some rel" "\<not> failed (rx_state w)"
    using assms(1) by (simp_all add: receiving_def transfer_of_def written_def)
  have "is_dir (rx_fs w) (butlast (final_at ?out rel))" "final_at ?out rel \<noteq> []"
    using fs by (auto simp: files_at(1) [OF assms(2)] is_dir_def fs_open_def)
  then obtain g where "rename_file (partial_path ?out rel) (path_join ?out rel) (rx_fs w) = (True, g)"
    using rename_file_clean [of "rx_fs w" "partial_path ?out rel" "[]" "path_join ?out rel"] fs assms(2)
    by (auto simp: fs_open_def partial_at_def final_at_def)
  with fin st assms(3,4) show ?thesis
    by (simp add: step_log_def acquire_state_def unpoisoned_def lock_log_def packet_log_def finish_log_def
        finalize_last_def publish_log_def reset_log_def clear_buffers_def decode_end_packet pkg_type_defs Let_def)
qed

lemma forged_ok: "path_ok forged_path"
  by code_simp

lemma forged_names: "names forged_path = [forged_path]"
  by code_simp

lemma forged_ready: "fs_ready (ascii ''o'') forged_path example_fs"
proof -
  have "file_form forged_path" using path_ok_form [OF forged_ok] .
  then show ?thesis
    by (simp add: fs_ready_def files_at parent_at_def example_names forged_names example_fs_def clean_def
        proper_prefixes_def del: ascii_Cons)
qed

lemma forged_open: "receiving rep_env forged_path [] par (0, 0) 0 {} {}
    (worker_state rep_env example_fs [start_packet (env_md5 rep_env) forged_path 0])"
proof -
  let ?w = "initial_rx example_fs"
  have w: "rx_state ?w = new_receive_state" "\<not> rx_state_poisoned ?w" "rx_fs ?w = example_fs" "file_counts ?w = (0, 0)"
    by (simp_all add: initial_rx_def file_counts_def new_stats_def)
  have ready: "fs_ready (env_out rep_env) forged_path (rx_fs ?w)" unfolding w rep_env_out by (rule forged_ready)
  have len: "length ([] :: bytes) < 10 ^ 10" by simp
  from start_step(1) [OF example_width forged_ok len w(1,2) ready, of par]
  show ?thesis by (simp add: worker_state_def worker_run_def w(4))
qed

theorem log_lines_safe_witness:
  "let w = worker_state rep_env example_fs [start_packet (env_md5 rep_env) forged_path 0];
       lines = stderr_lines (log_messages (Some (0, 0)) None
         (step_log rep_env quiet_log w (end_packet forged_path 0)) \<lparr>stderr_lines = [], syslog_msgs = []\<rparr>) in
   length lines = 2 \<and> \<not> one_line (lines ! 0) \<and> one_line (lines ! 1)"
proof -
  let ?start = "start_packet (env_md5 rep_env) forged_path 0"
  let ?w = "worker_state rep_env example_fs [?start]"
  have quiet: "one_line (le_io quiet_log)" "one_line (le_fec quiet_log)" by (simp_all add: quiet_log_def)
  have log: "step_log rep_env quiet_log ?w (end_packet forged_path 0)
      = [digest_warning quiet_log (ascii ''o'') forged_path (ascii ''open''),
         (Info, ascii ''Finished receiving '' @ quoted quiet_log forged_path)]"
    using empty_file_log [OF forged_open path_ok_form [OF forged_ok] _ worker_state_unpoisoned, of 0 quiet_log]
    by (simp add: digest_log_def sha256_file_def hash_reader_def quiet_log_def Let_def del: ascii_Cons)
  have "\<not> one_line (path_join (ascii ''o'') forged_path)" by code_simp
  then have "\<not> one_line (snd (digest_warning quiet_log (ascii ''o'') forged_path (ascii ''open'')))"
    using one_line_digest_warning [OF quiet(1), of "ascii ''open''"] by (simp add: text_byte_def)
  then show ?thesis
    using log_lines_safe [OF quiet, of rep_env example_fs "[?start]" "end_packet forged_path 0" "Some (0, 0)" None
        "\<lparr>stderr_lines = [], syslog_msgs = []\<rparr>"] log
    by (simp add: Let_def raw_path_warning_def digest_warning_def text_byte_def del: ascii_Cons)
qed

end
