(* ===== verification/Spec2Isabelle.thy ===== *)
theory Spec2Isabelle
  imports Programs Reject_Props Worker_Type Worker_Props Path_Props Udp_Props Sender_Props Digest Worker_Log_Props
begin

text \<open>
  A data diode in two programs. \<^verbatim>\<open>diode_send\<close> watches a directory and pushes every file in it, and
  datagrams it receives, as UDP packets over a one-way link; \<^verbatim>\<open>diode_receive\<close> rebuilds files and
  datagrams on the other side. Nothing ever flows back, so lost packets are made up for by
  Reed-Solomon recovery packets for each batch of a thousand chunks. This development models the
  Rust code of the workspace and proves what it promises, from the path check up to the two whole
  programs, and records where it keeps less than its comments and README say.

  The parts and their theories.

  \<^item> \<open>Prelude\<close>: bytes, 64-bit arithmetic, and the three interfaces (locales) the components share:
    \<open>machine\<close> (a step that keeps an invariant), \<open>transitions\<close> (a step relation), \<open>codec\<close> (a
    decoder that inverts an encoder); \<open>ordered_map\<close> is in \<open>Btree\<close>. \<open>Rstr\<close>, \<open>Rnum\<close>, \<open>Rpath\<close>, \<open>Btree\<close>, \<open>Fs\<close>, \<open>F64\<close>: what the code
    uses of the Rust standard library, namely UTF-8 strings, number formatting and parsing, \<open>Path\<close> on
    Unix, \<open>BTreeMap\<close>, the file system with injected failures, and binary64 arithmetic.
  \<^item> \<open>Proto\<close>, \<open>Packet\<close>: \<^verbatim>\<open>diode_common/src/proto.rs\<close> and \<^verbatim>\<open>hash.rs\<close> (constants, packet encoder, parity
    field, path check), and \<^verbatim>\<open>decode_packet\<close> of the receiver; \<open>Path_Props\<close> reads the path check off the
    string.
  \<^item> \<open>Receiver\<close>: \<^verbatim>\<open>ReceiveState\<close>, \<^verbatim>\<open>Stats\<close>, chunk checks, batch buffers, opening output files,
    \<^verbatim>\<open>finalize_current_batch\<close> and \<^verbatim>\<open>advance_to_batch\<close>; \<open>Worker\<close>: \<^verbatim>\<open>new_file\<close>, \<^verbatim>\<open>finish_file\<close> and the
    loop of the worker thread in \<^verbatim>\<open>main\<close>, one step per datagram.
  \<^item> \<open>Sender\<close>: \<^verbatim>\<open>send_to_blocking\<close> to \<^verbatim>\<open>send_file_chunks\<close>; \<open>Scan\<close>: \<^verbatim>\<open>walk_files\<close>, \<^verbatim>\<open>is_file_stable\<close>,
    \<^verbatim>\<open>send_files\<close>; \<open>Pacer\<close> and \<open>Bitrate\<close>: \<^verbatim>\<open>Pacer::wait\<close> as interleaved steps of any number of threads
    on one relaxed atomic variable, and the interval computed from the bit rate.
  \<^item> \<open>Udp_Send\<close>, \<open>Udp\<close>: the datagram forwarders \<^verbatim>\<open>spawn_udp_forwarder\<close> and \<^verbatim>\<open>forward_udp_packets\<close>.
  \<^item> \<open>Logging\<close>: \<^verbatim>\<open>fmt_now\<close> and the logger; \<open>Worker_Log\<close>: every log call of the packet worker, with its
    text and the quoting of \<^verbatim>\<open>{:?}\<close>; \<open>Display\<close>: the serial display of the receiver, with writes that
    stop partway and the panic on a poisoned lock;
    \<open>Digest\<close>: the checksum tool \<^verbatim>\<open>sha256.rs\<close> and \<^verbatim>\<open>sha256_file\<close>; \<open>Start\<close>: both \<^verbatim>\<open>main\<close> functions,
    their arguments, the socket tuning and the listening threads.

  How they fit together: the sender's functions append to the list \<open>wire\<close> of datagrams the kernel
  took; the worker folds \<open>worker_step\<close> over such a list, or over any list when the peer is
  hostile or the link loses packets; it hands datagram packets on in \<open>rx_udp\<close>, over which
  \<open>udp_run\<close> folds the forwarder.

  The groups of lemmas.

  \<^item> Invariants: \<open>Batch\<close>, \<open>Receiver_Inv\<close> (the buffers of a batch), \<open>Contain\<close> (operations stay in the
    output directory), \<open>Worker_Inv\<close> (every handler keeps the worker's invariant, under any failures
    of file calls); \<open>Worker_Facts\<close> (bounds and outcomes), \<open>Worker_Run\<close> (no step poisons a lock, a packet dealt
    with stays dealt with until the transfer ends, every START is accounted for) and \<open>Worker_Props\<close>
    draw the conclusions for arbitrary datagrams; \<open>Worker_Type\<close>: what a poisoned state lock would do.
  \<^item> Delivery: \<open>Chunks\<close> (the arithmetic of chunks and batches), \<open>Fs_Clean\<close> and \<open>Opening\<close> (what the
    calls do when none fails), \<open>Batch_Write\<close> (a recoverable batch is written), \<open>Collect\<close> and
    \<open>Delivery\<close> (a transfer seen as sets of packets received), \<open>Sender_Wire\<close> (what the sender emits),
    \<open>Delivery_Wire\<close> (the two composed).
  \<^item> Refinement: \<open>Scan_Props\<close> (the walk finds exactly the regular files), \<open>Directory\<close> and
    \<open>Directory_Props\<close> (a scan makes the receiver's directory a mirror), \<open>Programs\<close> (both programs from
    their arguments on, over many rounds, refine copying a set of files). \<open>Reject_Props\<close>: the files
    for which this fails, and why.
  \<^item> \<open>Udp_Facts\<close>, \<open>Udp_Props\<close>; \<open>Pacer_Props\<close>; \<open>Calendar\<close>, \<open>Logging_Props\<close>, \<open>Worker_Log_Props\<close> (what
    is logged about remote data is one line, with one exception); \<open>Display_Props\<close>;
    \<open>Sender_Props\<close>. \<open>Examples\<close> holds the concrete environment the witnesses share.

  This theory has the properties that span the two programs for one file or one datagram.

  Parameters. MD5, SHA-256 and the Reed-Solomon coder are crates outside the repository and are
  arguments of the definitions. Of MD5 only the digest width is used (\<open>md5_width\<close>), of the
  encoder for transfers without loss only the shape of its output (\<open>fec_shape\<close>), and for
  transfers with loss the documented promise that any \<open>k\<close> of the shards restore the \<open>k\<close> originals
  (\<open>fec_mds\<close>). Clocks, the kernel's answers, short reads, unstable files and failing file calls are
  schedules, arbitrary unless a hypothesis says otherwise.

  Conventions. Unsigned integers are natural numbers below \<open>2 ^ 64\<close> with the wrap-around written out
  (\<open>add64\<close>, \<open>mul64\<close>), as in a release build, which also has no debug assertions. The model has no
  fuel: every loop of the code terminates structurally or by a measure, except the retry loop
  \<open>send_loop\<close>, a \<open>partial_function\<close> whose value \<open>None\<close> is a call that never returns; when it
  returns is a property. The bound of ten thousand million bytes for a file is the ten digits of the
  packet header; above it the header shifts, which is proved too.

  Not modelled: the crates themselves (command line, syslog connection, serial port, hashers, coder),
  the interleaving of the sender's two threads on the socket beyond the pacer, the sleeps between scan
  rounds, allocation sizes, the log calls outside the receiver's packet worker, other
  programs changing the output directory while the receiver runs, and symbolic links inside it; and
  what is not Rust: the scripts, the Arduino sketch, service files and documentation.
\<close>

section \<open>End to end\<close>

text \<open>C3. End to end without loss. Let a file \<open>F\<close> below 10 GB be sent under an acceptable path, with
  whatever short reads, interrupted reads and full kernel buffers, as long as the kernel in the end
  takes every datagram; let the receiver start over an output directory where the file fits and
  no file call fails. Then the sender returns, succeeds and removes its source, and the datagrams
  it sent, fed to the receiver in order, leave exactly \<open>F\<close> at the final path, no partial file, one
  file counted as received and none as failed. Of the digest and the encoder only the width and
  the shape are used: no promise of error correction is needed.\<close>

theorem sender_to_receiver:
  assumes "accepts (outcomes t)" and "wire t = []"
    and "src_len src = Some (length F)" and "src_open src = Some r" and "rd_rest r = F"
    and "reads_ok r" and "src_remove src"
    and "md5_width (env_md5 env)" and "fec_shape enc"
    and "path_ok rel" and "length F < 10 ^ 10" and "fs_ready (env_out env) rel f"
  shows "\<exists>t'. send_file_chunks (env_md5 env) enc max_backoff src full_path rel t = Some (True, t')
    \<and> removed t' = removed t @ [full_path]
    \<and> delivered env rel F (1, 0) (worker_state env f (wire t'))"
proof -
  obtain t' where t': "send_file_chunks (env_md5 env) enc max_backoff src full_path rel t = Some (True, t')"
    "wire t' = file_wire (env_md5 env) enc rel F" "removed t' = removed t @ [full_path]"
    using send_file_chunks_emits [OF assms(1,3-7), of "env_md5 env" enc max_backoff full_path rel] assms(2)
    by auto
  have "\<exists>xs. arrives env rel F (batch_parity enc F) b xs (batch_wire (env_md5 env) enc rel F b)"
    if "b < num_batches (length F)" for b
    using arrives_all [OF assms(8) that assms(11) fec_shape_fits [OF assms(9)]] .
  from deliver [OF assms(8,10,11) _ _ _ this, of "initial_rx f" CONTROL_RESEND CONTROL_RESEND] assms(12)
  have "delivered env rel F (1, 0) (worker_state env f (file_wire (env_md5 env) enc rel F))"
    by (simp add: initial_rx_def file_counts_def new_stats_def CONTROL_RESEND_def file_wire_def
        worker_state_def worker_run_def del: foldl_append)
  with t' show ?thesis by auto
qed

text \<open>Three bytes, sent through short and interrupted reads and a kernel that is full at first.\<close>

theorem sender_to_receiver_witness:
  "\<exists>t'. send_file_chunks (env_md5 rep_env) rep_enc 250 example_source (ascii ''s/a'') (ascii ''a'') example_tx
      = Some (True, t')
    \<and> removed t' = removed example_tx @ [ascii ''s/a'']
    \<and> delivered rep_env (ascii ''a'') [7, 8, 9] (1, 0) (worker_state rep_env example_fs (wire t'))"
proof (rule sender_to_receiver [where r = example_reader])
  show "accepts (outcomes example_tx)" by (rule example_accepts)
  show "fs_ready (env_out rep_env) (ascii ''a'') example_fs"
    using example_ready by (simp only: rep_env_def rx_env.simps)
qed (simp_all add: example_source_def example_reader_def example_tx_def reads_ok_def example_width rep_shape
    example_path del: ascii_Cons)

text \<open>C4. Delivery under loss. START and END arrive at least once; of each batch arrives any list of its
  datagrams, in any order and with any repetitions, as long as at least as many distinct ones arrive
  as the batch has data chunks, at most 1000 (with 100 recovery shards sent, up to 100 may be lost). Then the
  final file is exactly \<open>F\<close>, if the Reed-Solomon crate keeps its documented promise for the sizes of
  the batches of \<open>F\<close>.\<close>

theorem delivery_under_loss:
  assumes "md5_width (env_md5 env)" and "path_ok rel" and "length F < 10 ^ 10"
    and "fs_ready (env_out env) rel f"
    and "\<forall>b < num_batches (length F). fec_mds enc (env_fec env) (batch_size F b) BATCH_PARITY_CHUNKS"
    and "\<forall>b < num_batches (length F). set (arrived b) \<subseteq> set (batch_wire (env_md5 env) enc rel F b)
      \<and> batch_size F b \<le> card (set (arrived b))"
    and "0 < starts" and "0 < ends"
  shows "delivered env rel F (1, 0) (worker_state env f
    (replicate starts (start_packet (env_md5 env) rel (length F))
     @ concat (map arrived [0..<num_batches (length F)])
     @ replicate ends (end_packet rel (total_chunks (length F)))))"
proof -
  have "\<exists>xs. arrives env rel F (batch_parity enc F) b xs (arrived b)" if "b < num_batches (length F)" for b
    using arrives_enough [OF assms(1) that assms(3)] assms(5,6) that by blast
  from deliver [OF assms(1-3) _ _ _ this assms(7,8), of "initial_rx f"] assms(4) show ?thesis
    by (simp add: initial_rx_def file_counts_def new_stats_def worker_state_def worker_run_def
        del: foldl_append)
qed

text \<open>All that arrives of the one batch of a small file is its recovery shard 42, twice.\<close>

theorem delivery_under_loss_witness:
  "delivered rep_env (ascii ''a'') [7, 8, 9] (1, 0) (worker_state rep_env example_fs
    (replicate 1 (start_packet (env_md5 rep_env) (ascii ''a'') (length [7 :: byte, 8, 9]))
     @ concat (map (\<lambda>b. replicate 2 (parity_wire (env_md5 rep_env) rep_enc (ascii ''a'') [7, 8, 9] b ! 42))
         [0..<num_batches (length [7 :: byte, 8, 9])])
     @ replicate 1 (end_packet (ascii ''a'') (total_chunks (length [7 :: byte, 8, 9])))))"
proof -
  have one: "num_batches (length [7 :: byte, 8, 9]) = 1" "batch_size [7, 8, 9] 0 = 1"
    by (simp_all add: num_batches_def batch_size_def batch_len_def batch_end_def batch_first_def
        total_chunks_def div_ceil_def const_defs)
  have law: "fec_mds rep_enc (env_fec rep_env) (batch_size [7, 8, 9] 0) BATCH_PARITY_CHUNKS"
    using rep_mds by (simp only: one rep_env_def rx_env.simps)
  have "42 < length (parity_wire (env_md5 rep_env) rep_enc (ascii ''a'') [7, 8, 9] 0)"
    using fec_mds_parity(1) [OF law] by (simp add: parity_wire_def BATCH_PARITY_CHUNKS_def)
  then have "parity_wire (env_md5 rep_env) rep_enc (ascii ''a'') [7, 8, 9] 0 ! 42
      \<in> set (batch_wire (env_md5 rep_env) rep_enc (ascii ''a'') [7, 8, 9] 0)"
    unfolding batch_wire_def by (simp only: set_append Un_iff nth_mem simp_thms)
  moreover have "fs_ready (env_out rep_env) (ascii ''a'') example_fs"
    using example_ready by (simp only: rep_env_def rx_env.simps)
  moreover have "num_batches (Suc (Suc (Suc 0))) = Suc 0" using one(1) by simp
  ultimately show ?thesis
    using law one(2)
    by (intro delivery_under_loss [OF example_width example_path, where enc = rep_enc])
      (simp_all add: one numeral_2_eq_2 del: ascii_Cons)
qed

text \<open>C11. Lost tail. When the last batches of a file are lost entirely, END finalises only the batch
  being collected: the receiver publishes a file of the right size, with zeros for every byte of the
  lost batches, and counts it as received successfully.\<close>

theorem lost_tail_published:
  assumes "md5_width (env_md5 env)" and "path_ok rel" and "length F < 10 ^ 10"
    and "fs_ready (env_out env) rel f" and "fec_shape enc"
    and "0 < m" and "m < num_batches (length F)" and "0 < starts" and "0 < ends"
  shows "delivered env rel (take (m * 940000) F @ replicate (length F - m * 940000) 0) (1, 0)
    (worker_state env f
      (replicate starts (start_packet (env_md5 env) rel (length F))
       @ concat (map (batch_wire (env_md5 env) enc rel F) [0..<m])
       @ replicate ends (end_packet rel (total_chunks (length F)))))"
proof -
  have "\<exists>xs. arrives env rel F (batch_parity enc F) b xs (batch_wire (env_md5 env) enc rel F b)"
    if "b < num_batches (length F)" for b
    using arrives_all [OF assms(1) that assms(3) fec_shape_fits [OF assms(5)]] .
  from deliver_truncated [OF assms(1-3) _ _ _ this assms(8,9,6,7), of "initial_rx f"] assms(4) show ?thesis
    by (simp add: initial_rx_def file_counts_def new_stats_def worker_state_def worker_run_def
        written_def batch_first_def CHUNK_SIZE_def BATCH_DATA_CHUNKS_def mult.commute del: foldl_append)
qed

text \<open>A file of one byte more than a batch, of ones: its last byte becomes zero.\<close>

theorem lost_tail_published_witness:
  "delivered rep_env (ascii ''a'') (replicate 940000 1 @ replicate 1 0) (1, 0)
    (worker_state rep_env example_fs
      (replicate 1 (start_packet (env_md5 rep_env) (ascii ''a'') (length (replicate 940001 (1 :: byte))))
       @ concat (map (batch_wire (env_md5 rep_env) rep_enc (ascii ''a'') (replicate 940001 1)) [0..<1])
       @ replicate 1 (end_packet (ascii ''a'') (total_chunks (length (replicate 940001 (1 :: byte)))))))"
proof -
  have "(1 :: nat) < num_batches (length (replicate 940001 (1 :: byte)))"
    unfolding length_replicate by (simp add: num_batches_def total_chunks_def div_ceil_def const_defs)
  moreover have "length (replicate 940001 (1 :: byte)) < 10 ^ 10" unfolding length_replicate by simp
  moreover have "fs_ready (env_out rep_env) (ascii ''a'') example_fs"
    using example_ready by (simp only: rep_env_def rx_env.simps)
  moreover have "take (1 * 940000) (replicate 940001 (1 :: byte)) = replicate 940000 1"
    "length (replicate 940001 (1 :: byte)) - 1 * 940000 = 1"
    unfolding length_replicate take_replicate by simp_all
  ultimately show ?thesis
    using lost_tail_published [OF example_width example_path _ _ rep_shape, of "replicate 940001 1" example_fs 1 1 1]
    by (simp only: zero_less_one simp_thms HOL.simp_thms)
qed

section \<open>Datagrams end to end\<close>

lemma worker_step_udp:
  assumes "decode_packet raw = Some p" and "pkg_type p = PKG_TYPE_UDP" and "env_udp env"
  shows "rx_udp (worker_step env w raw) = rx_udp w @ [p]"
  using assms
  by (simp add: worker_step_def handle_packet_def handle_udp_def acquire_state_def pkg_type_defs Let_def)

lemma worker_run_udp:
  assumes "list_all (\<lambda>p. wire_ok p \<and> pkg_type p = PKG_TYPE_UDP) ps" and "env_udp env"
  shows "rx_udp (foldl (worker_step env) w (map encode_record ps)) = rx_udp w @ ps"
  using assms(1)
proof (induction ps arbitrary: w)
  case (Cons p ps)
  then show ?case using worker_step_udp [OF packets.dec_enc _ assms(2), of p w] by simp
qed simp

text \<open>C16. Datagrams end to end without loss. A datagram of 1 to 65535 bytes given to the sender's
  forwarder, over a kernel that in the end takes every packet, is cut up, sent, decoded by the receiver's
  worker, queued and reassembled: whatever the clocks read, the internal host is handed exactly that
  datagram, twice. The second copy, meant as a retransmission, is not recognised as one.\<close>

theorem datagram_end_to_end:
  assumes "accepts (outcomes t)" and "wire t = []" and "md5_width md5"
    and "1 \<le> length data" and "length data \<le> 65535" and "env_udp env"
  shows "\<exists>t'. forward_datagram md5 max_backoff now data t = Some t'
    \<and> (\<forall>is t0. map in_packet is = rx_udp (worker_state env f (wire t')) \<longrightarrow>
         udp_sent (udp_run (new_udp_state t0) is) = [data, data])"
proof -
  let ?copy = "udp_copy md5 now data"
  obtain t' where t': "forward_datagram md5 max_backoff now data t = Some t'" "wire t' = udp_wire md5 now data"
    using forward_datagram_emits [OF assms(1), of md5 max_backoff now data] assms(2) by (auto simp: emits_def)
  have ne: "data \<noteq> []" using assms(4) by auto
  have "list_all (\<lambda>p. wire_ok p \<and> pkg_type p = PKG_TYPE_UDP) ?copy"
    using udp_fragment_ok [OF assms(3,5)] by (simp add: udp_copy_def list_all_iff) (simp add: udp_fragment_def)
  then have queue: "rx_udp (worker_state env f (wire t')) = ?copy @ ?copy"
    using worker_run_udp [of "?copy @ ?copy" env "initial_rx f"] assms(6)
    by (simp add: t'(2) udp_wire_def worker_state_def worker_run_def initial_rx_def)
  have "udp_sent (udp_run (new_udp_state t0) is) = [data, data]" if eq: "map in_packet is = ?copy @ ?copy" for "is" t0
  proof -
    obtain as bs where split: "is = as @ bs" "map in_packet as = ?copy" "map in_packet bs = ?copy"
      using eq by (auto simp: map_eq_append_conv)
    have "udp_done ([] @ [data]) (udp_run (new_udp_state t0) as)"
      using udp_copy_run [OF assms(5) ne split(2), of "new_udp_state t0"] by (simp add: new_udp_state_def)
    with udp_copy_run [OF assms(5) ne split(3), of "udp_run (new_udp_state t0) as"]
    show ?thesis by (simp add: udp_done_def split(1) udp_run_append)
  qed
  with t'(1) queue show ?thesis by auto
qed

theorem datagram_end_to_end_witness:
  "\<exists>t'. forward_datagram (\<lambda>_. replicate 16 0) 250 9 [4, 5] example_tx = Some t'
    \<and> (\<forall>is t0. map in_packet is = rx_udp (worker_state (rep_env\<lparr>env_udp := True\<rparr>) example_fs (wire t')) \<longrightarrow>
         udp_sent (udp_run (new_udp_state t0) is) = [[4, 5], [4, 5]])"
proof (rule datagram_end_to_end)
  show "accepts (outcomes example_tx)" by (rule example_accepts)
qed (simp_all add: example_tx_def md5_width_def)

end
